(* ===== verification/Prelude.thy ===== *)
theory Prelude
  imports Main "HOL-Library.Word" "HOL-Library.Monad_Syntax"
begin

text \<open>
  What every component of the development shares: the machine types of the
  target (a 32-bit ARM: \<^verbatim>\<open>size_t\<close> and pointers have 32 bits, plain
  \<^verbatim>\<open>char\<close> is unsigned), memory as lists of bytes, and the C library
  functions on buffers that the sources call (\<^verbatim>\<open>strlen\<close>, \<^verbatim>\<open>memcpy\<close>,
  \<^verbatim>\<open>memcmp\<close>, \<^verbatim>\<open>strncmp\<close>).

  A C function that may touch memory outside its buffers, or fail an
  \<^verbatim>\<open>assert\<close>, is a function into an option type: \<^term>\<open>None\<close> is undefined
  behaviour, so a theorem that a call is \<^term>\<open>Some y\<close> says also that the
  call is memory safe.  The option monad of the library sequences such steps.
\<close>

unbundle bit_operations_syntax

named_theorems buf_simps \<open>unfolding of the byte buffer primitives\<close>

section \<open>Machine types\<close>

type_synonym u8 = "8 word"
type_synonym u16 = "16 word"
type_synonym u32 = "32 word"
type_synonym u64 = "64 word"
type_synonym bytes = "u8 list"

abbreviation ch :: "char \<Rightarrow> u8" where
  "ch c \<equiv> of_char c"

definition asc :: "string \<Rightarrow> bytes" where
  "asc s = map of_char s"

lemma asc_Nil [simp]: "asc [] = []"
  by (simp add: asc_def)

lemma asc_Cons [simp]: "asc (c # s) = of_char c # asc s"
  by (simp add: asc_def)

lemma length_asc [simp]: "length (asc s) = length s"
  by (simp add: asc_def)

lemma unat_of_nat_id: "n < 2 ^ LENGTH('a) \<Longrightarrow> unat (of_nat n :: 'a::len word) = n"
  by (simp add: unat_of_nat take_bit_nat_eq_self)

lemma of_nat_eq_iff_bounded:
  "\<lbrakk>m < 2 ^ LENGTH('a); n < 2 ^ LENGTH('a)\<rbrakk> \<Longrightarrow> (of_nat m :: 'a::len word) = of_nat n \<longleftrightarrow> m = n"
  by (metis unat_of_nat_id)

section \<open>Reading and writing a buffer\<close>

definition rd :: "'a list \<Rightarrow> nat \<Rightarrow> 'a option" where
  "rd b i = (if i < length b then Some (b ! i) else None)"

definition wr :: "'a list \<Rightarrow> nat \<Rightarrow> 'a \<Rightarrow> 'a list option" where
  "wr b i x = (if i < length b then Some (b[i := x]) else None)"

text \<open>\<^verbatim>\<open>memcpy(dst, b + off, n)\<close> as a read, \<^verbatim>\<open>memcpy(b + off, src, n)\<close> as a write.\<close>

definition rd_bytes :: "'a list \<Rightarrow> nat \<Rightarrow> nat \<Rightarrow> 'a list option" where
  "rd_bytes b off n = (if off + n \<le> length b then Some (take n (drop off b)) else None)"

definition wr_bytes :: "'a list \<Rightarrow> nat \<Rightarrow> 'a list \<Rightarrow> 'a list option" where
  "wr_bytes b off src = (if off + length src \<le> length b
     then Some (take off b @ src @ drop (off + length src) b) else None)"

definition guard :: "bool \<Rightarrow> unit option" where
  "guard p = (if p then Some () else None)"

lemma guard_simps [simp]: "guard True = Some ()" "guard False = None"
  by (simp_all add: guard_def)

lemma guard_eq_Some [simp]: "guard p = Some u \<longleftrightarrow> p"
  by (simp add: guard_def)

lemma rd_Some_iff [buf_simps]: "rd b i = Some x \<longleftrightarrow> i < length b \<and> x = b ! i"
  by (auto simp: rd_def)

lemma rd_in [simp]: "i < length b \<Longrightarrow> rd b i = Some (b ! i)"
  by (simp add: rd_def)

lemma rd_out [simp]: "length b \<le> i \<Longrightarrow> rd b i = None"
  by (simp add: rd_def)

lemma wr_in [simp]: "i < length b \<Longrightarrow> wr b i x = Some (b[i := x])"
  by (simp add: wr_def)

lemma wr_out [simp]: "length b \<le> i \<Longrightarrow> wr b i x = None"
  by (simp add: wr_def)

lemma wr_Some_length: "wr b i x = Some b' \<Longrightarrow> length b' = length b"
  by (auto simp: wr_def split: if_splits)

lemma wr_bytes_in [simp]:
  "off + length src \<le> length b \<Longrightarrow>
   wr_bytes b off src = Some (take off b @ src @ drop (off + length src) b)"
  by (simp add: wr_bytes_def)

lemma wr_bytes_out [simp]: "length b < off + length src \<Longrightarrow> wr_bytes b off src = None"
  by (simp add: wr_bytes_def)

lemma wr_bytes_Some_length: "wr_bytes b off src = Some b' \<Longrightarrow> length b' = length b"
  by (auto simp: wr_bytes_def split: if_splits)

lemma rd_bytes_in [simp]: "off + n \<le> length b \<Longrightarrow> rd_bytes b off n = Some (take n (drop off b))"
  by (simp add: rd_bytes_def)

lemma rd_bytes_out [simp]: "length b < off + n \<Longrightarrow> rd_bytes b off n = None"
  by (simp add: rd_bytes_def)

lemma rd_bytes_length: "rd_bytes b off n = Some xs \<Longrightarrow> length xs = n"
  by (auto simp: rd_bytes_def split: if_splits)

text \<open>Writing at the end of the part already written: the form most encoders have.\<close>

lemma wr_append:
  assumes "i = length w" and "0 < length r"
  shows "wr (w @ r) i x = Some ((w @ [x]) @ tl r)"
  using assms by (cases r) (simp_all add: wr_def list_update_append)

lemma wr_bytes_append:
  assumes "i = length w" and "length src \<le> length r"
  shows "wr_bytes (w @ r) i src = Some ((w @ src) @ drop (length src) r)"
  using assms by (simp add: wr_bytes_def)

lemma rd_append_left: "i < length w \<Longrightarrow> rd (w @ r) i = Some (w ! i)"
  by (simp add: rd_def nth_append)

section \<open>Strings in memory\<close>

text \<open>\<^verbatim>\<open>strlen\<close>: it reads up to the first NUL, and past the buffer when there is none.\<close>

fun strlen :: "bytes \<Rightarrow> nat option" where
  "strlen [] = None"
| "strlen (c # cs) = (if c = 0 then Some 0 else map_option Suc (strlen cs))"

definition cstr :: "bytes \<Rightarrow> bytes" where
  "cstr b = takeWhile (\<lambda>c. c \<noteq> 0) b"

lemma strlen_eq: "strlen b = (if 0 \<in> set b then Some (length (cstr b)) else None)"
  by (induction b) (auto simp: cstr_def)

lemma strlen_cstr [simp]: "strlen (cstr b @ 0 # r) = Some (length (cstr b))"
  by (induction b) (auto simp: cstr_def)

lemma strlen_append: "0 \<notin> set s \<Longrightarrow> strlen (s @ 0 # r) = Some (length s)"
  by (induction s) auto

lemma cstr_append: "0 \<notin> set s \<Longrightarrow> cstr (s @ 0 # r) = s"
  by (induction s) (auto simp: cstr_def)

lemma cstr_no_nul [simp]: "0 \<notin> set (cstr b)"
  by (induction b) (auto simp: cstr_def)

lemma cstr_prefix: "0 \<in> set b \<Longrightarrow> \<exists>r. b = cstr b @ 0 # r"
  by (induction b) (auto simp: cstr_def)

lemma take_cstr: "take (length (cstr b)) b = cstr b"
  by (induction b) (auto simp: cstr_def)

lemma length_cstr_le: "length (cstr b) \<le> length b"
  by (simp add: cstr_def length_takeWhile_le)

text \<open>\<^verbatim>\<open>memcmp\<close>: the sign of the first differing pair of bytes, compared unsigned.\<close>

fun memcmp :: "bytes \<Rightarrow> bytes \<Rightarrow> int" where
  "memcmp (a # as) (b # bs) = (if a = b then memcmp as bs else uint a - uint b)"
| "memcmp _ _ = 0"

lemma memcmp_refl [simp]: "memcmp a a = 0"
  by (induction a) auto

lemma memcmp_eq_0: "length a = length b \<Longrightarrow> memcmp a b = 0 \<longleftrightarrow> a = b"
  by (induction a b rule: memcmp.induct) (auto simp: word_uint_eq_iff)

text \<open>\<^verbatim>\<open>strncmp(a, b, n) == 0\<close>: equal up to \<^verbatim>\<open>n\<close> bytes or the first common NUL.\<close>

fun strneq :: "bytes \<Rightarrow> bytes \<Rightarrow> nat \<Rightarrow> bool option" where
  "strneq _ _ 0 = Some True"
| "strneq (a # as) (b # bs) (Suc n) =
     (if a \<noteq> b then Some False else if a = 0 then Some True else strneq as bs n)"
| "strneq _ _ (Suc n) = None"

lemma strneq_prefix:
  "\<lbrakk>0 \<notin> set k; length k = n; 0 \<in> set s\<rbrakk> \<Longrightarrow> strneq (k @ r) s n = Some (take n s = k)"
proof (induction k arbitrary: s n)
  case (Cons c k)
  then show ?case by (cases s; cases n) auto
qed simp

section \<open>Decimal digits\<close>

definition is_digit :: "u8 \<Rightarrow> bool" where
  "is_digit c \<longleftrightarrow> ch CHR ''0'' \<le> c \<and> c \<le> ch CHR ''9''"

text \<open>The number a digit string denotes, most significant digit first.\<close>

definition dec_val :: "bytes \<Rightarrow> nat" where
  "dec_val s = foldl (\<lambda>n c. 10 * n + (unat c - 48)) 0 s"

lemma is_digit_unat: "is_digit c \<longleftrightarrow> 48 \<le> unat c \<and> unat c \<le> 57"
  by (simp add: is_digit_def word_le_nat_alt)

lemma dec_val_Nil [simp]: "dec_val [] = 0"
  by (simp add: dec_val_def)

lemma dec_val_snoc [simp]: "dec_val (s @ [c]) = 10 * dec_val s + (unat c - 48)"
  by (simp add: dec_val_def)

lemma dec_val_append: "dec_val (s @ t) = dec_val s * 10 ^ length t + dec_val t"
proof (induction t rule: rev_induct)
  case (snoc c t)
  have "dec_val (s @ t @ [c]) = 10 * dec_val (s @ t) + (unat c - 48)"
    using dec_val_snoc [of "s @ t" c] by simp
  then show ?case using snoc.IH by (simp add: algebra_simps)
qed simp

lemma dec_val_Cons: "dec_val (c # s) = (unat c - 48) * 10 ^ length s + dec_val s"
  using dec_val_append [of "[c]" s] by (simp add: dec_val_def)

lemma dec_val_bound: "list_all is_digit s \<Longrightarrow> dec_val s < 10 ^ length s"
proof (induction s)
  case (Cons c s)
  then have "unat c - 48 \<le> 9" "dec_val s < 10 ^ length s" by (auto simp: is_digit_unat)
  then have "(unat c - 48) * 10 ^ length s \<le> 9 * 10 ^ length s" by (intro mult_right_mono) auto
  with \<open>dec_val s < _\<close> show ?case
    unfolding dec_val_Cons length_Cons power_Suc by linarith
qed simp

text \<open>What \<^verbatim>\<open>%d\<close> and \<^verbatim>\<open>%u\<close> print for a non-negative number.\<close>

function dec_str :: "nat \<Rightarrow> bytes" where
  "dec_str n = (if n < 10 then [of_nat n + 48] else dec_str (n div 10) @ [of_nat (n mod 10) + 48])"
  by pat_completeness auto
termination
  by (relation "measure id") auto

declare dec_str.simps [simp del]

lemma unat_digit: "n < 10 \<Longrightarrow> unat (of_nat n + 48 :: u8) = n + 48"
  using unat_of_nat_id [of "n + 48", where 'a=8] by simp

lemma is_digit_of_nat [simp]: "n < 10 \<Longrightarrow> is_digit (of_nat n + 48)"
  by (simp add: is_digit_unat unat_digit)

lemma dec_str_digits [simp]: "list_all is_digit (dec_str n)"
proof (induction n rule: dec_str.induct)
  case (1 n)
  then show ?case by (subst dec_str.simps) simp
qed

lemma dec_str_val [simp]: "dec_val (dec_str n) = n"
proof (induction n rule: dec_str.induct)
  case (1 n)
  show ?case
  proof (cases "n < 10")
    case True
    then show ?thesis using dec_val_snoc [of "[]" "of_nat n + 48"]
      by (subst dec_str.simps) (simp add: unat_digit)
  next
    case False
    then show ?thesis using 1 by (subst dec_str.simps) (simp add: unat_digit)
  qed
qed

lemma dec_str_nonempty [simp]: "dec_str n \<noteq> []"
  by (subst dec_str.simps) simp

lemma dec_str_no_nul [simp]: "0 \<notin> set (dec_str n)"
  using dec_str_digits [of n] by (auto simp: list_all_iff is_digit_unat)

lemma dec_str_inj: "dec_str m = dec_str n \<longleftrightarrow> m = n"
  by (metis dec_str_val)

lemma dec_str_length: "n < 10 ^ k \<Longrightarrow> 0 < k \<Longrightarrow> length (dec_str n) \<le> k"
proof (induction n arbitrary: k rule: dec_str.induct)
  case (1 n)
  show ?case
  proof (cases "n < 10")
    case True
    then show ?thesis using 1 by (subst dec_str.simps) simp
  next
    case False
    then obtain j where k: "k = Suc j" "0 < j" using 1 by (cases k; cases "k - 1") auto
    then have "n div 10 < 10 ^ j" using 1 by (simp add: less_mult_imp_div_less mult.commute)
    then show ?thesis using 1 False k by (subst dec_str.simps) auto
  qed
qed

section \<open>The heap\<close>

text \<open>
  \<^verbatim>\<open>malloc\<close> belongs to the C library of the build and is a parameter: it returns NULL
  (\<^term>\<open>None\<close>) or a fresh block with unspecified contents.  The one fact the code relies on is
  that a block it gets has the size it asked for.
\<close>

definition malloc_ok :: "(nat \<Rightarrow> bytes option) \<Rightarrow> bool" where
  "malloc_ok malloc \<longleftrightarrow> (\<forall>n b. malloc n = Some b \<longrightarrow> length b = n)"

lemma malloc_okD: "\<lbrakk>malloc_ok malloc; malloc n = Some b\<rbrakk> \<Longrightarrow> length b = n"
  by (simp add: malloc_ok_def)

lemma malloc_ok_fill: "malloc_ok (\<lambda>n. Some (replicate n c))"
  by (simp add: malloc_ok_def)

end
