(* ===== verification/Errno.thy ===== *)
theory Errno
  imports Main
begin

text \<open>The error numbers of the C library the firmware is built with; functions return them negated.\<close>

definition EPERM :: int where "EPERM = 1"
definition ENOENT :: int where "ENOENT = 2"
definition ESRCH :: int where "ESRCH = 3"
definition EIO :: int where "EIO = 5"
definition ECHILD :: int where "ECHILD = 10"
definition ENXIO :: int where "ENXIO = 6"
definition EAGAIN :: int where "EAGAIN = 11"
definition ENOMEM :: int where "ENOMEM = 12"
definition EFAULT :: int where "EFAULT = 14"
definition ENODEV :: int where "ENODEV = 19"
definition EINVAL :: int where "EINVAL = 22"
definition EMSGSIZE :: int where "EMSGSIZE = 122"
definition ENOTSUP :: int where "ENOTSUP = 134"
definition E2BIG :: int where "E2BIG = 7"
definition EACCES :: int where "EACCES = 13"
definition EBUSY :: int where "EBUSY = 16"
definition EFBIG :: int where "EFBIG = 27"
definition EBADMSG :: int where "EBADMSG = 77"
definition ECONNRESET :: int where "ECONNRESET = 104"
definition EAFNOSUPPORT :: int where "EAFNOSUPPORT = 106"
definition ENETUNREACH :: int where "ENETUNREACH = 114"
definition ETIMEDOUT :: int where "ETIMEDOUT = 116"
definition EHOSTDOWN :: int where "EHOSTDOWN = 117"
definition EHOSTUNREACH :: int where "EHOSTUNREACH = 118"
definition EPROTONOSUPPORT :: int where "EPROTONOSUPPORT = 123"
definition ENOTCONN :: int where "ENOTCONN = 128"

lemmas errno_defs = EPERM_def ENOENT_def ESRCH_def EIO_def ENXIO_def ECHILD_def EAGAIN_def EFAULT_def ENOMEM_def ENODEV_def EINVAL_def
  EMSGSIZE_def ENOTSUP_def
  E2BIG_def EACCES_def EBUSY_def EFBIG_def EBADMSG_def ECONNRESET_def EAFNOSUPPORT_def ENETUNREACH_def ETIMEDOUT_def EHOSTDOWN_def EHOSTUNREACH_def EPROTONOSUPPORT_def ENOTCONN_def

end
