(* ===== verification/U128.thy ===== *)
theory U128
  imports Prelude
begin

text \<open>
  \<^verbatim>\<open>antenna_sdk/src/u128.c\<close>: the unsigned 128-bit numbers of the IoTeX
  client.  The firmware is built with \<^verbatim>\<open>_NO_128INT_\<close> (u128.h), where a
  number is its decimal string in a 40-byte array; the other branch of every
  function computes with a native 128-bit integer.  Both branches are modelled,
  the second with the suffix \<^verbatim>\<open>_int\<close>, and the theorems relate them to the
  natural number the string denotes and to each other.
\<close>

section \<open>The string representation\<close>

definition UINT128_RAW_MAX_LEN :: nat where
  "UINT128_RAW_MAX_LEN = 40"

record uint128_t =
  raw :: bytes

definition u128_equal :: "uint128_t \<Rightarrow> uint128_t \<Rightarrow> bool" where
  "u128_equal a b \<longleftrightarrow> memcmp (raw a) (raw b) = 0"

definition u128_is_less :: "uint128_t \<Rightarrow> uint128_t \<Rightarrow> bool option" where
  "u128_is_less a b = do {
     a_len \<leftarrow> strlen (raw a);
     b_len \<leftarrow> strlen (raw b);
     if a_len < b_len then Some True
     else if b_len < a_len then Some False
     else do {
       x \<leftarrow> rd_bytes (raw a) 0 a_len;
       y \<leftarrow> rd_bytes (raw b) 0 a_len;
       Some (memcmp x y < 0)
     }
   }"

definition zero_raw :: bytes where
  "zero_raw = replicate UINT128_RAW_MAX_LEN 0"

text \<open>The copy loop: \<^verbatim>\<open>*src\<close> is the head of the first argument, \<^verbatim>\<open>dest\<close> an index of \<^verbatim>\<open>raw\<close>.\<close>

fun str2u128_copy :: "bytes \<Rightarrow> nat \<Rightarrow> bytes \<Rightarrow> bytes option" where
  "str2u128_copy [] dest r = None"
| "str2u128_copy (c # src) dest r =
     (if c = 0 then Some r
      else if is_digit c then do { r' \<leftarrow> wr r dest c; str2u128_copy src (Suc dest) r' }
      else wr zero_raw 0 (ch CHR ''0''))"

definition str2u128 :: "bytes \<Rightarrow> uint128_t option" where
  "str2u128 str = do {
     str_len \<leftarrow> strlen str;
     if str_len > UINT128_RAW_MAX_LEN - 1
     then do { r \<leftarrow> wr zero_raw 0 (ch CHR ''0''); Some \<lparr>raw = r\<rparr> }
     else do { r \<leftarrow> str2u128_copy str 0 zero_raw; Some \<lparr>raw = r\<rparr> }
   }"

definition construct_u128 :: "bytes \<Rightarrow> uint128_t option" where
  "construct_u128 str = str2u128 str"

text \<open>The outer option is undefined behaviour (or the failed assert), the inner one a NULL result.\<close>

definition u1282str :: "uint128_t \<Rightarrow> bytes \<Rightarrow> nat \<Rightarrow> bytes option option" where
  "u1282str num str str_max_len = do {
     guard (str_max_len \<ge> 2);
     raw_len \<leftarrow> strlen (raw num);
     if str_max_len < raw_len + 1 then Some None
     else do {
       src \<leftarrow> rd_bytes (raw num) 0 raw_len;
       str1 \<leftarrow> wr_bytes str 0 src;
       str2 \<leftarrow> wr str1 raw_len 0;
       Some (Some str2)
     }
   }"

text \<open>\<^verbatim>\<open>u128_print\<close> formats into a local buffer; the text it prints is the result here.\<close>

definition u128_print :: "uint128_t \<Rightarrow> bytes \<Rightarrow> bytes option" where
  "u128_print u u128_str = do {
     r \<leftarrow> u1282str u u128_str UINT128_RAW_MAX_LEN;
     s \<leftarrow> r;
     n \<leftarrow> strlen s;
     Some (take n s @ [0x0A])
   }"

section \<open>The native representation\<close>

type_synonym u128i = "128 word"

definition u128_equal_int :: "u128i \<Rightarrow> u128i \<Rightarrow> bool" where
  "u128_equal_int a b \<longleftrightarrow> a = b"

definition u128_is_less_int :: "u128i \<Rightarrow> u128i \<Rightarrow> bool" where
  "u128_is_less_int a b \<longleftrightarrow> a < b"

fun str2u128_loop_int :: "bytes \<Rightarrow> u128i \<Rightarrow> u128i option" where
  "str2u128_loop_int [] u = None"
| "str2u128_loop_int (c # cs) u =
     (if c = 0 then Some u
      else if is_digit c then str2u128_loop_int cs (u * 10 + (ucast c - 48))
      else Some 0)"

definition str2u128_int :: "bytes \<Rightarrow> u128i option" where
  "str2u128_int str = str2u128_loop_int str 0"

function u1282str_digits_int ::
  "u128i \<Rightarrow> nat \<Rightarrow> bytes \<Rightarrow> nat \<Rightarrow> (bytes \<times> nat) option option" where
  "u1282str_digits_int num e str mx =
     (if num = 0 then Some (Some (str, e))
      else if e < mx - 1 then do {
        str' \<leftarrow> wr str e (ucast (num mod 10) + ch CHR ''0'');
        u1282str_digits_int (num div 10) (Suc e) str' mx
      }
      else Some None)"
  by pat_completeness auto
termination
  by (relation "measure (\<lambda>(num, _). unat num)") (auto simp: unat_div unat_gt_0)

declare u1282str_digits_int.simps [simp del]

text \<open>\<^verbatim>\<open>while (start < --end)\<close>: the swap loop.\<close>

function u1282str_reverse :: "nat \<Rightarrow> nat \<Rightarrow> bytes \<Rightarrow> bytes option" where
  "u1282str_reverse start e str =
     (let e' = e - 1 in
      if start < e' then do {
        x \<leftarrow> rd str start;
        y \<leftarrow> rd str e';
        str1 \<leftarrow> wr str start y;
        str2 \<leftarrow> wr str1 e' x;
        u1282str_reverse (Suc start) e' str2
      }
      else Some str)"
  by pat_completeness auto
termination
  by (relation "measure (\<lambda>(s, e, _). e - s)") auto

declare u1282str_reverse.simps [simp del]

definition u1282str_int :: "u128i \<Rightarrow> bytes \<Rightarrow> nat \<Rightarrow> bytes option option" where
  "u1282str_int num str str_max_len = do {
     guard (str_max_len \<ge> 2);
     if num = 0 then do {
       s1 \<leftarrow> wr str 0 (ch CHR ''0'');
       s2 \<leftarrow> wr s1 1 0;
       Some (Some s2)
     }
     else do {
       r \<leftarrow> u1282str_digits_int num 0 str str_max_len;
       case r of
         None \<Rightarrow> Some None
       | Some (s, e) \<Rightarrow> do {
           s1 \<leftarrow> wr s e 0;
           s2 \<leftarrow> u1282str_reverse 0 e s1;
           Some (Some s2)
         }
     }
   }"

section \<open>Canonical decimals and the abstraction\<close>

text \<open>A canonical decimal: digits only, no leading zero except in \<^verbatim>\<open>0\<close> itself.\<close>

definition canonical :: "bytes \<Rightarrow> bool" where
  "canonical s \<longleftrightarrow> s \<noteq> [] \<and> list_all is_digit s \<and> (hd s = ch CHR ''0'' \<longrightarrow> length s = 1)"

definition raw_of :: "bytes \<Rightarrow> bytes" where
  "raw_of s = s @ replicate (UINT128_RAW_MAX_LEN - length s) 0"

definition u128_wf :: "uint128_t \<Rightarrow> bool" where
  "u128_wf u \<longleftrightarrow> (let s = cstr (raw u) in
     list_all is_digit s \<and> length s < UINT128_RAW_MAX_LEN \<and> raw u = raw_of s)"

definition u128_abs :: "uint128_t \<Rightarrow> nat" where
  "u128_abs u = dec_val (cstr (raw u))"

lemma digit_not_nul: "list_all is_digit s \<Longrightarrow> 0 \<notin> set s"
  by (auto simp: list_all_iff is_digit_unat)

lemma raw_of_split:
  "length s < UINT128_RAW_MAX_LEN \<Longrightarrow>
   raw_of s = s @ 0 # replicate (UINT128_RAW_MAX_LEN - Suc (length s)) 0"
  by (simp add: raw_of_def flip: replicate_Suc Suc_diff_Suc)

lemma cstr_raw_of [simp]:
  "\<lbrakk>list_all is_digit s; length s < UINT128_RAW_MAX_LEN\<rbrakk> \<Longrightarrow> cstr (raw_of s) = s"
  by (simp add: raw_of_split cstr_append digit_not_nul)

lemma strlen_raw_of [simp]:
  "\<lbrakk>list_all is_digit s; length s < UINT128_RAW_MAX_LEN\<rbrakk> \<Longrightarrow> strlen (raw_of s) = Some (length s)"
  by (simp add: raw_of_split strlen_append digit_not_nul)

lemma take_raw_of [simp]: "take (length s) (raw_of s) = s"
  by (simp add: raw_of_def)

lemma length_raw_of: "length s \<le> UINT128_RAW_MAX_LEN \<Longrightarrow> length (raw_of s) = UINT128_RAW_MAX_LEN"
  by (simp add: raw_of_def)

lemma length_le_raw_of [simp]: "length s \<le> length (raw_of s)"
  by (simp add: raw_of_def)

lemma u128_wfE:
  assumes "u128_wf u"
  obtains s where "list_all is_digit s" "length s < UINT128_RAW_MAX_LEN" "u = \<lparr>raw = raw_of s\<rparr>"
    "u128_abs u = dec_val s" "cstr (raw u) = s"
  using assms by (metis (mono_tags) u128_wf_def u128_abs_def uint128_t.surjective old.unit.exhaust)

lemma u128_wf_raw_of:
  "\<lbrakk>list_all is_digit s; length s < UINT128_RAW_MAX_LEN\<rbrakk> \<Longrightarrow> u128_wf \<lparr>raw = raw_of s\<rparr>"
  by (simp add: u128_wf_def)

lemma dec_val_pos: "\<lbrakk>canonical s; hd s \<noteq> ch CHR ''0''\<rbrakk> \<Longrightarrow> 10 ^ (length s - 1) \<le> dec_val s"
proof -
  assume c: "canonical s" "hd s \<noteq> ch CHR ''0''"
  then obtain d t where s: "s = d # t" and d: "is_digit d" "d \<noteq> ch CHR ''0''"
    by (cases s) (auto simp: canonical_def)
  have "unat d \<noteq> 48" using d by (simp add: word_unat_eq_iff)
  then have "1 \<le> unat d - 48" using d by (auto simp: is_digit_unat)
  then have "1 * 10 ^ length t \<le> (unat d - 48) * 10 ^ length t" by (rule mult_right_mono) simp
  then show ?thesis unfolding s dec_val_Cons by (simp add: trans_le_add1)
qed

section \<open>Order\<close>

lemma dec_val_Cons_less:
  assumes "unat x < unat y" "48 \<le> unat x" "dec_val s < 10 ^ n" "length s = n" "length t = n"
  shows "dec_val (x # s) < dec_val (y # t)"
proof -
  have "(unat x - 48) + 1 \<le> unat y - 48" using assms by arith
  then have "((unat x - 48) + 1) * 10 ^ n \<le> (unat y - 48) * 10 ^ n" by (rule mult_right_mono) simp
  then show ?thesis using assms(3-) unfolding dec_val_Cons distrib_right by simp
qed

lemma memcmp_digits:
  "\<lbrakk>length s = length t; list_all is_digit s; list_all is_digit t\<rbrakk> \<Longrightarrow>
   memcmp s t < 0 \<longleftrightarrow> dec_val s < dec_val t"
proof (induction s arbitrary: t)
  case (Cons x s)
  then obtain y t' where t: "t = y # t'" and len: "length s = length t'" by (cases t) auto
  have bd: "dec_val s < 10 ^ length t'" "dec_val t' < 10 ^ length t'"
    using Cons.prems t len dec_val_bound [of s] dec_val_bound [of t'] by auto
  have dig: "48 \<le> unat x" "48 \<le> unat y" using Cons.prems t by (auto simp: is_digit_unat)
  consider "x = y" | "unat x < unat y" | "unat y < unat x"
    by (metis linorder_neqE_nat word_unat_eq_iff)
  then show ?case
  proof cases
    case 1
    then show ?thesis using Cons t len by (simp add: dec_val_Cons)
  next
    case 2
    then have "uint x < uint y" "x \<noteq> y" by (auto simp: word_less_nat_alt [symmetric] word_less_def)
    then show ?thesis using dec_val_Cons_less [OF 2 dig(1) bd(1), of t'] t len by simp
  next
    case 3
    then have "uint y < uint x" "x \<noteq> y" by (auto simp: word_less_nat_alt [symmetric] word_less_def)
    then show ?thesis using dec_val_Cons_less [OF 3 dig(2) bd(2), of s] t len by simp
  qed
qed simp

lemma canonical_shorter:
  assumes "canonical s" "canonical t" "length s < length t"
  shows "dec_val s < dec_val t"
proof -
  have "s \<noteq> []" using assms by (simp add: canonical_def)
  then have "hd t \<noteq> ch CHR ''0''" using assms by (cases s) (auto simp: canonical_def)
  then have "10 ^ (length t - 1) \<le> dec_val t" using assms by (intro dec_val_pos)
  moreover have "dec_val s < 10 ^ length s" using assms by (intro dec_val_bound) (simp add: canonical_def)
  moreover have "(10::nat) ^ length s \<le> 10 ^ (length t - 1)" using assms by (intro power_increasing) auto
  ultimately show ?thesis by linarith
qed

definition u128_canonical :: "uint128_t \<Rightarrow> bool" where
  "u128_canonical u \<longleftrightarrow> u128_wf u \<and> canonical (cstr (raw u))"

lemma u128_canonicalE:
  assumes "u128_canonical u"
  obtains s where "canonical s" "list_all is_digit s" "length s < UINT128_RAW_MAX_LEN"
    "u = \<lparr>raw = raw_of s\<rparr>" "u128_abs u = dec_val s" "cstr (raw u) = s"
  using assms unfolding u128_canonical_def by (auto elim!: u128_wfE simp: canonical_def)

lemma canonical_inj:
  assumes "canonical s" "canonical t" "dec_val s = dec_val t"
  shows "s = t"
proof -
  have len: "length s = length t"
    using canonical_shorter [of s t] canonical_shorter [of t s] assms by (cases "length s" "length t" rule: linorder_cases) auto
  have "\<not> memcmp s t < 0" "\<not> memcmp t s < 0"
    using memcmp_digits [of s t] memcmp_digits [of t s] assms len by (auto simp: canonical_def)
  moreover have "memcmp t s = - memcmp s t" by (induction s t rule: memcmp.induct) auto
  ultimately show ?thesis using memcmp_eq_0 [OF len] by simp
qed

lemma u128_is_less_wf:
  assumes "u128_wf a" "u128_wf b"
  shows "u128_is_less a b = Some (length (cstr (raw a)) < length (cstr (raw b)) \<or>
           length (cstr (raw a)) = length (cstr (raw b)) \<and> u128_abs a < u128_abs b)"
proof -
  obtain s where s: "list_all is_digit s" "length s < UINT128_RAW_MAX_LEN" "a = \<lparr>raw = raw_of s\<rparr>"
    "u128_abs a = dec_val s" "cstr (raw a) = s" using assms(1) by (rule u128_wfE)
  obtain t where t: "list_all is_digit t" "length t < UINT128_RAW_MAX_LEN" "b = \<lparr>raw = raw_of t\<rparr>"
    "u128_abs b = dec_val t" "cstr (raw b) = t" using assms(2) by (rule u128_wfE)
  have "rd_bytes (raw_of s) 0 (length s) = Some s" by simp
  moreover have "length s = length t \<Longrightarrow> rd_bytes (raw_of t) 0 (length s) = Some t"
    by (metis add_0 drop0 length_le_raw_of rd_bytes_in take_raw_of)
  ultimately show ?thesis using s t memcmp_digits [of s t]
    by (auto simp: u128_is_less_def simp del: rd_bytes_in)
qed

text \<open>On canonical numbers (what the client builds from decimal strings without leading zeros)
  the comparison functions of the string representation are the order and the equality of the
  natural numbers denoted, and they read no byte outside the arrays.\<close>

theorem u128_order_refines_nat:
  assumes "u128_canonical a" and "u128_canonical b"
  shows "u128_is_less a b = Some (u128_abs a < u128_abs b) \<and>
         (u128_equal a b \<longleftrightarrow> u128_abs a = u128_abs b)"
proof -
  obtain s where s: "canonical s" "length s < UINT128_RAW_MAX_LEN" "a = \<lparr>raw = raw_of s\<rparr>"
    "u128_abs a = dec_val s" "cstr (raw a) = s" using assms(1) by (rule u128_canonicalE)
  obtain t where t: "canonical t" "length t < UINT128_RAW_MAX_LEN" "b = \<lparr>raw = raw_of t\<rparr>"
    "u128_abs b = dec_val t" "cstr (raw b) = t" using assms(2) by (rule u128_canonicalE)
  have "u128_is_less a b = Some (dec_val s < dec_val t)"
    using u128_is_less_wf [of a b] assms s t canonical_shorter [of s t] canonical_shorter [of t s]
    by (cases "length s" "length t" rule: linorder_cases) (auto simp: u128_canonical_def)
  moreover have "u128_equal a b \<longleftrightarrow> s = t"
    using s t by (metis length_raw_of less_imp_le memcmp_eq_0 u128_equal_def uint128_t.select_convs(1))
  ultimately show ?thesis using s t canonical_inj by auto
qed

lemma u128_order_refines_nat_witness:
  "u128_is_less \<lparr>raw = raw_of (asc ''99'')\<rparr> \<lparr>raw = raw_of (asc ''100'')\<rparr> = Some True"
  using u128_order_refines_nat [of "\<lparr>raw = raw_of (asc ''99'')\<rparr>" "\<lparr>raw = raw_of (asc ''100'')\<rparr>"]
  by (simp add: u128_canonical_def u128_wf_def canonical_def is_digit_def u128_abs_def dec_val_def
      UINT128_RAW_MAX_LEN_def)

section \<open>Parsing and printing\<close>

lemma wr_zero_raw: "wr zero_raw 0 (ch CHR ''0'') = Some (raw_of (asc ''0''))"
  by (simp add: zero_raw_def raw_of_def UINT128_RAW_MAX_LEN_def wr_def numeral_eq_Suc)

lemma str2u128_copy_run:
  assumes "0 \<notin> set s" "length s \<le> k"
  shows "str2u128_copy (s @ 0 # rest) (length w) (w @ replicate k 0) =
    Some (if list_all is_digit s then w @ s @ replicate (k - length s) 0 else raw_of (asc ''0''))"
  using assms
proof (induction s arbitrary: w k)
  case (Cons c s)
  then obtain k' where k: "k = Suc k'" by (cases k) auto
  show ?case
  proof (cases "is_digit c")
    case True
    then show ?thesis using Cons.prems Cons.IH [of k' "w @ [c]"] k
      by (simp add: wr_append)
  next
    case False
    then show ?thesis using Cons.prems wr_zero_raw by simp
  qed
qed simp

lemma str2u128_eq:
  assumes "0 \<notin> set s"
  shows "str2u128 (s @ 0 # rest) = Some \<lparr>raw = raw_of
    (if length s < UINT128_RAW_MAX_LEN \<and> list_all is_digit s then s else asc ''0'')\<rparr>"
proof (cases "length s < UINT128_RAW_MAX_LEN")
  case True
  have "str2u128_copy (s @ 0 # rest) 0 zero_raw =
      Some (raw_of (if list_all is_digit s then s else asc ''0''))"
    using str2u128_copy_run [of s UINT128_RAW_MAX_LEN rest "[]"] assms True
    by (simp add: zero_raw_def raw_of_def)
  moreover have "\<not> UINT128_RAW_MAX_LEN - 1 < length s" using True by simp
  ultimately show ?thesis using True assms by (simp add: str2u128_def strlen_append)
next
  case False
  then have "UINT128_RAW_MAX_LEN - 1 < length s" by (simp add: UINT128_RAW_MAX_LEN_def)
  then show ?thesis using False assms wr_zero_raw by (simp add: str2u128_def strlen_append)
qed

lemma is_digit_zero [simp]: "is_digit 48"
  by (simp add: is_digit_def)

text \<open>The parser is total and memory safe on every NUL-terminated input, always leaves a
  well-formed number (a digit string, NUL-padded to 40 bytes), denotes the input's value when the
  input is at most 39 digits, and zero for every other input.\<close>

theorem str2u128_total:
  assumes "0 \<in> set str"
  shows "\<exists>u. str2u128 str = Some u \<and> u128_wf u \<and>
    u128_abs u = (if length (cstr str) \<le> 39 \<and> list_all is_digit (cstr str) then dec_val (cstr str) else 0)"
proof -
  obtain r where r: "str = cstr str @ 0 # r" using cstr_prefix assms by blast
  let ?t = "if length (cstr str) < UINT128_RAW_MAX_LEN \<and> list_all is_digit (cstr str)
            then cstr str else asc ''0''"
  have "str2u128 str = Some \<lparr>raw = raw_of ?t\<rparr>"
    using str2u128_eq [of "cstr str" r] r by simp
  moreover have t: "list_all is_digit ?t" "length ?t < UINT128_RAW_MAX_LEN"
    by (auto simp: UINT128_RAW_MAX_LEN_def)
  ultimately show ?thesis using u128_wf_raw_of [OF t]
    by (auto simp: u128_abs_def UINT128_RAW_MAX_LEN_def dec_val_def)
qed

lemma str2u128_total_witness:
  "\<exists>u. str2u128 (asc ''120'' @ [0]) = Some u \<and> u128_wf u \<and> u128_abs u = 120"
  using str2u128_total [of "asc ''120'' @ [0]"] by (simp add: cstr_def is_digit_def dec_val_def)

lemma u1282str_eq:
  assumes "list_all is_digit s" "length s < UINT128_RAW_MAX_LEN" "2 \<le> mx" "mx \<le> length str"
  shows "u1282str \<lparr>raw = raw_of s\<rparr> str mx =
    Some (if mx < length s + 1 then None else Some (s @ 0 # drop (length s + 1) str))"
proof (cases "mx < length s + 1")
  case False
  then have "wr (s @ drop (length s) str) (length s) 0 = Some ((s @ [0]) @ tl (drop (length s) str))"
    using assms by (intro wr_append) auto
  then show ?thesis using assms False by (simp add: u1282str_def drop_Suc tl_drop del: wr_in)
qed (use assms in \<open>simp add: u1282str_def\<close>)

section \<open>The native branch computes the same numbers\<close>

lemma str2u128_loop_int_run:
  assumes "list_all is_digit s"
  shows "str2u128_loop_int (s @ 0 # rest) (of_nat n) = Some (of_nat (n * 10 ^ length s + dec_val s))"
  using assms
proof (induction s arbitrary: n)
  case (Cons c s)
  then have dig: "48 \<le> unat c" "c \<noteq> 0" by (auto simp: is_digit_unat)
  have c: "ucast c - 48 = (of_nat (unat c - 48) :: u128i)"
    using dig by (simp add: of_nat_diff)
  obtain m where m: "m = 10 * n + (unat c - 48)" by blast
  have "of_nat n * 10 + (ucast c - 48) = (of_nat m :: u128i)"
    unfolding c m by (simp del: of_nat_diff)
  moreover have "m * 10 ^ length s + dec_val s = n * 10 ^ length (c # s) + dec_val (c # s)"
    by (simp add: m dec_val_Cons algebra_simps)
  ultimately show ?case using Cons.IH [of m] Cons.prems dig by (simp del: of_nat_add of_nat_mult)
qed simp

lemma str2u128_int_eq:
  "list_all is_digit s \<Longrightarrow> str2u128_int (s @ 0 # rest) = Some (of_nat (dec_val s))"
  using str2u128_loop_int_run [of s rest 0] by (simp add: str2u128_int_def)

lemma u1282str_reverse_run:
  assumes "length p = a" "b = a + length m"
  shows "u1282str_reverse a b (p @ m @ r) = Some (p @ rev m @ r)"
  using assms
proof (induction "length m" arbitrary: m p r a b rule: less_induct)
  case less
  show ?case
  proof (cases "length m \<le> 1")
    case True
    then have "rev m = m" by (cases m) auto
    then show ?thesis using less.prems True by (subst u1282str_reverse.simps) (auto simp: Let_def)
  next
    case False
    then obtain x m1 where m1: "m = x # m1" "m1 \<noteq> []" by (cases m) auto
    then obtain m' y where m: "m = x # m' @ [y]" by (cases m1 rule: rev_cases) auto
    let ?k = "a + 1 + length m'"
    have rd: "rd (p @ m @ r) a = Some x" "rd (p @ m @ r) ?k = Some y"
      using less.prems m by (auto simp: rd_def nth_append)
    have wr1: "wr (p @ m @ r) a y = Some (p @ y # m' @ y # r)"
      using less.prems m by (simp add: wr_def list_update_append)
    have wr2: "wr (p @ y # m' @ y # r) ?k x = Some (p @ y # m' @ x # r)"
      using less.prems m by (simp add: wr_def list_update_append)
    have "u1282str_reverse a b (p @ m @ r) = u1282str_reverse (Suc a) ?k ((p @ [y]) @ m' @ (x # r))"
      using less.prems m rd wr1 wr2 by (subst u1282str_reverse.simps) (simp add: Let_def)
    also have "\<dots> = Some ((p @ [y]) @ rev m' @ (x # r))"
      using less.prems m by (intro less.hyps) auto
    finally show ?thesis using m by simp
  qed
qed

definition no_lead :: "bytes \<Rightarrow> bool" where
  "no_lead s \<longleftrightarrow> list_all is_digit s \<and> (s = [] \<or> hd s \<noteq> ch CHR ''0'')"

lemma no_lead_snoc: "no_lead (t @ [c]) \<Longrightarrow> no_lead t"
  by (cases t) (auto simp: no_lead_def)

lemma no_lead_pos: "\<lbrakk>no_lead s; s \<noteq> []\<rbrakk> \<Longrightarrow> 0 < dec_val s"
proof -
  assume "no_lead s" "s \<noteq> []"
  then have "10 ^ (length s - 1) \<le> dec_val s" by (intro dec_val_pos) (auto simp: no_lead_def canonical_def)
  then show ?thesis by (meson less_le_trans zero_less_numeral zero_less_power)
qed

lemma digit_step:
  assumes "is_digit c" "n < 2 ^ 128" "n = 10 * m + (unat c - 48)"
  shows "(of_nat n :: u128i) mod 10 = of_nat (unat c - 48)" "(of_nat n :: u128i) div 10 = of_nat m"
    "ucast ((of_nat n :: u128i) mod 10) + ch CHR ''0'' = c"
proof -
  have d: "unat c - 48 \<le> 9" "48 \<le> unat c" using assms by (auto simp: is_digit_unat)
  have n: "unat (of_nat n :: u128i) = n" by (rule unat_of_nat_id) (use assms in simp)
  have m: "unat (of_nat m :: u128i) = m" by (rule unat_of_nat_id) (use assms in simp)
  have dd: "unat (of_nat (unat c - 48) :: u128i) = unat c - 48"
    by (rule unat_of_nat_id) (use d in simp)
  have "(10 * m + k) mod 10 = k \<and> (10 * m + k) div 10 = m" if "k \<le> 9" for k :: nat
    using that by auto
  then have nm: "n mod 10 = unat c - 48" "n div 10 = m" unfolding assms(3) using d by blast+
  show 1: "(of_nat n :: u128i) mod 10 = of_nat (unat c - 48)"
    using nm by (simp only: word_unat_eq_iff unat_mod_distrib n dd) simp
  show "(of_nat n :: u128i) div 10 = of_nat m"
    using nm by (simp only: word_unat_eq_iff unat_div_distrib n m) simp
  have "ucast (of_nat (unat c - 48) :: u128i) = (of_nat (unat c - 48) :: u8)"
    by (metis dd of_nat_unat)
  also have "\<dots> + 48 = c" using d by (simp add: of_nat_diff)
  finally show "ucast ((of_nat n :: u128i) mod 10) + ch CHR ''0'' = c" by (simp add: 1)
qed

lemma u1282str_digits_int_run:
  assumes "no_lead s" "dec_val s < 2 ^ 128" "e < mx" "mx \<le> length str"
  shows "u1282str_digits_int (of_nat (dec_val s)) e str mx = Some
    (if e + length s < mx then Some (take e str @ rev s @ drop (e + length s) str, e + length s) else None)"
  using assms
proof (induction s arbitrary: e str rule: rev_induct)
  case Nil
  then show ?case by (subst u1282str_digits_int.simps) simp
next
  case (snoc c t)
  let ?n = "dec_val (t @ [c])"
  have c: "is_digit c" using snoc.prems by (simp add: no_lead_def)
  have lt: "?n < 2 ^ 128" by (fact snoc.prems(2))
  have t: "no_lead t" "dec_val t < 2 ^ 128" using snoc.prems no_lead_snoc by auto
  have "0 < ?n" using snoc.prems no_lead_pos by blast
  then have nz: "(of_nat ?n :: u128i) \<noteq> 0"
    using lt of_nat_eq_iff_bounded [of ?n 0, where 'a=128] by (simp del: dec_val_snoc)
  note step = digit_step [OF c lt dec_val_snoc]
  show ?case
  proof (cases "e < mx - 1")
    case False
    then show ?thesis using nz snoc.prems by (subst u1282str_digits_int.simps) auto
  next
    case True
    have w: "wr str e c = Some (str[e := c])" using True snoc.prems by simp
    have "u1282str_digits_int (of_nat ?n) e str mx =
        u1282str_digits_int (of_nat (dec_val t)) (Suc e) (str[e := c]) mx"
      using nz True w step by (subst u1282str_digits_int.simps) (simp del: dec_val_snoc)
    also have "\<dots> = Some (if Suc e + length t < mx then Some (take (Suc e) (str[e := c]) @ rev t
        @ drop (Suc e + length t) (str[e := c]), Suc e + length t) else None)"
      using t True snoc.prems by (intro snoc.IH) auto
    finally show ?thesis using True snoc.prems by (simp add: take_Suc_conv_app_nth)
  qed
qed

lemma canonical_cases:
  assumes "canonical s"
  obtains "s = asc ''0''" | "no_lead s" "s \<noteq> []"
  using assms by (cases s) (auto simp: canonical_def no_lead_def)

lemma u1282str_int_eq:
  assumes "canonical s" "dec_val s < 2 ^ 128" "2 \<le> mx" "mx \<le> length str"
  shows "u1282str_int (of_nat (dec_val s)) str mx =
    Some (if mx < length s + 1 then None else Some (s @ 0 # drop (length s + 1) str))"
  using assms(1)
proof (cases rule: canonical_cases)
  case 1
  obtain a b str' where "str = a # b # str'" using assms by (cases str; cases "tl str") auto
  then show ?thesis using assms 1 by (simp add: u1282str_int_def dec_val_def)
next
  case 2
  have "0 < dec_val s" using 2 no_lead_pos by blast
  then have nz: "(of_nat (dec_val s) :: u128i) \<noteq> 0"
    using assms of_nat_eq_iff_bounded [of "dec_val s" 0, where 'a=128] by simp
  have run: "u1282str_digits_int (of_nat (dec_val s)) 0 str mx =
      Some (if length s < mx then Some (rev s @ drop (length s) str, length s) else None)"
    using u1282str_digits_int_run [of s 0 mx str] 2 assms by simp
  have "0 < length (drop (length s) str)" if "length s < mx" using assms that by simp
  then have w: "length s < mx \<Longrightarrow> wr (rev s @ drop (length s) str) (length s) 0 =
      Some (rev s @ 0 # drop (length s + 1) str)"
    by (subst wr_append) (auto simp: drop_Suc tl_drop)
  have r: "u1282str_reverse 0 (length s) ([] @ rev s @ 0 # drop (length s + 1) str) =
      Some ([] @ rev (rev s) @ 0 # drop (length s + 1) str)"
    by (rule u1282str_reverse_run) auto
  show ?thesis using assms nz run w r by (simp add: u1282str_int_def)
qed

text \<open>C19: For every canonical decimal of at most 39 digits and every output buffer, parsing it and
  printing the number gives the same string back, NUL-terminated, with the rest of the buffer
  untouched, or NULL when (and only when) the buffer length given is too small.\<close>

theorem u128_print_parse_roundtrip:
  assumes "canonical s" and "length s \<le> 39" and "2 \<le> mx" and "mx \<le> length buf"
  shows "do { u \<leftarrow> str2u128 (s @ 0 # rest); u1282str u buf mx } =
    Some (if mx \<le> length s then None else Some (s @ 0 # drop (length s + 1) buf))"
proof -
  have "list_all is_digit s" "length s < UINT128_RAW_MAX_LEN"
    using assms by (auto simp: canonical_def UINT128_RAW_MAX_LEN_def)
  then show ?thesis using assms str2u128_eq [of s rest] u1282str_eq [of s mx buf]
    by (auto simp: digit_not_nul)
qed

lemma u128_print_parse_roundtrip_witness:
  "do { u \<leftarrow> str2u128 (asc ''1050'' @ [0]); u1282str u [7,7,7,7,7,7] 5 } = Some (Some (asc ''1050'' @ [0, 7]))"
  using u128_print_parse_roundtrip [of "asc ''1050''" 5 "[7,7,7,7,7,7]" "[]"]
  by (simp add: canonical_def is_digit_def)



end
