(* ===== verification/Endian.thy ===== *)
theory Endian
  imports Prelude
begin

text \<open>
  \<^verbatim>\<open>antenna_sdk/src/endian_conv.c\<close>: the byte order test and the three byte
  swaps.  The byte order of the host is a parameter \<^verbatim>\<open>be\<close> of every definition
  that reads or writes a multi-byte object through a byte pointer
  (\<^verbatim>\<open>mem_load\<close>, \<^verbatim>\<open>mem_store\<close>); the theorems hold for both orders.
\<close>

section \<open>Words as bytes\<close>

definition be_word :: "bytes \<Rightarrow> 'a::len word" where
  "be_word bs = foldl (\<lambda>w b. push_bit 8 w OR ucast b) 0 bs"

definition be_bytes :: "nat \<Rightarrow> 'a::len word \<Rightarrow> bytes" where
  "be_bytes n w = map (\<lambda>i. ucast (drop_bit (8 * i) w)) (rev [0..<n])"

definition mem_load :: "bool \<Rightarrow> bytes \<Rightarrow> 'a::len word" where
  "mem_load be bs = be_word (if be then bs else rev bs)"

definition mem_store :: "bool \<Rightarrow> nat \<Rightarrow> 'a::len word \<Rightarrow> bytes" where
  "mem_store be n w = (if be then be_bytes n w else rev (be_bytes n w))"

lemma length_be_bytes [simp]: "length (be_bytes n w) = n"
  by (simp add: be_bytes_def)

lemma length_mem_store [simp]: "length (mem_store be n w) = n"
  by (simp add: mem_store_def)

lemma bit_be_word:
  "bit (be_word bs :: 'a::len word) n \<longleftrightarrow>
   n < LENGTH('a) \<and> n < 8 * length bs \<and> bit (rev bs ! (n div 8)) (n mod 8)"
proof (induction bs arbitrary: n rule: rev_induct)
  case (snoc b bs)
  have w: "be_word (bs @ [b]) = (push_bit 8 (be_word bs) OR ucast b :: 'a word)"
    by (simp add: be_word_def)
  show ?case
  proof (cases "n < 8")
    case True
    then show ?thesis by (auto simp: w bit_simps)
  next
    case False
    then have "n div 8 = Suc ((n - 8) div 8)" "(n - 8) mod 8 = n mod 8"
      by (simp_all add: div_if mod_if)
    moreover have "\<not> bit b n" using False bit_imp_le_length [of b n] by auto
    ultimately show ?thesis using False snoc.IH [of "n - 8"] by (auto simp: w bit_simps)
  qed
qed (simp add: be_word_def)

lemma nth_rev_be_bytes: "i < n \<Longrightarrow> rev (be_bytes n w) ! i = ucast (drop_bit (8 * i) w)"
  by (simp add: be_bytes_def rev_map [symmetric])

lemma be_word_be_bytes:
  assumes "LENGTH('a) \<le> 8 * n"
  shows "be_word (be_bytes n w) = (w :: 'a::len word)"
proof (rule bit_word_eqI)
  fix k assume k: "k < LENGTH('a)"
  then have "k div 8 < n" using assms by (simp add: less_mult_imp_div_less mult.commute)
  then show "bit (be_word (be_bytes n w) :: 'a word) k = bit w k"
    using k assms by (simp add: bit_be_word nth_rev_be_bytes bit_simps)
qed

lemma be_bytes_be_word:
  assumes "8 * length bs \<le> LENGTH('a)"
  shows "be_bytes (length bs) (be_word bs :: 'a::len word) = bs"
proof -
  have "rev (be_bytes (length bs) (be_word bs :: 'a word)) = rev bs"
  proof (rule nth_equalityI)
    fix i assume "i < length (rev (be_bytes (length bs) (be_word bs :: 'a word)))"
    then have i: "i < length bs" by simp
    show "rev (be_bytes (length bs) (be_word bs :: 'a word)) ! i = rev bs ! i"
    proof (rule bit_word_eqI)
      fix k assume k: "k < LENGTH(8)"
      then have "8 * i + k < 8 * length bs" using i by simp
      moreover have "(8 * i + k) div 8 = i" "(8 * i + k) mod 8 = k" using k by auto
      ultimately show "bit (rev (be_bytes (length bs) (be_word bs :: 'a word)) ! i) k = bit (rev bs ! i) k"
        using i k assms by (simp add: nth_rev_be_bytes bit_simps bit_be_word)
    qed
  qed simp
  then show ?thesis by simp
qed

lemma mem_load_store:
  "LENGTH('a) \<le> 8 * n \<Longrightarrow> mem_load be (mem_store be n w) = (w :: 'a::len word)"
  by (simp add: mem_load_def mem_store_def be_word_be_bytes)

section \<open>endian\_conv.c\<close>

definition endian_is_bigendian :: "bool \<Rightarrow> bool" where
  "endian_is_bigendian be =
     (let c = mem_store be 2 (0x1234 :: u16) in c ! 0 = 0x12 \<and> c ! 1 = 0x34)"

definition endian_swap16 :: "u16 \<Rightarrow> u16" where
  "endian_swap16 v = drop_bit 8 v OR push_bit 8 v"

definition endian_swap32 :: "u32 \<Rightarrow> u32" where
  "endian_swap32 v =
    (let temp = (push_bit 8 v AND 0xFF00FF00) OR (drop_bit 8 v AND 0xFF00FF)
     in push_bit 16 temp OR drop_bit 16 temp)"

definition endian_swap64 :: "u64 \<Rightarrow> u64" where
  "endian_swap64 v =
    (let v1 = push_bit 32 (v AND 0x00000000FFFFFFFF) OR drop_bit 32 (v AND 0xFFFFFFFF00000000);
         v2 = push_bit 16 (v1 AND 0x0000FFFF0000FFFF) OR drop_bit 16 (v1 AND 0xFFFF0000FFFF0000)
     in push_bit 8 (v2 AND 0x00FF00FF00FF00FF) OR drop_bit 8 (v2 AND 0xFF00FF00FF00FF00))"

text \<open>The macros \<^verbatim>\<open>ENDIAN_H2LE16\<close>, \<^verbatim>\<open>ENDIAN_H2LE32\<close>, \<^verbatim>\<open>ENDIAN_H2LE64\<close>.\<close>

definition ENDIAN_H2LE16 :: "bool \<Rightarrow> u16 \<Rightarrow> u16" where
  "ENDIAN_H2LE16 be x = (if endian_is_bigendian be then endian_swap16 x else x)"

definition ENDIAN_H2LE32 :: "bool \<Rightarrow> u32 \<Rightarrow> u32" where
  "ENDIAN_H2LE32 be x = (if endian_is_bigendian be then endian_swap32 x else x)"

definition ENDIAN_H2LE64 :: "bool \<Rightarrow> u64 \<Rightarrow> u64" where
  "ENDIAN_H2LE64 be x = (if endian_is_bigendian be then endian_swap64 x else x)"

lemma endian_is_bigendian_eq [simp]: "endian_is_bigendian be = be"
  by (cases be) (simp_all add: endian_is_bigendian_def Let_def mem_store_def be_bytes_def upt_rec)

lemma all_below: "\<lbrakk>n < k; \<And>m. m \<in> set [0..<k] \<Longrightarrow> P m\<rbrakk> \<Longrightarrow> P (n::nat)"
  by simp

lemma bit_swap64: "n < 64 \<Longrightarrow> bit (endian_swap64 v) n = bit v (8 * (7 - n div 8) + n mod 8)"
  by (erule all_below, simp add: upt_rec, elim disjE)
    (simp_all add: endian_swap64_def Let_def bit_simps flip: numeral_2_eq_2)

lemma bit_swap32: "n < 32 \<Longrightarrow> bit (endian_swap32 v) n = bit v (8 * (3 - n div 8) + n mod 8)"
  by (erule all_below, simp add: upt_rec, elim disjE)
    (simp_all add: endian_swap32_def Let_def bit_simps flip: numeral_2_eq_2)

lemma bit_swap16: "n < 16 \<Longrightarrow> bit (endian_swap16 v) n = bit v (8 * (1 - n div 8) + n mod 8)"
  by (erule all_below, simp add: upt_rec, elim disjE)
    (simp_all add: endian_swap16_def impossible_bit Let_def bit_simps flip: numeral_2_eq_2)

lemma swap_from_bits:
  fixes v :: "'a::len word" and swap :: "'a word \<Rightarrow> 'a word"
  assumes bits: "\<And>n. n < LENGTH('a) \<Longrightarrow> bit (swap v) n = bit v (8 * (k - 1 - n div 8) + n mod 8)"
    and k: "LENGTH('a) = 8 * k"
  shows "swap v = be_word (rev (be_bytes k v))"
proof (rule bit_word_eqI)
  fix n assume n: "n < LENGTH('a)"
  then have q: "n div 8 < k" using k by (simp add: less_mult_imp_div_less mult.commute)
  then have "k - 1 - n div 8 < k" by simp
  moreover have "rev (rev (be_bytes k v)) ! (n div 8) = rev (be_bytes k v) ! (k - 1 - n div 8)"
    using q by (simp add: rev_nth)
  ultimately show "bit (swap v) n = bit (be_word (rev (be_bytes k v)) :: 'a word) n"
    using n k q by (simp add: bits bit_be_word nth_rev_be_bytes bit_simps)
qed

lemma endian_swap64_bytes: "endian_swap64 v = be_word (rev (be_bytes 8 v))"
  by (rule swap_from_bits) (simp_all add: bit_swap64)

lemma endian_swap32_bytes: "endian_swap32 v = be_word (rev (be_bytes 4 v))"
  by (rule swap_from_bits) (simp_all add: bit_swap32)

lemma endian_swap16_bytes: "endian_swap16 v = be_word (rev (be_bytes 2 v))"
  by (rule swap_from_bits) (simp_all add: bit_swap16)

text \<open>Loading and then swapping on a little-endian host is a load of the network order.\<close>

lemma load_swap:
  "length bs = 8 \<Longrightarrow> (if be then mem_load be bs else endian_swap64 (mem_load be bs)) = be_word bs"
  "length bs = 4 \<Longrightarrow> (if be then mem_load be bs else endian_swap32 (mem_load be bs)) = be_word bs"
  "length bs = 2 \<Longrightarrow> (if be then mem_load be bs else endian_swap16 (mem_load be bs)) = be_word bs"
  using be_bytes_be_word [of "rev bs", where 'a=64] be_bytes_be_word [of "rev bs", where 'a=32]
    be_bytes_be_word [of "rev bs", where 'a=16]
  by (simp_all add: mem_load_def endian_swap64_bytes endian_swap32_bytes endian_swap16_bytes)

lemma be_bytes_swap: "be_bytes 8 (endian_swap64 v) = rev (be_bytes 8 v)"
  "be_bytes 4 (endian_swap32 w) = rev (be_bytes 4 w)"
  "be_bytes 2 (endian_swap16 x) = rev (be_bytes 2 x)"
  using be_bytes_be_word [of "rev (be_bytes 8 v)", where 'a=64]
    be_bytes_be_word [of "rev (be_bytes 4 w)", where 'a=32]
    be_bytes_be_word [of "rev (be_bytes 2 x)", where 'a=16]
  by (simp_all add: endian_swap64_bytes endian_swap32_bytes endian_swap16_bytes)

text \<open>On either host the swaps reverse the bytes of the object in memory and are their own
  inverses, and the host-to-little-endian macros leave the little-endian bytes in memory whatever
  the host's byte order.\<close>

theorem endian_macros_host_independent:
  "mem_store be 2 (endian_swap16 x) = rev (mem_store be 2 x) \<and> endian_swap16 (endian_swap16 x) = x \<and>
   mem_store be 4 (endian_swap32 y) = rev (mem_store be 4 y) \<and> endian_swap32 (endian_swap32 y) = y \<and>
   mem_store be 8 (endian_swap64 z) = rev (mem_store be 8 z) \<and> endian_swap64 (endian_swap64 z) = z \<and>
   mem_store be 2 (ENDIAN_H2LE16 be x) = rev (be_bytes 2 x) \<and>
   mem_store be 4 (ENDIAN_H2LE32 be y) = rev (be_bytes 4 y) \<and>
   mem_store be 8 (ENDIAN_H2LE64 be z) = rev (be_bytes 8 z)"
  by (simp add: mem_store_def be_bytes_swap ENDIAN_H2LE16_def ENDIAN_H2LE32_def ENDIAN_H2LE64_def
      endian_swap16_bytes [of "endian_swap16 x"] endian_swap32_bytes [of "endian_swap32 y"]
      endian_swap64_bytes [of "endian_swap64 z"] be_word_be_bytes)

end
