(* ===== verification/AbiRead.thy ===== *)
theory AbiRead
  imports Endian
begin

text \<open>
  \<^verbatim>\<open>antenna_sdk/src/abi_read_contract.c\<close>: the four readers of the bytes a contract call
  returns (an ABI-encoded order: start height, duration, storage endpoint, access token).  The
  caller passes a buffer and its size; \<^verbatim>\<open>be\<close> is the host's byte order, \<^verbatim>\<open>malloc\<close> the
  allocator.  The buffer may hold anything: it is what the server sent.
\<close>

definition abi_get_order_start :: "bool \<Rightarrow> bytes \<Rightarrow> nat \<Rightarrow> u64 option" where
  "abi_get_order_start be input sz =
    (if sz < 32 then Some 0
     else do {
       bs \<leftarrow> rd_bytes input 24 8;
       let start = mem_load be bs;
       Some (if \<not> endian_is_bigendian be then endian_swap64 start else start)
     })"

definition abi_get_order_duration :: "bool \<Rightarrow> bytes \<Rightarrow> nat \<Rightarrow> u32 option" where
  "abi_get_order_duration be input sz =
    (if sz < 64 then Some 0
     else do {
       bs \<leftarrow> rd_bytes input 60 4;
       let duration = mem_load be bs;
       Some (if \<not> endian_is_bigendian be then endian_swap32 duration else duration)
     })"

text \<open>A 16-bit load through the cast pointer, swapped on a little-endian host.\<close>

definition load_be16 :: "bool \<Rightarrow> bytes \<Rightarrow> u16" where
  "load_be16 be bs = (let v = mem_load be bs in
     if \<not> endian_is_bigendian be then endian_swap16 v else v)"

text \<open>
  The outer option is memory safety, the inner one the NULL result.  \<^verbatim>\<open>offset\<close> and
  \<^verbatim>\<open>length\<close> are \<^verbatim>\<open>uint16_t\<close>: the sums with them are computed in \<^verbatim>\<open>int\<close> and cannot
  wrap.
\<close>

definition abi_get_order_endpoint ::
  "bool \<Rightarrow> (nat \<Rightarrow> bytes option) \<Rightarrow> bytes \<Rightarrow> nat \<Rightarrow> bytes option option" where
  "abi_get_order_endpoint be malloc input sz =
    (if sz < 96 then Some None
     else do {
       ob \<leftarrow> rd_bytes input 94 2;
       let offset = unat (load_be16 be ob);
       if sz < offset + 32 then Some None
       else do {
         lb \<leftarrow> rd_bytes input (offset + 30) 2;
         let len = unat (load_be16 be lb);
         if sz < offset + 32 + len then Some None
         else (case malloc (len + 1) of
           None \<Rightarrow> Some None
         | Some endpoint \<Rightarrow> do {
             src \<leftarrow> rd_bytes input (offset + 32) len;
             e1 \<leftarrow> wr_bytes endpoint 0 src;
             e2 \<leftarrow> wr e1 len 0;
             Some (Some e2)
           })
       }
     })"

definition abi_get_order_token ::
  "bool \<Rightarrow> (nat \<Rightarrow> bytes option) \<Rightarrow> bytes \<Rightarrow> nat \<Rightarrow> bytes option option" where
  "abi_get_order_token be malloc input sz =
    (if sz < 128 then Some None
     else do {
       ob \<leftarrow> rd_bytes input 126 2;
       let offset = unat (load_be16 be ob);
       if sz < offset + 32 then Some None
       else do {
         lb \<leftarrow> rd_bytes input (offset + 30) 2;
         let len = unat (load_be16 be lb);
         if sz < offset + 32 + len then Some None
         else (case malloc (len + 1) of
           None \<Rightarrow> Some None
         | Some token \<Rightarrow> do {
             src \<leftarrow> rd_bytes input (offset + 32) len;
             t1 \<leftarrow> wr_bytes token 0 src;
             t2 \<leftarrow> wr t1 len 0;
             Some (Some t2)
           })
       }
     })"

section \<open>What the readers compute\<close>

text \<open>
  The reference: the last bytes of a 32-byte slot in network order, and a dynamic string found
  through its offset slot and bounded by the buffer.
\<close>

definition slot16 :: "bytes \<Rightarrow> nat \<Rightarrow> nat" where
  "slot16 input p = unat (be_word (take 2 (drop (p + 30) input)) :: u16)"

definition abi_string :: "(nat \<Rightarrow> bytes option) \<Rightarrow> bytes \<Rightarrow> nat \<Rightarrow> nat \<Rightarrow> bytes option" where
  "abi_string malloc input sz p =
    (let off = slot16 input p; len = slot16 input off in
     if sz < p + 32 \<or> sz < off + 32 \<or> sz < off + 32 + len \<or> malloc (len + 1) = None then None
     else Some (take len (drop (off + 32) input) @ [0]))"

lemma load_be16_eq: "length bs = 2 \<Longrightarrow> load_be16 be bs = be_word bs"
  using load_swap(3) [of bs be] by (cases be) (auto simp: load_be16_def)

lemma fill_block:
  assumes "malloc_ok malloc" "malloc (length s + 1) = Some b"
  shows "do { e1 \<leftarrow> wr_bytes b 0 s; e2 \<leftarrow> wr e1 (length s) 0; Some (Some e2) } = Some (Some (s @ [0]))"
proof -
  have "length b = length s + 1" using assms by (rule malloc_okD)
  then have "length (drop (length s) b) = Suc 0" by simp
  then obtain c where "drop (length s) b = [c]" by (metis length_Suc_conv length_0_conv)
  moreover have "wr (s @ drop (length s) b) (length s) 0 = Some ((s @ [0]) @ tl (drop (length s) b))"
    using \<open>length b = length s + 1\<close> by (intro wr_append) auto
  ultimately show ?thesis using \<open>length b = length s + 1\<close> by simp
qed

lemma abi_get_order_string_eq:
  assumes "malloc_ok malloc" "sz \<le> length input"
  shows "abi_get_order_endpoint be malloc input sz = Some (abi_string malloc input sz 64)"
    and "abi_get_order_token be malloc input sz = Some (abi_string malloc input sz 96)"
proof -
  let ?copy = "\<lambda>off n. case malloc (n + 1) of None \<Rightarrow> Some None
    | Some b \<Rightarrow> do { src \<leftarrow> rd_bytes input (off + 32) n; e1 \<leftarrow> wr_bytes b 0 src; e2 \<leftarrow> wr e1 n 0; Some (Some e2) }"
  let ?body = "\<lambda>p. do {
     ob \<leftarrow> rd_bytes input (p + 30) 2;
     let off = unat (load_be16 be ob);
     if sz < off + 32 then Some None
     else do {
       lb \<leftarrow> rd_bytes input (off + 30) 2;
       let n = unat (load_be16 be lb);
       if sz < off + 32 + n then Some None else ?copy off n
     } }"
  have slot: "rd_bytes input (p + 30) 2 = Some (take 2 (drop (p + 30) input))"
    "unat (load_be16 be (take 2 (drop (p + 30) input))) = slot16 input p" if "p + 32 \<le> sz" for p
    using that assms by (simp_all add: load_be16_eq slot16_def)
  have copy: "?copy off n = Some (if malloc (n + 1) = None then None
      else Some (take n (drop (off + 32) input) @ [0]))" if "off + 32 + n \<le> sz" for off n
  proof (cases "malloc (n + 1)")
    case (Some b)
    have "length (take n (drop (off + 32) input)) = n" using that assms by simp
    then show ?thesis using fill_block [OF assms(1), of "take n (drop (off + 32) input)" b] that assms Some
      by (simp del: wr_in wr_bytes_in)
  qed simp
  have "?body p = Some (abi_string malloc input sz p)" if p: "p + 32 \<le> sz" for p
  proof -
    let ?off = "slot16 input p" let ?n = "slot16 input ?off"
    consider "sz < ?off + 32" | "?off + 32 \<le> sz" "sz < ?off + 32 + ?n" | "?off + 32 + ?n \<le> sz" by linarith
    then show ?thesis
    proof cases
      case 3
      then have "?off + 32 \<le> sz" by simp
      then show ?thesis
        by (simp only: slot [OF p] slot [OF \<open>?off + 32 \<le> sz\<close>] copy [OF 3] bind.bind_lunit Let_def)
          (use 3 p in \<open>simp add: abi_string_def Let_def\<close>)
    qed (use p slot in \<open>simp_all add: abi_string_def Let_def\<close>)
  qed
  from this [of 64] this [of 96]
  show "abi_get_order_endpoint be malloc input sz = Some (abi_string malloc input sz 64)"
    "abi_get_order_token be malloc input sz = Some (abi_string malloc input sz 96)"
    by (auto simp: abi_get_order_endpoint_def abi_get_order_token_def abi_string_def Let_def)
qed

lemma abi_get_order_start_eq:
  "sz \<le> length input \<Longrightarrow> abi_get_order_start be input sz =
     Some (if sz < 32 then 0 else be_word (take 8 (drop 24 input)))"
  using load_swap(1) [of "take 8 (drop 24 input)" be]
  by (cases be) (auto simp: abi_get_order_start_def Let_def)

lemma abi_get_order_duration_eq:
  "sz \<le> length input \<Longrightarrow> abi_get_order_duration be input sz =
     Some (if sz < 64 then 0 else be_word (take 4 (drop 60 input)))"
  using load_swap(2) [of "take 4 (drop 60 input)" be]
  by (cases be) (auto simp: abi_get_order_duration_def Let_def)

text \<open>C24: Whatever bytes the server sent, and on either kind of host, the four readers stay inside
  the buffer they are given and compute the reference reading of it: network-order integers from
  their slots, and bounded, NUL-terminated copies of the two strings (NULL when an offset or a
  length points outside).\<close>

theorem abi_readers_safe_and_exact:
  assumes "malloc_ok malloc" and "sz \<le> length input"
  shows "abi_get_order_start be input sz = Some (if sz < 32 then 0 else be_word (take 8 (drop 24 input))) \<and>
    abi_get_order_duration be input sz = Some (if sz < 64 then 0 else be_word (take 4 (drop 60 input))) \<and>
    abi_get_order_endpoint be malloc input sz = Some (abi_string malloc input sz 64) \<and>
    abi_get_order_token be malloc input sz = Some (abi_string malloc input sz 96)"
  using assms abi_get_order_start_eq abi_get_order_duration_eq abi_get_order_string_eq by simp

lemma abi_readers_safe_and_exact_witness:
  "abi_get_order_endpoint False (\<lambda>n. Some (replicate n 9))
     (replicate 95 0 @ [96] @ replicate 31 0 @ [2] @ [104, 105] @ replicate 30 0) 160 = Some (Some [104, 105, 0])"
proof -
  let ?in = "replicate 95 0 @ [96] @ replicate 31 0 @ [2] @ [104, 105] @ replicate 30 0 :: bytes"
  have "length ?in = 160" by simp
  then have "abi_get_order_endpoint False (\<lambda>n. Some (replicate n 9)) ?in 160 =
      Some (abi_string (\<lambda>n. Some (replicate n 9)) ?in 160 64)"
    using abi_readers_safe_and_exact [of "\<lambda>n. Some (replicate n 9)" 160 ?in False] malloc_ok_fill by simp
  also have "abi_string (\<lambda>n. Some (replicate n 9)) ?in 160 64 = Some [104, 105, 0]" by code_simp
  finally show ?thesis .
qed

section \<open>Against the contract encoding\<close>

text \<open>
  The head/tail layout of a returned tuple \<^verbatim>\<open>(uint256, uint256, bytes, bytes)\<close>: 32-byte
  big-endian slots, dynamic members through an offset from the start, padded to whole slots.
\<close>

definition be_nat :: "nat \<Rightarrow> nat \<Rightarrow> bytes" where
  "be_nat k n = map (\<lambda>i. of_nat (n div 256 ^ i)) (rev [0..<k])"

definition pad32 :: "bytes \<Rightarrow> bytes" where
  "pad32 s = s @ replicate ((32 - length s mod 32) mod 32) 0"

definition abi_encode_order :: "nat \<Rightarrow> nat \<Rightarrow> bytes \<Rightarrow> bytes \<Rightarrow> bytes" where
  "abi_encode_order start duration endpoint token =
    (let tail1 = be_nat 32 (length endpoint) @ pad32 endpoint in
     be_nat 32 start @ be_nat 32 duration @ be_nat 32 128 @ be_nat 32 (128 + length tail1) @
     tail1 @ be_nat 32 (length token) @ pad32 token)"

lemma length_be_nat [simp]: "length (be_nat k n) = k"
  by (simp add: be_nat_def)

lemma be_nat_Suc: "be_nat (Suc k) n = of_nat (n div 256 ^ k) # be_nat k n"
  by (simp add: be_nat_def)

lemma drop_be_nat: "j \<le> k \<Longrightarrow> drop j (be_nat k n) = be_nat (k - j) n"
proof (induction k arbitrary: j)
  case (Suc k)
  then show ?case by (cases j) (simp_all add: be_nat_Suc)
qed (simp add: be_nat_def)

lemma be_nat_be_bytes:
  assumes "8 * k \<le> LENGTH('a)" "n < 2 ^ LENGTH('a)"
  shows "be_nat k n = be_bytes k (of_nat n :: 'a::len word)"
proof -
  have "of_nat (n div 256 ^ i) = (ucast (drop_bit (8 * i) (of_nat n :: 'a word)) :: u8)" for i
  proof -
    have "(2::nat) ^ (8 * i) = 256 ^ i" by (simp add: power_mult)
    then have "unat (drop_bit (8 * i) (of_nat n :: 'a word)) = n div 256 ^ i"
      using unat_of_nat_id [OF assms(2)] unfolding unat_drop_bit_eq by (simp add: drop_bit_eq_div)
    then show ?thesis by (metis of_nat_unat)
  qed
  then show ?thesis by (simp add: be_nat_def be_bytes_def)
qed

lemma be_word_be_nat:
  assumes "8 * k = LENGTH('a)" "n < 2 ^ LENGTH('a)"
  shows "be_word (be_nat k n) = (of_nat n :: 'a::len word)"
  using assms be_nat_be_bytes [of k n, where 'a='a] by (simp add: be_word_be_bytes)

lemma slot16_be_nat:
  assumes "length u = p" "n < 65536"
  shows "slot16 (u @ be_nat 32 n @ v) p = n"
proof -
  have "take 2 (drop (p + 30) (u @ be_nat 32 n @ v)) = be_nat 2 n"
    using assms by (simp add: drop_be_nat)
  moreover have "unat (of_nat n :: u16) = n" by (rule unat_of_nat_id) (use assms in simp)
  ultimately show ?thesis using be_word_be_nat [of 2 n, where 'a=16] assms by (simp add: slot16_def)
qed

lemma length_pad32: "length (pad32 s) = (length s + 31) div 32 * 32"
proof -
  have "n + (32 - n mod 32) mod 32 = (n + 31) div 32 * 32" for n :: nat
  proof -
    define q r where "q = n div 32" and "r = n mod 32"
    then have n: "n = 32 * q + r" "r < 32" by simp_all
    then have "(n + 31) div 32 = q + (r + 31) div 32" by simp
    moreover have "(r + 31) div 32 = (if r = 0 then 0 else 1)" using n(2) by auto
    ultimately show ?thesis using n by (auto simp: r_def [symmetric])
  qed
  then show ?thesis by (simp add: pad32_def)
qed

lemma abi_string_at:
  assumes "input = u @ be_nat 32 off @ v" "length u = p"
    and "input = x @ be_nat 32 (length s) @ s @ y" "length x = off"
    and "off < 65536" "length s < 65536" "malloc (length s + 1) \<noteq> None" "sz = length input"
  shows "abi_string malloc input sz p = Some (s @ [0])"
proof -
  have 1: "slot16 input p = off" unfolding assms(1) by (rule slot16_be_nat) (use assms in auto)
  have 2: "slot16 input off = length s" unfolding assms(3) by (rule slot16_be_nat) (use assms in auto)
  have "p + 32 \<le> sz" using assms(1,2,8) by simp
  moreover have "off + 32 + length s \<le> sz" using assms(3,4,8) by simp
  moreover have "take (length s) (drop (off + 32) input) = s" using assms(3,4) by simp
  ultimately show ?thesis using assms(7) by (simp add: abi_string_def Let_def 1 2)
qed

text \<open>C20: Round trip: reading the bytes in which the contract returns an order gives back its
  start height, its duration and both strings, for heights below \<^verbatim>\<open>2^64\<close>, durations below
  \<^verbatim>\<open>2^32\<close> and strings whose slots lie in the first 64 KiB.\<close>

theorem abi_order_roundtrip:
  assumes "malloc_ok malloc" "\<forall>n. malloc n \<noteq> None"
    and "start < 2 ^ 64" "duration < 2 ^ 32"
    and "length endpoint + 191 < 65536" "length token < 65536"
    and "msg = abi_encode_order start duration endpoint token"
  shows "abi_get_order_start be msg (length msg) = Some (of_nat start) \<and>
    abi_get_order_duration be msg (length msg) = Some (of_nat duration) \<and>
    abi_get_order_endpoint be malloc msg (length msg) = Some (Some (endpoint @ [0])) \<and>
    abi_get_order_token be malloc msg (length msg) = Some (Some (token @ [0]))"
proof -
  let ?t1 = "be_nat 32 (length endpoint) @ pad32 endpoint"
  let ?t2 = "be_nat 32 (length token) @ pad32 token"
  have msg: "msg = be_nat 32 start @ be_nat 32 duration @ be_nat 32 128 @
      be_nat 32 (128 + length ?t1) @ ?t1 @ ?t2"
    by (simp add: assms(7) abi_encode_order_def Let_def)
  have l: "128 \<le> length msg" by (simp add: msg)
  have t1: "128 + length ?t1 < 65536" using assms(5) by (simp add: length_pad32)
  have st: "take 8 (drop 24 msg) = be_nat 8 start" "take 4 (drop 60 msg) = be_nat 4 duration"
    by (simp_all add: msg drop_be_nat)
  have e: "abi_string malloc msg (length msg) 64 = Some (endpoint @ [0])"
    by (rule abi_string_at [where u = "be_nat 32 start @ be_nat 32 duration" and off = 128
          and x = "be_nat 32 start @ be_nat 32 duration @ be_nat 32 128 @ be_nat 32 (128 + length ?t1)"])
      (use assms(2,5) in \<open>auto simp: msg pad32_def\<close>)
  have k: "abi_string malloc msg (length msg) 96 = Some (token @ [0])"
    by (rule abi_string_at [where u = "be_nat 32 start @ be_nat 32 duration @ be_nat 32 128"
          and off = "128 + length ?t1" and x = "be_nat 32 start @ be_nat 32 duration @ be_nat 32 128 @
          be_nat 32 (128 + length ?t1) @ ?t1"])
      (use assms(2,6) t1 in \<open>auto simp: msg pad32_def\<close>)
  show ?thesis
    using abi_get_order_start_eq [of "length msg" msg be] abi_get_order_duration_eq [of "length msg" msg be]
      abi_get_order_string_eq [OF assms(1), of "length msg" msg be] l e k st assms(3,4)
    by (simp add: be_word_be_nat)
qed

lemma abi_order_roundtrip_witness:
  "abi_get_order_endpoint True (\<lambda>n. Some (replicate n 0)) (abi_encode_order 5 7 (asc ''ab'') [])
     (length (abi_encode_order 5 7 (asc ''ab'') [])) = Some (Some [97, 98, 0])"
  using abi_order_roundtrip [of "\<lambda>n. Some (replicate n 0)" 5 7 "asc ''ab''" "[]"] malloc_ok_fill by simp

end
