(* ===== verification/AbiPack.thy ===== *)
theory AbiPack
  imports AbiRead
begin

text \<open>
  \<^verbatim>\<open>antenna_sdk/src/abi_pack.c\<close>: the calldata of the contract call
  \<^verbatim>\<open>publish(bytes)\<close> that every signed upload carries.  The size is a 64-bit number, the
  allocator takes a 32-bit one, and the loop counters are \<^verbatim>\<open>int\<close>: a size of \<^verbatim>\<open>2^31\<close>
  bytes or more would overflow them, which the model counts as undefined behaviour.
\<close>

fun abi_pack_copy :: "nat \<Rightarrow> bytes \<Rightarrow> nat \<Rightarrow> bytes \<Rightarrow> nat \<Rightarrow> (bytes \<times> nat) option" where
  "abi_pack_copy 0 input i data cur = Some (data, cur)"
| "abi_pack_copy (Suc n) input i data cur = do {
     b \<leftarrow> rd input i;
     data' \<leftarrow> wr data cur b;
     abi_pack_copy n input (Suc i) data' (Suc cur)
   }"

fun abi_pack_zero :: "nat \<Rightarrow> bytes \<Rightarrow> nat \<Rightarrow> bytes option" where
  "abi_pack_zero 0 data cur = Some data"
| "abi_pack_zero (Suc n) data cur = do {
     data' \<leftarrow> wr data cur 0;
     abi_pack_zero n data' (Suc cur)
   }"

text \<open>The result is the returned pointer (a block, or \<^term>\<open>None\<close> for NULL) and \<^verbatim>\<open>*out_size\<close>.\<close>

definition abi_pack_publish ::
  "bool \<Rightarrow> (nat \<Rightarrow> bytes option) \<Rightarrow> bytes \<Rightarrow> u64 \<Rightarrow> (bytes option \<times> u64) option" where
  "abi_pack_publish be malloc input sz = (
     let alignSize = push_bit 5 (drop_bit 5 (sz + 31)) in
     case malloc (unat (ucast (4 + 32 + 32 + alignSize) :: u32)) of
       None \<Rightarrow> Some (None, 0)
     | Some data \<Rightarrow> do {
         d0 \<leftarrow> wr_bytes data 0 (replicate 68 0);
         d1 \<leftarrow> wr_bytes d0 0 [0x7f, 0xd2, 0x83, 0x46];
         d2 \<leftarrow> wr d1 (4 + 31) 32;
         let bigSize = (if endian_is_bigendian be then sz else endian_swap64 sz);
         (d3, cur) \<leftarrow> abi_pack_copy 8 (mem_store be 8 bigSize) 0 d2 (4 + 31 + 1 + 24);
         guard (sz < 0x80000000);
         (d4, cur') \<leftarrow> abi_pack_copy (unat sz) input 0 d3 cur;
         d5 \<leftarrow> abi_pack_zero (unat (alignSize - sz)) d4 cur';
         Some (Some d5, 68 + alignSize)
       })"

section \<open>Correctness\<close>

lemma abi_pack_copy_run:
  assumes "length w = cur" "i + n \<le> length input" "n \<le> length r"
  shows "abi_pack_copy n input i (w @ r) cur = Some ((w @ take n (drop i input)) @ drop n r, cur + n)"
  using assms
proof (induction n arbitrary: w cur i r)
  case (Suc n)
  have "wr (w @ r) cur (input ! i) = Some ((w @ [input ! i]) @ tl r)"
    using Suc.prems by (intro wr_append) auto
  moreover have "abi_pack_copy n input (Suc i) ((w @ [input ! i]) @ tl r) (Suc cur) =
      Some (((w @ [input ! i]) @ take n (drop (Suc i) input)) @ drop n (tl r), Suc cur + n)"
    using Suc.prems by (intro Suc.IH) auto
  moreover have "take (Suc n) (drop i input) = input ! i # take n (drop (Suc i) input)"
    using Suc.prems by (simp add: Cons_nth_drop_Suc [symmetric])
  ultimately show ?case using Suc.prems by (simp add: drop_Suc)
qed simp

lemma abi_pack_zero_run:
  assumes "length w = cur" "n \<le> length r"
  shows "abi_pack_zero n (w @ r) cur = Some (w @ replicate n 0 @ drop n r)"
  using assms
proof (induction n arbitrary: w cur r)
  case (Suc n)
  have "wr (w @ r) cur 0 = Some ((w @ [0]) @ tl r)" using Suc.prems by (intro wr_append) auto
  moreover have "abi_pack_zero n ((w @ [0]) @ tl r) (Suc cur) = Some ((w @ [0]) @ replicate n 0 @ drop n (tl r))"
    using Suc.prems by (intro Suc.IH) auto
  ultimately show ?case by (simp add: drop_Suc)
qed simp

lemma bigSize_bytes:
  "mem_store be 8 (if be then sz else endian_swap64 sz) = be_bytes 8 sz"
  by (cases be) (simp_all add: mem_store_def be_bytes_swap)

text \<open>The calldata: the selector of \<^verbatim>\<open>publish(bytes)\<close> and the ABI encoding of its one argument.\<close>

definition publish_calldata :: "bytes \<Rightarrow> bytes" where
  "publish_calldata s = [0x7f, 0xd2, 0x83, 0x46] @ be_nat 32 32 @ be_nat 32 (length s) @ pad32 s"

lemma alignSize_unat:
  assumes "sz < 0x80000000"
  shows "unat (push_bit 5 (drop_bit 5 (sz + 31)) :: u64) = (unat sz + 31) div 32 * 32"
proof -
  have s: "unat sz < 0x80000000" using assms by (simp add: word_less_nat_alt)
  have "unat (sz + 31) = unat sz + 31" using s by (simp add: unat_word_ariths)
  then have "unat (drop_bit 5 (sz + 31)) = (unat sz + 31) div 32"
    unfolding unat_drop_bit_eq by (simp add: drop_bit_eq_div)
  moreover have "(unat sz + 31) div 32 * 32 < 2 ^ 64" using s by simp
  ultimately show ?thesis by (simp add: push_bit_eq_mult unat_word_ariths)
qed

lemma be_nat_high_zero: "n < 256 ^ j \<Longrightarrow> be_nat (k + j) n = replicate k 0 @ be_nat j n"
proof (induction k)
  case (Suc k)
  have "n < 256 ^ (k + j)" using Suc.prems
    by (meson le_add2 less_le_trans one_le_numeral power_increasing)
  then show ?case using Suc by (simp add: be_nat_Suc)
qed simp

lemma be_nat_32_unat: "be_nat 32 (unat sz) = replicate 24 0 @ be_bytes 8 (sz :: u64)"
proof -
  have lt: "unat sz < 2 ^ 64" using unsigned_less [of sz, where ?'a=nat] by simp
  then have "be_nat (24 + 8) (unat sz) = replicate 24 0 @ be_nat 8 (unat sz)"
    by (intro be_nat_high_zero) simp
  moreover have "be_nat 8 (unat sz) = be_bytes 8 (of_nat (unat sz) :: u64)"
    by (rule be_nat_be_bytes) (use lt in simp_all)
  ultimately show ?thesis by simp
qed

text \<open>C25: For every payload of less than 2 GiB that lies in its buffer, on either kind of host and
  whatever the allocated block held, the function stays inside the block and returns the ABI
  encoding of the call: selector, offset slot, length slot and the payload padded with zeros to
  whole slots, with the number of bytes written; when the allocation fails it returns NULL and
  size 0.\<close>

theorem abi_pack_publish_exact:
  assumes "malloc_ok malloc" and "unat sz \<le> length input" and "unat sz < 2 ^ 31"
  shows "abi_pack_publish be malloc input sz = Some (
    let cd = publish_calldata (take (unat sz) input) in
    if malloc (length cd) = None then (None, 0) else (Some cd, of_nat (length cd)))"
proof -
  let ?n = "unat sz" let ?a = "(unat sz + 31) div 32 * 32"
  let ?al = "push_bit 5 (drop_bit 5 (sz + 31)) :: u64"
  let ?cd = "publish_calldata (take ?n input)"
  have lt: "sz < 0x80000000" using assms(3) by (simp add: word_less_nat_alt)
  have al: "unat ?al = ?a" by (rule alignSize_unat [OF lt])
  have a: "?n \<le> ?a" "?a < 2 ^ 31 + 32" using assms(3) by simp_all
  have len: "length ?cd = 68 + ?a" using assms(2) by (simp add: publish_calldata_def length_pad32)
  have "unat (68 + ?al) = 68 + ?a"
    using al a(2) by (simp only: unat_word_ariths) (simp add: al)
  then have ml: "unat (ucast (68 + ?al) :: u32) = 68 + ?a"
    using a(2) by (simp add: unsigned_ucast_eq take_bit_nat_eq_self)
  have pad: "unat (?al - sz) = ?a - ?n" using al a(1) by (simp add: unat_sub word_le_nat_alt)
  show ?thesis
  proof (cases "malloc (68 + ?a)")
    case None
    then show ?thesis using len ml by (simp add: abi_pack_publish_def Let_def add.commute)
  next
    case (Some blk)
    have bl: "length blk = 68 + ?a" using assms(1) Some by (rule malloc_okD)
    define rest where "rest = drop 68 blk"
    have rest: "length rest = ?a" by (simp add: rest_def bl)
    let ?sel = "[0x7f, 0xd2, 0x83, 0x46] :: bytes"
    let ?hd = "?sel @ be_nat 32 32 @ replicate 24 0"
    have d0: "wr_bytes blk 0 (replicate 68 0) = Some (replicate 68 0 @ rest)"
      by (simp add: rest_def bl)
    have d1: "wr_bytes (replicate 68 0 @ rest) 0 ?sel = Some (?sel @ replicate 64 0 @ rest)"
      by (simp add: drop_replicate)
    have be32: "be_nat 32 32 = replicate 31 0 @ [32]"
      using be_nat_high_zero [of 32 1 31] by (simp add: be_nat_def)
    have d2: "wr (?sel @ replicate 64 0 @ rest) 35 32 = Some (?hd @ replicate 8 0 @ rest)"
    proof -
      have z: "replicate 64 (0::u8) = replicate 31 0 @ replicate 33 0"
        "tl (replicate 33 (0::u8) @ rest) = replicate 24 0 @ replicate 8 0 @ rest"
        by (simp_all flip: replicate_add)
      have "wr ((?sel @ replicate 31 0) @ replicate 33 0 @ rest) 35 32 =
          Some (((?sel @ replicate 31 0) @ [32]) @ tl (replicate 33 0 @ rest))"
        by (intro wr_append) auto
      then show ?thesis by (simp add: be32 z)
    qed
    have d3: "abi_pack_copy 8 (be_bytes 8 sz) 0 (?hd @ replicate 8 0 @ rest) 60 =
        Some ((?hd @ be_bytes 8 sz) @ rest, 68)"
      using abi_pack_copy_run [of ?hd 60 0 8 "be_bytes 8 sz" "replicate 8 0 @ rest"] by simp
    have d4: "abi_pack_copy ?n input 0 ((?hd @ be_bytes 8 sz) @ rest) 68 =
        Some (((?hd @ be_bytes 8 sz) @ take ?n input) @ drop ?n rest, 68 + ?n)"
      using abi_pack_copy_run [of "?hd @ be_bytes 8 sz" 68 0 ?n input rest] assms(2) rest a(1) by simp
    have d5: "abi_pack_zero (?a - ?n) (((?hd @ be_bytes 8 sz) @ take ?n input) @ drop ?n rest) (68 + ?n) =
        Some (((?hd @ be_bytes 8 sz) @ take ?n input) @ replicate (?a - ?n) 0)"
      using abi_pack_zero_run [of "(?hd @ be_bytes 8 sz) @ take ?n input" "68 + ?n" "?a - ?n" "drop ?n rest"]
        assms(2) rest by simp
    have size: "be_nat 32 ?n = replicate 24 0 @ be_bytes 8 sz"
      using be_nat_32_unat by blast
    let ?out = "(?hd @ be_bytes 8 sz) @ take ?n input @ replicate (?a - ?n) 0"
    have cd: "?cd = ?out"
      using assms(2) a(1) length_pad32 [of "take ?n input"]
      by (simp add: publish_calldata_def pad32_def size)
    have run: "abi_pack_publish be malloc input sz = Some (Some ?out, 68 + ?al)"
      using Some ml lt pad d0 d1 d2 d3 d4 d5
      by (simp add: abi_pack_publish_def Let_def bigSize_bytes split del: if_split del: wr_bytes_in wr_in)
    have "of_nat (68 + ?a) = 68 + ?al" by (simp flip: al)
    then show ?thesis using Some by (simp only: Let_def len) (simp add: run cd)
  qed
qed

lemma abi_pack_publish_exact_witness:
  "abi_pack_publish False (\<lambda>n. Some (replicate n 0xCC)) [1, 2, 3] 2 =
   Some (Some (publish_calldata [1, 2]), 100)"
proof -
  have "length (publish_calldata [1, 2]) = 100" by (simp add: publish_calldata_def length_pad32)
  then show ?thesis
    using abi_pack_publish_exact [of "\<lambda>n. Some (replicate n 0xCC)" 2 "[1, 2, 3]" False] malloc_ok_fill
    by (simp add: Let_def)
qed

end
