(* ===== verification/Utils.thy ===== *)
theory Utils
  imports U128
begin

text \<open>
  \<^verbatim>\<open>antenna_sdk/src/utils.c\<close>: the conversion of an amount in rau to iotx, one iotx being
  \<^verbatim>\<open>10^18\<close> rau, on decimal strings.  \<^verbatim>\<open>iotx\<close> is the caller's buffer (\<^term>\<open>None\<close> for
  a NULL pointer), \<^verbatim>\<open>mx\<close> the size the caller states for it.
\<close>

definition transform_factor :: nat where
  "transform_factor = 18"

text \<open>The first loop: digits with the point after \<^verbatim>\<open>decimal_point_pos\<close> of them.\<close>

function rau2iotx_digits :: "bytes \<Rightarrow> nat \<Rightarrow> nat \<Rightarrow> nat \<Rightarrow> nat \<Rightarrow> bytes \<Rightarrow> (nat \<times> bytes) option" where
  "rau2iotx_digits rau rau_len dpp r w iotx =
     (if r < rau_len then do {
        c \<leftarrow> rd rau r;
        iotx1 \<leftarrow> wr iotx w c;
        if Suc r = dpp then do {
          iotx2 \<leftarrow> wr iotx1 (Suc w) (ch CHR ''.'');
          rau2iotx_digits rau rau_len dpp (Suc r) (w + 2) iotx2
        }
        else rau2iotx_digits rau rau_len dpp (Suc r) (Suc w) iotx1
      }
      else Some (w, iotx))"
  by pat_completeness auto
termination
  by (relation "measure (\<lambda>(_, n, _, r, _). n - r)") auto

text \<open>The two do-while loops of the other branch: padding zeros, then the digits.\<close>

function rau2iotx_pad :: "nat \<Rightarrow> nat \<Rightarrow> bytes \<Rightarrow> (nat \<times> bytes) option" where
  "rau2iotx_pad pad_zero w iotx = do {
     iotx' \<leftarrow> wr iotx w (ch CHR ''0'');
     if Suc w < pad_zero + 2 then rau2iotx_pad pad_zero (Suc w) iotx' else Some (Suc w, iotx')
   }"
  by pat_completeness auto
termination
  by (relation "measure (\<lambda>(p, w, _). p + 2 - w)") auto

function rau2iotx_copy :: "bytes \<Rightarrow> nat \<Rightarrow> nat \<Rightarrow> nat \<Rightarrow> bytes \<Rightarrow> (nat \<times> bytes) option" where
  "rau2iotx_copy rau rau_len r w iotx = do {
     c \<leftarrow> rd rau r;
     iotx' \<leftarrow> wr iotx w c;
     if Suc r < rau_len then rau2iotx_copy rau rau_len (Suc r) (Suc w) iotx' else Some (Suc w, iotx')
   }"
  by pat_completeness auto
termination
  by (relation "measure (\<lambda>(_, n, r, _). n - r)") auto

declare rau2iotx_digits.simps [simp del] rau2iotx_pad.simps [simp del] rau2iotx_copy.simps [simp del]

text \<open>\<^verbatim>\<open>while ('0' == iotx[w]) --w;\<close>: below index 0 the unsigned index wraps out of the buffer.\<close>

fun rau2iotx_strip :: "nat \<Rightarrow> bytes \<Rightarrow> nat option" where
  "rau2iotx_strip 0 iotx = do {
     c \<leftarrow> rd iotx 0;
     if c = ch CHR ''0'' then None else Some 0 }"
| "rau2iotx_strip (Suc w) iotx = do {
     c \<leftarrow> rd iotx (Suc w);
     if c = ch CHR ''0'' then rau2iotx_strip w iotx else Some (Suc w) }"

text \<open>
  \<^verbatim>\<open>w_plus_1\<close> is \<^verbatim>\<open>w + 1\<close> after the conditional \<^verbatim>\<open>--w\<close>, whose unsigned wrap at 0
  the addition undoes.
\<close>

definition utils_rau2iotx :: "bytes \<Rightarrow> bytes option \<Rightarrow> nat \<Rightarrow> bytes option option" where
  "utils_rau2iotx rau iotx mx = do {
     rau_len \<leftarrow> strlen rau;
     case iotx of
       None \<Rightarrow> Some None
     | Some buf \<Rightarrow>
         if mx < rau_len + 3 \<or> mx < transform_factor + 3 then Some None
         else do {
           c0 \<leftarrow> rd rau 0;
           if ch CHR ''0'' = c0 then do {
             b1 \<leftarrow> wr buf 0 (ch CHR ''0'');
             b2 \<leftarrow> wr b1 1 0;
             Some (Some b2)
           }
           else do {
             (w, b) \<leftarrow>
               (if transform_factor \<le> rau_len
                then rau2iotx_digits rau rau_len (rau_len - transform_factor) 0 0 buf
                else do {
                  b1 \<leftarrow> wr buf 0 (ch CHR ''0'');
                  b2 \<leftarrow> wr b1 1 (ch CHR ''.'');
                  (w, b3) \<leftarrow> rau2iotx_pad (transform_factor - rau_len) 2 b2;
                  rau2iotx_copy rau rau_len 0 w b3
                });
             w1 \<leftarrow> rau2iotx_strip (w - 1) b;
             c \<leftarrow> rd b w1;
             let w_plus_1 = (if ch CHR ''.'' = c then w1 else w1 + 1);
             b' \<leftarrow> wr b w_plus_1 0;
             Some (Some b')
           }
         }
   }"

section \<open>What the loops write\<close>

fun with_point :: "nat \<Rightarrow> bytes \<Rightarrow> bytes" where
  "with_point k [] = []"
| "with_point k (c # cs) =
     (if k = 1 then c # ch CHR ''.'' # with_point 0 cs else c # with_point (k - 1) cs)"

lemma with_point_0 [simp]: "with_point 0 s = s"
  by (induction s) auto

lemma with_point_eq:
  "\<lbrakk>0 < k; k \<le> length s\<rbrakk> \<Longrightarrow> with_point k s = take k s @ ch CHR ''.'' # drop k s"
proof (induction s arbitrary: k)
  case (Cons c s)
  then show ?case by (cases k; cases "k - 1") auto
qed simp

lemma rau2iotx_digits_run:
  assumes "r \<le> length s" "length (with_point (dpp - r) (drop r s)) \<le> length R"
  shows "rau2iotx_digits (s @ z) (length s) dpp r (length W) (W @ R) =
    Some (length W + length (with_point (dpp - r) (drop r s)),
      W @ with_point (dpp - r) (drop r s) @ drop (length (with_point (dpp - r) (drop r s))) R)"
  using assms
proof (induction "length s - r" arbitrary: r W R)
  case 0
  then show ?case by (subst rau2iotx_digits.simps) simp
next
  case (Suc k)
  then have r: "r < length s" by simp
  let ?c = "s ! r"
  have d: "drop r s = ?c # drop (Suc r) s" using r by (simp add: Cons_nth_drop_Suc)
  have c: "rd (s @ z) r = Some ?c" using r by (simp add: rd_def nth_append)
  obtain x R' where R: "R = x # R'" using Suc.prems d by (cases R) (auto split: if_splits)
  have w1: "wr (W @ R) (length W) ?c = Some ((W @ [?c]) @ R')" by (simp add: R wr_append)
  show ?case
  proof (cases "Suc r = dpp")
    case True
    then have k1: "dpp - r = 1" "dpp - Suc r = 0" by auto
    obtain y R'' where R': "R' = y # R''" using Suc.prems d k1 R by (cases R') auto
    have w2: "wr ((W @ [?c]) @ R') (Suc (length W)) (ch CHR ''.'') = Some ((W @ [?c, ch CHR ''.'']) @ R'')"
      using wr_append [of "Suc (length W)" "W @ [?c]" R' "ch CHR ''.''"] by (simp add: R')
    have "rau2iotx_digits (s @ z) (length s) dpp r (length W) (W @ R) =
        rau2iotx_digits (s @ z) (length s) dpp (Suc r) (length (W @ [?c, ch CHR ''.'']))
          ((W @ [?c, ch CHR ''.'']) @ R'')"
      using r True c w1 w2 by (subst rau2iotx_digits.simps) simp
    then show ?thesis using Suc.hyps(1) [of "Suc r" R'' "W @ [?c, ch CHR ''.'']"] Suc.hyps(2) Suc.prems r d R R' k1
      by simp
  next
    case False
    then have k1: "dpp - r \<noteq> 1" "dpp - r - 1 = dpp - Suc r" by auto
    have "rau2iotx_digits (s @ z) (length s) dpp r (length W) (W @ R) =
        rau2iotx_digits (s @ z) (length s) dpp (Suc r) (length (W @ [?c])) ((W @ [?c]) @ R')"
      using r False c w1 by (subst rau2iotx_digits.simps) simp
    then show ?thesis using Suc.hyps(1) [of "Suc r" R' "W @ [?c]"] Suc.hyps(2) Suc.prems r d R k1
      by simp
  qed
qed

lemma rau2iotx_pad_run:
  assumes "length W + k = p + 2" "0 < k" "k \<le> length R"
  shows "rau2iotx_pad p (length W) (W @ R) = Some (length W + k, W @ replicate k (ch CHR ''0'') @ drop k R)"
  using assms
proof (induction k arbitrary: W R)
  case (Suc k)
  have w: "wr (W @ R) (length W) (ch CHR ''0'') = Some ((W @ [ch CHR ''0'']) @ tl R)"
    using Suc.prems by (intro wr_append) auto
  show ?case
  proof (cases k)
    case 0
    then show ?thesis using Suc.prems w by (subst rau2iotx_pad.simps) (simp add: drop_Suc)
  next
    case (Suc j)
    then show ?thesis using Suc.IH [of "W @ [ch CHR ''0'']" "tl R"] Suc.prems w
      by (subst rau2iotx_pad.simps) (simp add: drop_Suc)
  qed
qed simp

lemma rau2iotx_copy_run:
  assumes "r < length s" "length s - r \<le> length R"
  shows "rau2iotx_copy (s @ z) (length s) r (length W) (W @ R) =
    Some (length W + (length s - r), W @ drop r s @ drop (length s - r) R)"
  using assms
proof (induction "length s - r" arbitrary: r W R)
  case (Suc k)
  have c: "rd (s @ z) r = Some (s ! r)" using Suc.prems by (simp add: rd_def nth_append)
  have d: "drop r s = s ! r # drop (Suc r) s" using Suc.prems by (simp add: Cons_nth_drop_Suc)
  have w: "wr (W @ R) (length W) (s ! r) = Some ((W @ [s ! r]) @ tl R)"
    using Suc.prems by (intro wr_append) auto
  have n: "length s - r = Suc (length s - Suc r)" using Suc.prems by simp
  show ?case
  proof (cases "Suc r < length s")
    case True
    then show ?thesis using Suc.hyps(1) [of "Suc r" "tl R" "W @ [s ! r]"] Suc.hyps(2) Suc.prems c w d n
      by (subst rau2iotx_copy.simps) (simp add: drop_Suc)
  next
    case False
    then show ?thesis using Suc.prems c w d n by (subst rau2iotx_copy.simps) (simp add: drop_Suc)
  qed
qed simp

lemma rau2iotx_strip_run:
  assumes "c \<noteq> ch CHR ''0''"
  shows "rau2iotx_strip (length X + j) (X @ c # replicate j (ch CHR ''0'') @ R) = Some (length X)"
proof (induction j arbitrary: R)
  case 0
  then show ?case using assms by (cases "length X") (simp_all add: nth_append)
next
  case (Suc j)
  have "X @ c # replicate (Suc j) (ch CHR ''0'') @ R = X @ c # replicate j (ch CHR ''0'') @ (ch CHR ''0'' # R)"
    by (simp add: replicate_app_Cons_same)
  moreover have "rd \<dots> (Suc (length X + j)) = Some (ch CHR ''0'')"
    by (simp add: rd_def nth_append)
  ultimately show ?case using Suc.IH [of "ch CHR ''0'' # R"] by simp
qed

definition rstrip :: "bytes \<Rightarrow> bytes" where
  "rstrip s = rev (dropWhile (\<lambda>c. c = ch CHR ''0'') (rev s))"

lemma rstrip_split: "s = rstrip s @ replicate (length s - length (rstrip s)) (ch CHR ''0'')"
proof -
  let ?t = "takeWhile (\<lambda>c. c = ch CHR ''0'') (rev s)"
  have "rev s = ?t @ rev (rstrip s)" by (simp add: rstrip_def)
  moreover have "replicate (length ?t) (ch CHR ''0'') = ?t"
    by (rule replicate_length_same) (use set_takeWhileD in fastforce)
  ultimately have "s = rstrip s @ replicate (length ?t) (ch CHR ''0'')"
    by (metis rev_append rev_replicate rev_rev_ident)
  then show ?thesis by (metis add_diff_cancel_left' length_append length_replicate)
qed

lemma rstrip_last: "rstrip s = [] \<or> last (rstrip s) \<noteq> ch CHR ''0''"
  unfolding rstrip_def by (metis (mono_tags, lifting) hd_dropWhile last_rev rev_is_Nil_conv)

lemma dec_val_zeros: "dec_val (replicate n (ch CHR ''0'')) = 0"
  by (induction n) (simp_all add: dec_val_Cons)

lemma dec_val_zeros_48 [simp]: "dec_val (replicate n 48) = 0"
  using dec_val_zeros by simp

lemma dec_val_rstrip: "dec_val s = dec_val (rstrip s) * 10 ^ (length s - length (rstrip s))"
  using rstrip_split [of s] dec_val_append dec_val_zeros by (metis add_0_right length_replicate)

lemma length_rstrip: "length (rstrip s) \<le> length s"
  using rstrip_split [of s] by (metis length_append le_add1)

lemma rstrip_digits: "list_all is_digit s \<Longrightarrow> list_all is_digit (rstrip s)"
  using rstrip_split [of s] by (metis list_all_append)

text \<open>The shared tail of both branches.\<close>

definition rau2iotx_finish :: "nat \<Rightarrow> bytes \<Rightarrow> bytes option option" where
  "rau2iotx_finish w b = do {
     w1 \<leftarrow> rau2iotx_strip (w - 1) b;
     c \<leftarrow> rd b w1;
     let w_plus_1 = (if ch CHR ''.'' = c then w1 else w1 + 1);
     b' \<leftarrow> wr b w_plus_1 0;
     Some (Some b') }"

lemma rau2iotx_finish_run:
  assumes "c \<noteq> ch CHR ''0''" "0 \<notin> set (X @ [c])" "L = X @ c # replicate j (ch CHR ''0'')" "0 < length R"
  shows "\<exists>b'. rau2iotx_finish (length L) (L @ R) = Some (Some b') \<and> 0 \<in> set b' \<and>
    cstr b' = (if c = ch CHR ''.'' then X else X @ [c])"
proof -
  have st: "rau2iotx_strip (length L - 1) (L @ R) = Some (length X)"
    using rau2iotx_strip_run [OF assms(1), of X j R] by (simp add: assms(3))
  have rd: "rd (L @ R) (length X) = Some c" by (simp add: rd_def assms(3))
  show ?thesis
  proof (cases "c = ch CHR ''.''")
    case True
    have "wr (L @ R) (length X) 0 = Some (X @ 0 # replicate j (ch CHR ''0'') @ R)"
      by (simp add: wr_def assms(3) list_update_append)
    then show ?thesis using st rd True assms(2)
      by (simp add: rau2iotx_finish_def cstr_append)
  next
    case False
    obtain rest where "wr (L @ R) (length X + 1) 0 = Some ((X @ [c]) @ 0 # rest)"
      using wr_append [of "length X + 1" "X @ [c]" "replicate j (ch CHR ''0'') @ R" 0] assms(3,4) by auto
    moreover have "cstr ((X @ [c]) @ 0 # rest) = X @ [c]" by (rule cstr_append) (fact assms(2))
    ultimately show ?thesis using st rd False
      by (simp add: rau2iotx_finish_def)
  qed
qed

lemma rau2iotx_finish_point:
  assumes "list_all is_digit p" "list_all is_digit F" "L = p @ ch CHR ''.'' # F" "0 < length R"
  shows "\<exists>b'. rau2iotx_finish (length L) (L @ R) = Some (Some b') \<and> 0 \<in> set b' \<and>
    cstr b' = p @ (if rstrip F = [] then [] else ch CHR ''.'' # rstrip F)"
proof (cases "rstrip F" rule: rev_cases)
  case Nil
  then have "L = p @ ch CHR ''.'' # replicate (length F) (ch CHR ''0'')"
    using rstrip_split [of F] assms(3) by simp
  then show ?thesis
    using rau2iotx_finish_run [of "ch CHR ''.''" p L "length F" R] assms Nil digit_not_nul by auto
next
  case (snoc f c)
  let ?j = "length F - length (rstrip F)"
  have "L = (p @ ch CHR ''.'' # f) @ c # replicate ?j (ch CHR ''0'')"
    using rstrip_split [of F] assms(3) snoc by simp
  moreover have "c \<noteq> ch CHR ''0''" using rstrip_last [of F] snoc by simp
  moreover have "list_all is_digit (f @ [c])" using rstrip_digits [OF assms(2)] snoc by simp
  then have "c \<noteq> ch CHR ''.''" "0 \<notin> set (p @ ch CHR ''.'' # f @ [c])"
    using digit_not_nul assms(1) by (auto simp: is_digit_def)
  ultimately show ?thesis
    using rau2iotx_finish_run [of c "p @ ch CHR ''.'' # f" L ?j R] assms(4) snoc by auto
qed

lemma utils_rau2iotx_finish:
  assumes "canonical s" "hd s \<noteq> ch CHR ''0''" "length s + 3 \<le> mx" "21 \<le> mx"
  shows "utils_rau2iotx (s @ 0 # z) (Some buf) mx = do {
    (w, b) \<leftarrow> (if 18 \<le> length s
      then rau2iotx_digits (s @ 0 # z) (length s) (length s - 18) 0 0 buf
      else do {
        b1 \<leftarrow> wr buf 0 (ch CHR ''0'');
        b2 \<leftarrow> wr b1 1 (ch CHR ''.'');
        (w, b3) \<leftarrow> rau2iotx_pad (18 - length s) 2 b2;
        rau2iotx_copy (s @ 0 # z) (length s) 0 w b3 });
    rau2iotx_finish w b }"
proof -
  have "0 \<notin> set s" using assms(1) digit_not_nul by (auto simp: canonical_def)
  moreover have "rd (s @ 0 # z) 0 = Some (hd s)"
    using assms(1) by (cases s) (auto simp: canonical_def)
  ultimately show ?thesis
    using assms by (simp add: utils_rau2iotx_def strlen_append transform_factor_def rau2iotx_finish_def
        eq_commute [of "ch CHR ''0''"] cong: if_cong)
qed



text \<open>The boundary case: an amount of exactly 18 digits (0.1 iotx up to one rau below 1 iotx)
  gets no decimal point at all.  The result is the digits of the amount without its trailing zeros,
  as if they were an integer number of iotx.\<close>

theorem utils_rau2iotx_18_digits:
  assumes "canonical s" and "length s = 18" and "21 \<le> mx" and "mx \<le> length buf"
  shows "\<exists>b'. utils_rau2iotx (s @ 0 # z) (Some buf) mx = Some (Some b') \<and> 0 \<in> set b' \<and>
    cstr b' = rstrip s \<and> rstrip s \<noteq> [] \<and> list_all is_digit (cstr b')"
proof -
  have dig: "list_all is_digit s" and ne: "hd s \<noteq> ch CHR ''0''"
    using assms(1,2) by (auto simp: canonical_def)
  have run: "utils_rau2iotx (s @ 0 # z) (Some buf) mx = rau2iotx_finish (length s) (s @ drop 18 buf)"
    using utils_rau2iotx_finish [OF assms(1) ne, of mx z buf] rau2iotx_digits_run [of 0 s 0 buf "0 # z" "[]"]
      assms by simp
  have "rstrip s \<noteq> []"
  proof
    assume "rstrip s = []"
    then have "s = replicate 18 (ch CHR ''0'')" using rstrip_split [of s] assms(2) by simp
    then have "hd s = ch CHR ''0''" by (simp add: numeral_eq_Suc)
    then show False using ne by simp
  qed
  then obtain f c where fc: "rstrip s = f @ [c]" by (cases "rstrip s" rule: rev_cases) auto
  have "list_all is_digit (f @ [c])" using rstrip_digits [OF dig] fc by simp
  then have c: "c \<noteq> ch CHR ''.''" "0 \<notin> set (f @ [c])" using digit_not_nul by (auto simp: is_digit_def)
  have "c \<noteq> ch CHR ''0''" using rstrip_last [of s] fc by simp
  moreover have "s = f @ c # replicate (18 - length (rstrip s)) (ch CHR ''0'')"
    using rstrip_split [of s] assms(2) fc by simp
  ultimately obtain b' where "rau2iotx_finish (length s) (s @ drop 18 buf) = Some (Some b')" "0 \<in> set b'"
    "cstr b' = rstrip s"
    using rau2iotx_finish_run [of c f s "18 - length (rstrip s)" "drop 18 buf"] c fc assms(3,4) by auto
  then show ?thesis using run fc \<open>list_all is_digit (f @ [c])\<close> by simp
qed

lemma utils_rau2iotx_18_digits_witness:
  "\<exists>b'. utils_rau2iotx (asc ''500000000000000000'' @ [0]) (Some (replicate 21 0)) 21 = Some (Some b') \<and>
     cstr b' = asc ''5''"
  using utils_rau2iotx_18_digits [of "asc ''500000000000000000''" 21 "replicate 21 0" "[]"]
  by (auto simp: canonical_def is_digit_def rstrip_def)

end
