(* ===== verification/Signer.thy ===== *)
theory Signer
  imports Prelude
begin

text \<open>
  \<^verbatim>\<open>antenna_sdk/src/signer.c\<close>: hexadecimal conversions and the signing wrappers.  The hash
  and the curve operations come from the vendored crypto library and are parameters.
\<close>

section \<open>Conversions\<close>

text \<open>\<^verbatim>\<open>value\<close>: the value of a hex digit and the flag \<^verbatim>\<open>*ret\<close>.\<close>

definition signer_value :: "u8 \<Rightarrow> u8 \<times> bool" where
  "signer_value c =
    (if ch CHR ''0'' \<le> c \<and> c \<le> ch CHR ''9'' then (c - ch CHR ''0'', True)
     else if ch CHR ''a'' \<le> c \<and> c \<le> ch CHR ''z'' then (c - ch CHR ''a'' + 10, True)
     else if ch CHR ''A'' \<le> c \<and> c \<le> ch CHR ''Z'' then (ch CHR ''A'' + 10, True)
     else (0, False))"

definition hexmap :: bytes where
  "hexmap = asc ''0123456789abcdef''"

fun signer_hex2str_loop :: "bytes \<Rightarrow> nat \<Rightarrow> nat \<Rightarrow> bytes \<Rightarrow> nat \<Rightarrow> (bytes \<times> nat) option" where
  "signer_hex2str_loop hex 0 it str cur = Some (str, cur)"
| "signer_hex2str_loop hex (Suc n) it str cur = do {
     b \<leftarrow> rd hex it;
     h \<leftarrow> rd hexmap (unat (drop_bit 4 b));
     str1 \<leftarrow> wr str cur h;
     l \<leftarrow> rd hexmap (unat (b AND 0xf));
     str2 \<leftarrow> wr str1 (cur + 1) l;
     signer_hex2str_loop hex n (Suc it) str2 (cur + 2)
   }"

text \<open>The result is the returned count (or -1) and the output buffer; sizes are \<^verbatim>\<open>size_t\<close>.\<close>

definition signer_hex2str :: "bytes \<Rightarrow> nat \<Rightarrow> bytes \<Rightarrow> nat \<Rightarrow> (int \<times> bytes) option" where
  "signer_hex2str hex hex_size str str_size =
    (if str_size < (hex_size * 2) mod 2 ^ 32 then Some (-1, str)
     else do {
       (str', cur) \<leftarrow> signer_hex2str_loop hex hex_size 0 str 0;
       Some (int cur, str')
     })"

function signer_str2hex_loop :: "bytes \<Rightarrow> nat \<Rightarrow> nat \<Rightarrow> bytes \<Rightarrow> nat \<Rightarrow> (int \<times> bytes) option" where
  "signer_str2hex_loop str it e hex cur =
    (if it = e then Some (int cur, hex)
     else case rd str it of
       None \<Rightarrow> None
     | Some c \<Rightarrow>
         let (high, valid) = signer_value c in
         if \<not> valid then Some (-1, hex)
         else if it + 1 = e then do {
           hex' \<leftarrow> wr hex cur high;
           Some (int (cur + 1), hex')
         }
         else do {
           d \<leftarrow> rd str (it + 1);
           let (low, valid') = signer_value d;
           if \<not> valid' then Some (-1, hex)
           else (case wr hex cur (push_bit 4 high OR low) of
               None \<Rightarrow> None
             | Some hex' \<Rightarrow> signer_str2hex_loop str (it + 2) e hex' (cur + 1))
         })"
  by pat_completeness auto
termination
  by (relation "measure (\<lambda>(str, it, _). length str - it)")
    (auto simp: buf_simps)

declare signer_str2hex_loop.simps [simp del]

definition hex_start :: "bytes \<Rightarrow> nat \<Rightarrow> nat" where
  "hex_start str n = (if 2 \<le> n \<and> str ! 0 = ch CHR ''0'' \<and> str ! 1 = ch CHR ''x'' then 2 else 0)"

definition signer_str2hex :: "bytes \<Rightarrow> bytes \<Rightarrow> nat \<Rightarrow> (int \<times> bytes) option" where
  "signer_str2hex str hex hex_size = do {
     n \<leftarrow> strlen str;
     if hex_size < (n + 1) div 2 then Some (-1, hex)
     else signer_str2hex_loop str (hex_start str n) n hex 0
   }"

text \<open>
  The same function called with \<^verbatim>\<open>hex == str\<close> (iotex\_emb.c decodes a response in place):
  every read sees the bytes already written.
\<close>

function signer_str2hex_alias_loop :: "nat \<Rightarrow> nat \<Rightarrow> bytes \<Rightarrow> nat \<Rightarrow> (int \<times> bytes) option" where
  "signer_str2hex_alias_loop it e buf cur =
    (if it = e then Some (int cur, buf)
     else case rd buf it of
       None \<Rightarrow> None
     | Some c \<Rightarrow>
         let (high, valid) = signer_value c in
         if \<not> valid then Some (-1, buf)
         else if it + 1 = e then do {
           buf' \<leftarrow> wr buf cur high;
           Some (int (cur + 1), buf')
         }
         else do {
           d \<leftarrow> rd buf (it + 1);
           let (low, valid') = signer_value d;
           if \<not> valid' then Some (-1, buf)
           else (case wr buf cur (push_bit 4 high OR low) of
               None \<Rightarrow> None
             | Some buf' \<Rightarrow> signer_str2hex_alias_loop (it + 2) e buf' (cur + 1))
         })"
  by pat_completeness auto
termination
  by (relation "measure (\<lambda>(it, _, buf, _). length buf - it)")
    (auto simp: buf_simps dest!: wr_Some_length)

declare signer_str2hex_alias_loop.simps [simp del]

definition signer_str2hex_alias :: "bytes \<Rightarrow> nat \<Rightarrow> (int \<times> bytes) option" where
  "signer_str2hex_alias str hex_size = do {
     n \<leftarrow> strlen str;
     if hex_size < (n + 1) div 2 then Some (-1, str)
     else signer_str2hex_alias_loop (hex_start str n) n str 0
   }"

section \<open>Signing\<close>

definition SIG_HASH_SIZE :: nat where
  "SIG_HASH_SIZE = 32"

text \<open>\<^verbatim>\<open>keccak_256\<close> and \<^verbatim>\<open>ecdsa_sign_digest\<close> (its status, signature and recovery byte).\<close>

definition signer_get_hash :: "(bytes \<Rightarrow> bytes) \<Rightarrow> bytes \<Rightarrow> bytes" where
  "signer_get_hash keccak_256 data = keccak_256 data"

definition signer_get_signature ::
  "(bytes \<Rightarrow> bytes) \<Rightarrow> (bytes \<Rightarrow> bytes \<Rightarrow> bytes option) \<Rightarrow> bytes \<Rightarrow> bytes \<Rightarrow> bytes \<Rightarrow> int \<times> bytes" where
  "signer_get_signature keccak_256 ecdsa_sign_digest data private_key signature =
    (let digest = signer_get_hash keccak_256 data in
     case ecdsa_sign_digest private_key digest of
       None \<Rightarrow> (-1, signature)
     | Some sig \<Rightarrow> (0, sig))"

section \<open>Printing and parsing are inverse\<close>

definition hex_digits :: "bytes \<Rightarrow> bytes" where
  "hex_digits bs = concat (map (\<lambda>b. [hexmap ! unat (drop_bit 4 b), hexmap ! unat (b AND 0xf)]) bs)"

lemma hex_digits_simps [simp]:
  "hex_digits [] = []"
  "hex_digits (b # bs) = hexmap ! unat (drop_bit 4 b) # hexmap ! unat (b AND 0xf) # hex_digits bs"
  by (simp_all add: hex_digits_def)

lemma length_hex_digits [simp]: "length (hex_digits bs) = 2 * length bs"
  by (induction bs) auto

lemma nibble_bounds:
  fixes b :: u8
  shows "unat (drop_bit 4 b) < 16" "unat (b AND 0xf) < 16"
proof -
  have "unat b < 256" using unsigned_less [of b, where ?'a=nat] by simp
  then show "unat (drop_bit 4 b) < 16" unfolding unat_drop_bit_eq by (simp add: drop_bit_eq_div)
  have "b AND 0xf \<le> 0xf" by (rule word_and_le1)
  then show "unat (b AND 0xf) < 16" by (simp add: word_le_nat_alt)
qed

lemma nibbles_join: "push_bit 4 (drop_bit 4 b) OR (b AND 0xf) = (b :: u8)"
proof -
  have m: "(0xf :: u8) = mask 4" by (simp add: mask_eq_decr_exp)
  show ?thesis unfolding m by (rule bit_word_eqI) (auto simp: bit_simps)
qed

lemma hexmap_value: "n < 16 \<Longrightarrow> signer_value (hexmap ! n) = (of_nat n, True)"
proof -
  have "\<forall>n\<in>set [0..<16]. signer_value (hexmap ! n) = (of_nat n, True)" by code_simp
  then show "n < 16 \<Longrightarrow> ?thesis" by simp
qed

lemma hexmap_nz: "n < 16 \<Longrightarrow> hexmap ! n \<noteq> 0"
proof -
  have "\<forall>n\<in>set [0..<16]. hexmap ! n \<noteq> 0 \<and> hexmap ! n \<noteq> ch CHR ''x''" by code_simp
  then show "n < 16 \<Longrightarrow> ?thesis" by simp
qed

lemma hexmap_not_x: "n < 16 \<Longrightarrow> hexmap ! n \<noteq> 120"
proof -
  have "\<forall>n\<in>set [0..<16]. hexmap ! n \<noteq> 120" by code_simp
  then show "n < 16 \<Longrightarrow> ?thesis" by simp
qed

lemma hex_digits_nz: "0 \<notin> set (hex_digits bs)"
proof (induction bs)
  case (Cons b bs)
  then show ?case using hexmap_nz [OF nibble_bounds(1), of b] hexmap_nz [OF nibble_bounds(2), of b]
    by (metis hex_digits_simps(2) set_ConsD)
qed simp

lemma signer_hex2str_loop_run:
  assumes "it + n \<le> length hex" "2 * n \<le> length R"
  shows "signer_hex2str_loop hex n it (W @ R) (length W) =
    Some (W @ hex_digits (take n (drop it hex)) @ drop (2 * n) R, length W + 2 * n)"
  using assms
proof (induction n arbitrary: it W R)
  case (Suc n)
  let ?b = "hex ! it"
  let ?h = "hexmap ! unat (drop_bit 4 ?b)" and ?l = "hexmap ! unat (?b AND 0xf)"
  have map: "rd hexmap (unat (drop_bit 4 ?b)) = Some ?h" "rd hexmap (unat (?b AND 0xf)) = Some ?l"
    using nibble_bounds [of ?b] by (simp_all add: rd_def hexmap_def)
  have b: "rd hex it = Some ?b" using Suc.prems by simp
  have t: "take (Suc n) (drop it hex) = ?b # take n (drop (Suc it) hex)"
    using Suc.prems by (simp add: Cons_nth_drop_Suc [symmetric])
  obtain x y R' where R: "R = x # y # R'" using Suc.prems by (cases R; cases "tl R") auto
  have w: "wr (W @ R) (length W) ?h = Some ((W @ [?h]) @ y # R')"
    "wr ((W @ [?h]) @ y # R') (length W + 1) ?l = Some ((W @ [?h, ?l]) @ R')"
    using wr_append [of "length W" W R ?h] wr_append [of "length W + 1" "W @ [?h]" "y # R'" ?l]
    by (simp_all add: R)
  show ?case using Suc.IH [of "Suc it" R' "W @ [?h, ?l]"] Suc.prems b map w t R
    by (simp del: wr_in)
qed simp

lemma signer_hex2str_eq:
  assumes "n \<le> length hex" "2 * n < 2 ^ 32" "2 * n \<le> str_size" "str_size \<le> length str"
  shows "signer_hex2str hex n str str_size =
    Some (int (2 * n), hex_digits (take n hex) @ drop (2 * n) str)"
  using assms signer_hex2str_loop_run [of 0 n hex str "[]"] by (simp add: signer_hex2str_def mult.commute)

lemma signer_str2hex_loop_run:
  assumes "length P = it" "e = it + 2 * length bs" "length bs \<le> length R"
  shows "signer_str2hex_loop (P @ hex_digits bs @ z) it e (W @ R) (length W) =
    Some (int (length W + length bs), W @ bs @ drop (length bs) R)"
  using assms
proof (induction bs arbitrary: P it W R)
  case Nil
  then show ?case by (subst signer_str2hex_loop.simps) simp
next
  case (Cons b bs)
  let ?s = "P @ hex_digits (b # bs) @ z"
  let ?h = "hexmap ! unat (drop_bit 4 b)" and ?l = "hexmap ! unat (b AND 0xf)"
  have rd: "rd ?s it = Some ?h" "rd ?s (it + 1) = Some ?l"
    using Cons.prems by (simp_all add: rd_def nth_append)
  have v: "signer_value ?h = (drop_bit 4 b, True)" "signer_value ?l = (b AND 0xf, True)"
    using hexmap_value [OF nibble_bounds(1), of b] hexmap_value [OF nibble_bounds(2), of b] by simp_all
  have w: "wr (W @ R) (length W) b = Some ((W @ [b]) @ tl R)"
    using Cons.prems by (intro wr_append) auto
  have ne: "it \<noteq> e" "it + 1 \<noteq> e" using Cons.prems by auto
  have "signer_str2hex_loop ?s it e (W @ R) (length W) =
      signer_str2hex_loop ?s (it + 2) e ((W @ [b]) @ tl R) (length (W @ [b]))"
    using rd v w ne by (subst signer_str2hex_loop.simps) (simp add: nibbles_join del: wr_in)
  also have "?s = (P @ [?h, ?l]) @ hex_digits bs @ z" by simp
  also have "signer_str2hex_loop ((P @ [?h, ?l]) @ hex_digits bs @ z) (it + 2) e ((W @ [b]) @ tl R) (length (W @ [b])) =
      Some (int (length (W @ [b]) + length bs), (W @ [b]) @ bs @ drop (length bs) (tl R))"
    using Cons.prems by (intro Cons.IH) auto
  finally show ?case by (simp add: drop_Suc)
qed

text \<open>C27: Round trip: the digits \<^verbatim>\<open>signer_hex2str\<close> writes for any bytes, with or without the
  prefix \<^verbatim>\<open>0x\<close> in front and a NUL behind, are decoded by \<^verbatim>\<open>signer_str2hex\<close> to the same
  bytes, in any output buffer that is large enough for the check.\<close>

theorem signer_hex_roundtrip:
  assumes "length bs < 2 ^ 31" and "2 * length bs \<le> length buf"
    and "pre = [] \<or> pre = asc ''0x''"
    and "(length pre + 2 * length bs + 1) div 2 \<le> length out"
  shows "do {
      (n, str) \<leftarrow> signer_hex2str bs (length bs) buf (length buf);
      signer_str2hex (pre @ take (nat n) str @ 0 # z) out (length out)
    } = Some (int (length bs), bs @ drop (length bs) out)"
proof -
  let ?s = "pre @ hex_digits bs"
  have print: "signer_hex2str bs (length bs) buf (length buf) =
      Some (int (2 * length bs), hex_digits bs @ drop (2 * length bs) buf)"
    using assms by (subst signer_hex2str_eq) auto
  have len: "strlen (?s @ 0 # z) = Some (length ?s)"
    by (rule strlen_append) (use assms(3) hex_digits_nz in auto)
  have no_x: "hex_digits bs = [] \<or> (\<exists>a b r. hex_digits bs = a # b # r \<and> b \<noteq> 120)"
    using hexmap_not_x [OF nibble_bounds(2)] by (cases bs) auto
  have st: "hex_start (?s @ 0 # z) (length ?s) = length pre"
    using assms(3) no_x by (auto simp: hex_start_def)
  have run: "signer_str2hex_loop (?s @ 0 # z) (length pre) (length ?s) out 0 =
      Some (int (length bs), bs @ drop (length bs) out)"
    using signer_str2hex_loop_run [of pre "length pre" "length ?s" bs out "0 # z" "[]"] assms(4) by simp
  show ?thesis using print len st run assms(4) by (simp add: signer_str2hex_def)
qed

lemma signer_hex_roundtrip_witness:
  "do {
      (n, str) \<leftarrow> signer_hex2str [0xde, 0xad] (length [0xde, 0xad :: u8]) [0, 0, 0, 0] (length [0, 0, 0, 0 :: u8]);
      signer_str2hex (asc ''0x'' @ take (nat n) str @ 0 # []) [0, 0, 9] (length [0, 0, 9 :: u8])
    } = Some (int (length [0xde, 0xad :: u8]), [0xde, 0xad] @ drop (length [0xde, 0xad :: u8]) [0, 0, 9])"
  by (rule signer_hex_roundtrip) simp_all

text \<open>C23: Decoding a string in place is the same as decoding it into a fresh copy of the buffer:
  the write index never overtakes the read index.\<close>

theorem signer_str2hex_alias_equiv:
  "signer_str2hex_alias str sz = signer_str2hex str str sz"
proof -
  have "signer_str2hex_alias_loop it e buf cur = signer_str2hex_loop str it e buf cur"
    if "cur \<le> it" "length buf = length str" "\<forall>i. it \<le> i \<longrightarrow> i < length str \<longrightarrow> buf ! i = str ! i"
    for it e buf cur
    using that
  proof (induction it e buf cur rule: signer_str2hex_alias_loop.induct)
    case (1 it e buf cur)
    have rd: "rd buf it = rd str it" "rd buf (it + 1) = rd str (it + 1)"
      using 1(3,4) by (simp_all add: rd_def)
    show ?case
    proof (cases "it = e \<or> rd str it = None")
      case True
      then show ?thesis by (subst signer_str2hex_alias_loop.simps, subst signer_str2hex_loop.simps) (auto simp: rd)
    next
      case False
      then obtain c where c: "rd str it = Some c" "it \<noteq> e" by auto
      obtain high v where v: "signer_value c = (high, v)" by fastforce
      show ?thesis
      proof (cases "v \<and> it + 1 \<noteq> e")
        case False
        then show ?thesis using c v
          by (subst signer_str2hex_alias_loop.simps, subst signer_str2hex_loop.simps) (auto simp: rd)
      next
        case vt: True
        show ?thesis
        proof (cases "rd str (it + 1)")
          case None
          then show ?thesis using c v vt
            by (subst signer_str2hex_alias_loop.simps, subst signer_str2hex_loop.simps) (simp add: rd [simplified])
        next
          case (Some d)
          obtain low v' where v': "signer_value d = (low, v')" by fastforce
          show ?thesis
          proof (cases "v' \<and> cur < length buf")
            case False
            then show ?thesis using c v vt v' Some
              by (subst signer_str2hex_alias_loop.simps, subst signer_str2hex_loop.simps) (auto simp: rd [simplified])
          next
            case True
            let ?b = "buf[cur := push_bit 4 high OR low]"
            have w: "wr buf cur (push_bit 4 high OR low) = Some ?b" using True by simp
            have "signer_str2hex_alias_loop (it + 2) e ?b (cur + 1) = signer_str2hex_loop str (it + 2) e ?b (cur + 1)"
              using 1 c v vt v' Some True w rd by (intro 1(1)) auto
            then show ?thesis using c v vt v' Some w
              by (subst signer_str2hex_alias_loop.simps, subst signer_str2hex_loop.simps)
                (simp add: rd [simplified] del: wr_in)
          qed
        qed
      qed
    qed
  qed
  then have "signer_str2hex_alias_loop (hex_start str n) n str 0 =
      signer_str2hex_loop str (hex_start str n) n str 0" for n by auto
  then show ?thesis by (simp add: signer_str2hex_alias_def signer_str2hex_def cong: if_cong)
qed

text \<open>Upper-case digits are accepted but not decoded: whatever two upper-case letters a byte is
  written with, it decodes to \<^verbatim>\<open>0xFB\<close> with a success status.\<close>

theorem signer_str2hex_upper_case:
  assumes "ch CHR ''A'' \<le> c" "c \<le> ch CHR ''Z''" "ch CHR ''A'' \<le> d" "d \<le> ch CHR ''Z''"
  shows "signer_str2hex [c, d, 0] [x] 1 = Some (1, [0xFB])"
proof -
  have v: "signer_value c = (75, True)" "signer_value d = (75, True)" "c \<noteq> 48" "c \<noteq> 0" "d \<noteq> 0"
    using assms by (auto simp: signer_value_def word_le_nat_alt)
  then show ?thesis
    by (simp add: signer_str2hex_def hex_start_def signer_str2hex_loop.simps)
qed

lemma signer_str2hex_upper_case_witness:
  "signer_str2hex (asc ''DE'' @ [0]) [0] 1 = Some (1, [0xFB])"
  using signer_str2hex_upper_case [of "ch CHR ''D''" "ch CHR ''E''" 0] by simp

end
