(* ===== verification/PbPack.thy ===== *)
theory PbPack
  imports Endian
begin

text \<open>
  \<^verbatim>\<open>antenna_sdk/src/pb_pack.c\<close>: the protocol buffer encoder of the client.  The output
  buffer is the whole memory block with an offset for the pointer into it; \<^verbatim>\<open>size_t\<close> sizes
  are 32-bit words, read signed where the code converts them to \<^verbatim>\<open>int32_t\<close>.
\<close>

section \<open>Items\<close>

definition PB_WT_VARINT :: u8 where "PB_WT_VARINT = 0"
definition PB_WT_64 :: u8 where "PB_WT_64 = 1"
definition PB_WT_LD :: u8 where "PB_WT_LD = 2"
definition PB_WT_32 :: u8 where "PB_WT_32 = 5"
definition PB_WT_EMB :: u8 where "PB_WT_EMB = 0x82"

definition PB_ERR_WTYPE :: int where "PB_ERR_WTYPE = 1"
definition PB_ERR_FIELD :: int where "PB_ERR_FIELD = 2"
definition PB_ERR_ENCBUF :: int where "PB_ERR_ENCBUF = 4"

text \<open>
  \<^verbatim>\<open>pb_st_item\<close>: type, field number, data pointer and length.  The pointer is NULL, or points
  to readable bytes (those up to the end of the object), or to an array of items.
\<close>

datatype pb_st_item = Item (item_type: u8) (item_field: u8) (item_data: pb_data) (item_length: u8)
  and pb_data = Null | Mem bytes | Msg "pb_st_item list"

definition PB_GET_WTYPE :: "u8 \<Rightarrow> u8" where
  "PB_GET_WTYPE x = x AND 7"

definition IS_EMB_MSG :: "u8 \<Rightarrow> bool" where
  "IS_EMB_MSG x \<longleftrightarrow> PB_GET_WTYPE x = PB_WT_LD \<and> x AND 0x80 \<noteq> 0"

definition PB_SET_HEADER :: "u32 \<Rightarrow> u8 \<Rightarrow> u32" where
  "PB_SET_HEADER f t = push_bit 3 (f AND 0x1fffffff) OR (ucast t AND 7)"

section \<open>Scalar encoders\<close>

fun all_zero :: "nat \<Rightarrow> bytes \<Rightarrow> nat \<Rightarrow> bool option" where
  "all_zero 0 d i = Some True"
| "all_zero (Suc n) d i = do { b \<leftarrow> rd d i; if b \<noteq> 0 then Some False else all_zero n d (Suc i) }"

definition pb_varint_is_zero :: "u8 \<Rightarrow> bytes \<Rightarrow> u8 \<Rightarrow> bool option" where
  "pb_varint_is_zero ty d len =
    (if ty \<noteq> PB_WT_VARINT then Some False
     else all_zero (if len \<noteq> 0 then unat len else 8) d 0)"

function pb_varint_loop :: "u64 \<Rightarrow> bytes \<Rightarrow> nat \<Rightarrow> nat \<Rightarrow> nat \<Rightarrow> (nat \<times> bytes) option" where
  "pb_varint_loop varint buf p i n =
    (if i < n \<and> varint \<noteq> 0 then do {
       buf' \<leftarrow> wr buf p (0x80 OR (ucast varint AND 0x7f));
       pb_varint_loop (drop_bit 7 varint) buf' (Suc p) (Suc i) n
     }
     else Some (i, buf))"
  by pat_completeness auto
termination
  by (relation "measure (\<lambda>(_, _, _, i, n). n - i)") auto

declare pb_varint_loop.simps [simp del]

text \<open>
  All eight bytes at the pointer are read whatever the length (the initialisers of the three
  unions); the switch then uses 1, 2, 4 or 8 of them.
\<close>

definition pb_pack_varint ::
  "bool \<Rightarrow> bytes \<Rightarrow> u8 \<Rightarrow> bytes \<Rightarrow> nat \<Rightarrow> u32 \<Rightarrow> (int \<times> bytes) option" where
  "pb_pack_varint be mem len buf p size32 = do {
     bs \<leftarrow> rd_bytes mem 0 8;
     let varint = (if len = 1 then ucast (bs ! 0)
       else if len = 2 then ucast (ENDIAN_H2LE16 be (mem_load be (take 2 bs)))
       else if len = 4 then ucast (ENDIAN_H2LE32 be (mem_load be (take 4 bs)))
       else ENDIAN_H2LE64 be (mem_load be bs) :: u64);
     (i, buf1) \<leftarrow> pb_varint_loop varint buf p 0 (nat (sint size32));
     if i = 0 then Some (0, buf1)
     else do {
       last \<leftarrow> rd buf1 (p + i - 1);
       buf2 \<leftarrow> wr buf1 (p + i - 1) (last AND NOT 0x80);
       Some (int i, buf2)
     }
   }"

definition pb_pack_64bit :: "bool \<Rightarrow> bytes \<Rightarrow> bytes \<Rightarrow> nat \<Rightarrow> u32 \<Rightarrow> (int \<times> bytes) option" where
  "pb_pack_64bit be mem buf p size32 =
    (if size32 < 8 then Some (- PB_ERR_ENCBUF, buf)
     else do {
       bs \<leftarrow> rd_bytes mem 0 8;
       buf' \<leftarrow> wr_bytes buf p (mem_store be 8 (ENDIAN_H2LE64 be (mem_load be bs)));
       Some (8, buf')
     })"

definition pb_pack_32bit :: "bool \<Rightarrow> bytes \<Rightarrow> bytes \<Rightarrow> nat \<Rightarrow> u32 \<Rightarrow> (int \<times> bytes) option" where
  "pb_pack_32bit be mem buf p size32 =
    (if size32 < 4 then Some (- PB_ERR_ENCBUF, buf)
     else do {
       bs \<leftarrow> rd_bytes mem 0 4;
       buf' \<leftarrow> wr_bytes buf p (mem_store be 4 (ENDIAN_H2LE32 be (mem_load be bs)));
       Some (4, buf')
     })"

definition pb_encode_varint :: "bool \<Rightarrow> u64 \<Rightarrow> bytes \<Rightarrow> nat \<Rightarrow> u32 \<Rightarrow> (int \<times> bytes) option" where
  "pb_encode_varint be varint buf p size32 =
    (if varint \<le> 0x7f then do {
       buf' \<leftarrow> wr buf p (ucast varint AND 0x7f);
       Some (1, buf')
     }
     else pb_pack_varint be (mem_store be 8 varint) 8 buf p size32)"

text \<open>
  \<^verbatim>\<open>stk\<close> is what lies behind the 32-bit parameter \<^verbatim>\<open>field\<close> in memory: the varint encoder
  reads four of its bytes.
\<close>

definition pb_encode_header ::
  "bool \<Rightarrow> bytes \<Rightarrow> bytes \<Rightarrow> nat \<Rightarrow> u32 \<Rightarrow> u8 \<Rightarrow> u32 \<Rightarrow> (int \<times> bytes) option" where
  "pb_encode_header be stk buf p size32 ty fld =
    (if fld = 0 \<or> fld > 0x1fffffff \<or> (fld \<ge> 19000 \<and> fld \<le> 19999) then Some (- PB_ERR_FIELD, buf)
     else
       let fld' = PB_SET_HEADER fld ty in
       if fld' < 0x7f then do {
         buf' \<leftarrow> wr buf p (ucast fld' AND 0x7f);
         Some (1, buf')
       }
       else pb_pack_varint be (mem_store be 4 fld' @ stk) 4 buf p size32)"

definition pb_pack_ld :: "bool \<Rightarrow> bytes \<Rightarrow> u8 \<Rightarrow> bytes \<Rightarrow> nat \<Rightarrow> u32 \<Rightarrow> (int \<times> bytes) option" where
  "pb_pack_ld be mem len buf p size32 = do {
     (varint_length, buf1) \<leftarrow> pb_encode_varint be (ucast len) buf p size32;
     if varint_length < 0 then Some (- PB_ERR_ENCBUF, buf1)
     else do {
       src \<leftarrow> rd_bytes mem 0 (unat len);
       buf2 \<leftarrow> wr_bytes buf1 (p + nat varint_length) src;
       Some (varint_length + int (unat len), buf2)
     }
   }"

text \<open>The dispatch table \<^verbatim>\<open>__encoder\<close>; entries 3 and 4 are NULL.\<close>

definition pb_encode ::
  "bool \<Rightarrow> u8 \<Rightarrow> bytes \<Rightarrow> u8 \<Rightarrow> bytes \<Rightarrow> nat \<Rightarrow> u32 \<Rightarrow> (int \<times> bytes) option" where
  "pb_encode be wt mem len buf p size32 =
    (if wt = 0 then pb_pack_varint be mem len buf p size32
     else if wt = 1 then pb_pack_64bit be mem buf p size32
     else if wt = 2 then pb_pack_ld be mem len buf p size32
     else if wt = 5 then pb_pack_32bit be mem buf p size32
     else None)"

section \<open>The message encoder\<close>

text \<open>
  The length of an embedded message, written in front of its bytes, which were packed one byte
  behind their start \<^verbatim>\<open>q\<close>: a longer length makes room first.  The result is what is added to
  \<^verbatim>\<open>packed_len\<close>.
\<close>

definition pb_emb_length :: "bool \<Rightarrow> bytes \<Rightarrow> nat \<Rightarrow> int \<Rightarrow> (nat \<times> bytes) option" where
  "pb_emb_length be buf q emb_msg_len =
    (if emb_msg_len > 0x7f then do {
       (occupy, lenbuf) \<leftarrow> pb_encode_varint be (of_int emb_msg_len) (replicate 8 0) 0 8;
       msg \<leftarrow> rd_bytes buf (q + 1) (nat emb_msg_len);
       buf3 \<leftarrow> wr_bytes buf (q + nat occupy) msg;
       lb \<leftarrow> rd_bytes lenbuf 0 (nat occupy);
       buf4 \<leftarrow> wr_bytes buf3 q lb;
       Some (nat occupy + nat emb_msg_len, buf4)
     }
     else do {
       buf3 \<leftarrow> wr buf q (of_int emb_msg_len);
       Some (nat emb_msg_len + 1, buf3)
     })"

text \<open>
  The loop of \<^verbatim>\<open>pb_pack\<close>: the remaining items and their number, the buffer with the offset of
  this (embedded) message, its size, and \<^verbatim>\<open>packed_len\<close>.
\<close>

function pb_pack_items ::
  "bool \<Rightarrow> bytes \<Rightarrow> pb_st_item list \<Rightarrow> nat \<Rightarrow> bytes \<Rightarrow> nat \<Rightarrow> u32 \<Rightarrow> nat \<Rightarrow> (int \<times> bytes) option"
where
  "pb_pack_items be stk ms 0 buf base size32 p = Some (int p, buf)"
| "pb_pack_items be stk [] (Suc n) buf base size32 p = None"
| "pb_pack_items be stk (Item ty fld dat len # ms) (Suc n) buf base size32 p =
    (let write_type = PB_GET_WTYPE ty in
     if write_type > 5 then Some (- PB_ERR_WTYPE, buf)
     else if write_type = 3 \<or> write_type = 4 \<or> dat = Null
     then pb_pack_items be stk ms n buf base size32 p
     else if IS_EMB_MSG ty then
       (case pb_encode_header be stk buf (base + p) (size32 - of_nat p) write_type (ucast fld) of
          None \<Rightarrow> None
        | Some (header_len, buf1) \<Rightarrow>
          if header_len \<le> 0 then Some (- PB_ERR_ENCBUF, buf1)
          else
            let p1 = p + nat header_len in
            case dat of Msg sub \<Rightarrow>
              (case pb_pack_items be stk sub (unat len) buf1 (base + p1 + 1) (size32 - of_nat p1 - 1) 0 of
                 None \<Rightarrow> None
               | Some (emb_msg_len, buf2) \<Rightarrow>
                 if emb_msg_len < 0 then Some (emb_msg_len, buf2)
                 else
                   (case pb_emb_length be buf2 (base + p1) emb_msg_len of
                      None \<Rightarrow> None
                    | Some (added, buf3) \<Rightarrow>
                      let p2 = p1 + added in
                      if of_nat p2 \<ge> size32 then Some (- PB_ERR_ENCBUF, buf3)
                      else pb_pack_items be stk ms n buf3 base size32 p2))
            | _ \<Rightarrow> None)
     else
       (case dat of Mem mem \<Rightarrow>
          (case (if write_type = PB_WT_VARINT then pb_varint_is_zero ty mem len else Some False) of
             None \<Rightarrow> None
           | Some True \<Rightarrow> pb_pack_items be stk ms n buf base size32 p
           | Some False \<Rightarrow>
             (case pb_encode_header be stk buf (base + p) (size32 - of_nat p) ty (ucast fld) of
                None \<Rightarrow> None
              | Some (header_len, buf1) \<Rightarrow>
                if header_len < 0 then Some (- PB_ERR_ENCBUF, buf1)
                else
                  let p1 = p + nat header_len in
                  case pb_encode be write_type mem len buf1 (base + p1) (size32 - of_nat p1) of
                    None \<Rightarrow> None
                  | Some (value_len, buf2) \<Rightarrow>
                    if value_len < 0 then Some (value_len, buf2)
                    else
                      let p2 = p1 + nat value_len in
                      if of_nat p2 \<ge> size32 then Some (- PB_ERR_ENCBUF, buf2)
                      else pb_pack_items be stk ms n buf2 base size32 p2))
        | _ \<Rightarrow> None))"
  by pat_completeness auto
termination
  by (relation "measure (\<lambda>(_, _, ms, _). size_list size ms)") auto

declare pb_pack_items.simps [simp del]

definition pb_pack ::
  "bool \<Rightarrow> bytes \<Rightarrow> pb_st_item list \<Rightarrow> nat \<Rightarrow> bytes \<Rightarrow> nat \<Rightarrow> u32 \<Rightarrow> (int \<times> bytes) option" where
  "pb_pack be stk message len buf p size32 = pb_pack_items be stk message len buf p size32 0"

section \<open>The wire format\<close>

text \<open>Variable-length integers of the protocol buffer format, and their reading.\<close>

function varint_enc :: "nat \<Rightarrow> bytes" where
  "varint_enc n = (if n < 128 then [of_nat n] else of_nat (128 + n mod 128) # varint_enc (n div 128))"
  by pat_completeness auto
termination
  by (relation "measure id") auto

declare varint_enc.simps [simp del]

fun varint_dec :: "bytes \<Rightarrow> (nat \<times> bytes) option" where
  "varint_dec [] = None"
| "varint_dec (b # r) =
    (if b < 128 then Some (unat b, r)
     else do { (n, r') \<leftarrow> varint_dec r; Some (unat b - 128 + 128 * n, r') })"

lemma varint_enc_small: "n < 128 \<Longrightarrow> varint_enc n = [of_nat n]"
  by (subst varint_enc.simps) simp

lemma varint_enc_large: "128 \<le> n \<Longrightarrow> varint_enc n = of_nat (128 + n mod 128) # varint_enc (n div 128)"
  by (subst varint_enc.simps) simp

lemma varint_enc_nonempty [simp]: "varint_enc n \<noteq> []"
  by (subst varint_enc.simps) simp

lemma varint_enc_length_pos [simp]: "0 < length (varint_enc n)"
  by (simp add: length_greater_0_conv)

lemma unat_of_nat_byte: "n < 256 \<Longrightarrow> unat (of_nat n :: u8) = n"
  by (rule unat_of_nat_id) simp

lemma varint_dec_enc: "varint_dec (varint_enc n @ r) = Some (n, r)"
proof (induction n rule: varint_enc.induct)
  case (1 n)
  show ?case
  proof (cases "n < 128")
    case True
    then show ?thesis by (simp add: varint_enc_small word_less_nat_alt unat_of_nat_byte)
  next
    case False
    have u: "unat (of_nat (128 + n mod 128) :: u8) = 128 + n mod 128" by (rule unat_of_nat_byte) simp
    have "\<not> (of_nat (128 + n mod 128) :: u8) < 128" unfolding word_less_nat_alt u by simp
    then show ?thesis using False 1 u by (simp add: varint_enc_large del: of_nat_add)
  qed
qed

lemma varint_enc_length: "n < 128 ^ k \<Longrightarrow> 0 < k \<Longrightarrow> length (varint_enc n) \<le> k"
proof (induction n arbitrary: k rule: varint_enc.induct)
  case (1 n)
  show ?case
  proof (cases "n < 128")
    case True
    then show ?thesis using 1 by (simp add: varint_enc_small)
  next
    case False
    then obtain j where k: "k = Suc j" "0 < j" using 1 by (cases k; cases "k - 1") auto
    then have "n div 128 < 128 ^ j" using 1 by (simp add: less_mult_imp_div_less mult.commute)
    then show ?thesis using 1 False k by (simp add: varint_enc_large)
  qed
qed

lemma low7: "(ucast v AND 0x7f :: u8) = of_nat (unat (v :: 'a::len word) mod 128)" if "8 \<le> LENGTH('a)"
proof -
  have m: "(0x7f :: u8) = mask 7" by (simp add: mask_eq_decr_exp)
  have "unat (take_bit 7 (ucast v :: u8)) = unat v mod 128"
    by (simp only: unsigned_take_bit_eq unsigned_ucast_eq) (simp add: take_bit_eq_mod mod_mod_cancel)
  then have "take_bit 7 (ucast v :: u8) = of_nat (unat v mod 128)"
    by (metis of_nat_unat ucast_id)
  then show ?thesis by (simp only: m take_bit_eq_mask [symmetric])
qed

lemma more_bit:
  assumes "n < 128"
  shows "0x80 OR (of_nat n :: u8) = of_nat (128 + n)" "(0x80 OR of_nat n) AND NOT 0x80 = (of_nat n :: u8)"
proof -
  have "\<forall>n\<in>set [0..<128]. 0x80 OR (of_nat n :: u8) = of_nat (128 + n) \<and>
     (0x80 OR of_nat n) AND NOT 0x80 = (of_nat n :: u8)"
    by code_simp
  moreover have "n \<in> set [0..<128]" using assms by simp
  ultimately show "0x80 OR (of_nat n :: u8) = of_nat (128 + n)" "(0x80 OR of_nat n) AND NOT 0x80 = (of_nat n :: u8)"
    by blast+
qed

lemma varint_last: "\<exists>m<128. last (varint_enc n) = of_nat m"
proof (induction n rule: varint_enc.induct)
  case (1 n)
  then show ?case by (cases "n < 128") (auto simp: varint_enc_small varint_enc_large)
qed

lemma pb_varint_loop_run:
  assumes "v \<noteq> 0" "enc = varint_enc (unat v)" "i + length enc \<le> n" "length enc \<le> length R"
  shows "pb_varint_loop v (W @ R) (length W) i n =
    Some (i + length enc, W @ butlast enc @ [0x80 OR last enc] @ drop (length enc) R)"
  using assms
proof (induction "unat v" arbitrary: v enc i W R rule: varint_enc.induct)
  case 1
  let ?b = "0x80 OR (ucast v AND 0x7f) :: u8"
  have b: "?b = of_nat (128 + unat v mod 128)"
    unfolding low7 [of v, simplified] by (rule more_bit) simp
  have lp: "0 < length enc" unfolding 1(3) by (rule varint_enc_length_pos)
  have i: "i < n" using 1(4) lp by linarith
  have w: "wr (W @ R) (length W) ?b = Some ((W @ [?b]) @ tl R)"
    using 1(5) lp by (intro wr_append) linarith+
  have d: "unat (drop_bit 7 v) = unat v div 128" unfolding unat_drop_bit_eq by (simp add: drop_bit_eq_div)
  have step: "pb_varint_loop v (W @ R) (length W) i n =
      pb_varint_loop (drop_bit 7 v) ((W @ [?b]) @ tl R) (length (W @ [?b])) (Suc i) n"
    using i 1(2) w by (subst pb_varint_loop.simps) (simp del: wr_in)
  show ?case
  proof (cases "unat v < 128")
    case True
    then have "drop_bit 7 v = 0" using d by (simp add: word_unat_eq_iff)
    moreover have "enc = [of_nat (unat v)]" using 1(3) True by (simp add: varint_enc_small)
    moreover have "?b = 0x80 OR of_nat (unat v)" using low7 [of v] True by simp
    ultimately show ?thesis using step
      by (subst (asm) (2) pb_varint_loop.simps) (simp add: drop_Suc)
  next
    case False
    then have e: "enc = ?b # varint_enc (unat v div 128)" using 1(3) b by (simp add: varint_enc_large)
    have nz: "drop_bit 7 v \<noteq> 0"
      using False d by (metis div_greater_zero_iff le_numeral_extra(3) not_less unat_0 zero_less_numeral)
    let ?e = "varint_enc (unat v div 128)"
    have "pb_varint_loop (drop_bit 7 v) ((W @ [?b]) @ tl R) (length (W @ [?b])) (Suc i) n =
      Some (Suc i + length ?e, (W @ [?b]) @ butlast ?e @ [0x80 OR last ?e] @ drop (length ?e) (tl R))"
      using False nz d e 1(4,5) by (intro 1(1)) auto
    then show ?thesis using step e by (simp add: drop_Suc)
  qed
qed

lemma pb_varint_finish:
  assumes "v \<noteq> 0" "enc = varint_enc (unat v)" "length enc \<le> n" "length enc \<le> length R"
  shows "do { (i, buf1) \<leftarrow> pb_varint_loop v (W @ R) (length W) 0 n;
      if i = 0 then Some (0, buf1)
      else do {
        last \<leftarrow> rd buf1 (length W + i - 1);
        buf2 \<leftarrow> wr buf1 (length W + i - 1) (last AND NOT 0x80);
        Some (int i, buf2) } } =
    Some (int (length enc), W @ enc @ drop (length enc) R)"
proof -
  obtain m where m: "m < 128" "last enc = of_nat m" using varint_last assms(2) by blast
  let ?W = "W @ butlast enc"
  have ne: "enc \<noteq> []" using assms(2) by simp
  then have le: "length W + length enc - 1 = length ?W" by (cases enc) auto
  have rd: "rd (?W @ (0x80 OR last enc) # drop (length enc) R) (length ?W) = Some (0x80 OR last enc)"
    by (simp add: rd_def nth_append)
  have wr: "wr (?W @ (0x80 OR last enc) # drop (length enc) R) (length ?W) (last enc) =
      Some (?W @ last enc # drop (length enc) R)"
    by (simp add: wr_def list_update_append)
  have e: "butlast enc @ [last enc] = enc" using ne by simp
  have "pb_varint_loop v (W @ R) (length W) 0 n = Some (length enc, ?W @ (0x80 OR last enc) # drop (length enc) R)"
    using pb_varint_loop_run [of v enc 0 n R W] assms by simp
  moreover have "(0x80 OR last enc) AND NOT 0x80 = last enc" using m more_bit(2) by metis
  moreover have "W @ enc @ drop (length enc) R = ?W @ last enc # drop (length enc) R"
    using e by (metis append.assoc append_Cons append_Nil)
  ultimately show ?thesis using rd wr ne le by (simp del: wr_in rd_in)
qed

text \<open>The value a varint item holds, its bytes read in little-endian order.\<close>

definition varint_value :: "u8 \<Rightarrow> bytes \<Rightarrow> u64" where
  "varint_value len mem =
    (if len = 1 then ucast (mem ! 0)
     else if len = 2 then ucast (be_word (rev (take 2 mem)) :: u16)
     else if len = 4 then ucast (be_word (rev (take 4 mem)) :: u32)
     else be_word (rev (take 8 mem)))"

text \<open>
  The encoding of the first \<^verbatim>\<open>n\<close> items: absent and zero items are left out, an embedded
  message is a length-delimited field.
\<close>

function pb_wire :: "pb_st_item list \<Rightarrow> nat \<Rightarrow> bytes" where
  "pb_wire ms 0 = []"
| "pb_wire [] (Suc n) = []"
| "pb_wire (Item ty f d l # ms) (Suc n) =
    (let wt = unat (PB_GET_WTYPE ty); key = varint_enc (8 * unat f + wt) in
     case d of
       Null \<Rightarrow> []
     | Msg sub \<Rightarrow> let e = pb_wire sub (unat l) in key @ varint_enc (length e) @ e
     | Mem mem \<Rightarrow>
         if wt = 0 then (let v = varint_value l mem in if v = 0 then [] else key @ varint_enc (unat v))
         else if wt = 1 then key @ take 8 mem
         else if wt = 2 then key @ varint_enc (unat l) @ take (unat l) mem
         else if wt = 5 then key @ take 4 mem
         else []) @ pb_wire ms n"
  by pat_completeness auto
termination
  by (relation "measure (\<lambda>(ms, _). size_list size ms)") auto

text \<open>Items whose pointers cover what the encoders read, with the lengths the macros give.\<close>

function pb_wf :: "pb_st_item list \<Rightarrow> nat \<Rightarrow> bool" where
  "pb_wf ms 0 = True"
| "pb_wf [] (Suc n) = False"
| "pb_wf (Item ty f d l # ms) (Suc n) =
    (f \<noteq> 0 \<and> unat (PB_GET_WTYPE ty) \<le> 5 \<and>
     (case d of
       Null \<Rightarrow> True
     | Msg sub \<Rightarrow> IS_EMB_MSG ty \<and> pb_wf sub (unat l)
     | Mem mem \<Rightarrow> \<not> IS_EMB_MSG ty \<and>
         (let wt = unat (PB_GET_WTYPE ty) in
          if wt = 0 then ty = 0 \<and> l \<in> {0, 1, 2, 4, 8} \<and> 8 \<le> length mem
          else if wt = 1 then 8 \<le> length mem
          else if wt = 2 then unat l \<le> length mem
          else wt = 5 \<longrightarrow> 4 \<le> length mem)) \<and>
     pb_wf ms n)"
  by pat_completeness auto
termination
  by (relation "measure (\<lambda>(ms, _). size_list size ms)") auto

lemma h2le_load:
  "length bs = 8 \<Longrightarrow> ENDIAN_H2LE64 be (mem_load be bs) = be_word (rev bs)"
  "length bs = 4 \<Longrightarrow> ENDIAN_H2LE32 be (mem_load be bs) = be_word (rev bs)"
  "length bs = 2 \<Longrightarrow> ENDIAN_H2LE16 be (mem_load be bs) = be_word (rev bs)"
  using be_bytes_be_word [of bs, where 'a=64] be_bytes_be_word [of bs, where 'a=32]
    be_bytes_be_word [of bs, where 'a=16]
  by (simp_all add: ENDIAN_H2LE64_def ENDIAN_H2LE32_def ENDIAN_H2LE16_def mem_load_def
      endian_swap64_bytes endian_swap32_bytes endian_swap16_bytes)

lemma pb_pack_varint_eq:
  assumes "8 \<le> length mem" "v = varint_value l mem" "v \<noteq> 0" "enc = varint_enc (unat v)"
    and "int (length enc) \<le> sint size32" "length enc \<le> length R" "length W = q"
  shows "pb_pack_varint be mem l (W @ R) q size32 = Some (int (length enc), W @ enc @ drop (length enc) R)"
proof -
  have bs: "rd_bytes mem 0 8 = Some (take 8 mem)" using assms(1) by simp
  have v: "(if l = 1 then ucast (take 8 mem ! 0)
       else if l = 2 then ucast (ENDIAN_H2LE16 be (mem_load be (take 2 (take 8 mem))))
       else if l = 4 then ucast (ENDIAN_H2LE32 be (mem_load be (take 4 (take 8 mem))))
       else ENDIAN_H2LE64 be (mem_load be (take 8 mem)) :: u64) = v"
    using assms(1) by (simp add: assms(2) varint_value_def h2le_load min_def)
  show ?thesis
    unfolding pb_pack_varint_def bs bind.bind_lunit Let_def v assms(7) [symmetric]
    by (rule pb_varint_finish) (use assms in simp_all)
qed

lemma varint_value_store64: "varint_value 8 (mem_store False 8 v) = v"
  by (simp add: varint_value_def mem_store_def be_word_be_bytes)

lemma varint_value_store32: "varint_value 4 (mem_store False 4 (v :: u32) @ r) = ucast v"
  by (simp add: varint_value_def mem_store_def be_word_be_bytes)

lemma pb_encode_varint_eq:
  assumes "enc = varint_enc (unat v)" "int (length enc) \<le> sint size32" "length enc \<le> length R" "length W = q"
  shows "pb_encode_varint False v (W @ R) q size32 = Some (int (length enc), W @ enc @ drop (length enc) R)"
proof (cases "v \<le> 0x7f")
  case True
  then have l: "unat v < 128" by (simp add: word_le_nat_alt)
  then have e: "enc = [ucast v AND 0x7f]" using assms(1) low7 [of v] by (simp add: varint_enc_small)
  then have "wr (W @ R) q (ucast v AND 0x7f) = Some ((W @ enc) @ tl R)"
    using assms(3,4) wr_append [of q W R "ucast v AND 0x7f"] by (cases R) auto
  then show ?thesis using True e by (simp add: pb_encode_varint_def drop_Suc)
next
  case False
  then have "v \<noteq> 0" by auto
  then show ?thesis
    using False pb_pack_varint_eq [of "mem_store False 8 v" v 8 enc size32 R W q False] assms
    by (simp add: pb_encode_varint_def varint_value_store64)
qed

lemma pb_header_value: "unat (PB_SET_HEADER (ucast f) ty) = 8 * unat (f :: u8) + unat (PB_GET_WTYPE ty)"
proof -
  have m: "(7 :: u32) = mask 3" "(7 :: u8) = mask 3" "(0x1fffffff :: u32) = mask 29"
    by (simp_all add: mask_eq_decr_exp)
  let ?a = "push_bit 3 (ucast f AND 0x1fffffff) :: u32" and ?b = "ucast ty AND 7 :: u32"
  have "?a AND ?b = 0"
    unfolding m by (rule bit_word_eqI) (auto simp: bit_simps)
  then have "PB_SET_HEADER (ucast f) ty = ?a + ?b"
    by (simp add: PB_SET_HEADER_def disjunctive_add_eq_or)
  moreover have f: "unat f < 256" using unsigned_less [of f, where ?'a=nat] by simp
  have "ucast f AND 0x1fffffff = (ucast f :: u32)"
    unfolding m by (rule bit_word_eqI) (auto simp: bit_simps dest: bit_imp_le_length)
  then have "unat ?a = 8 * unat f"
    using f by (simp add: push_bit_eq_mult unat_word_ariths unsigned_ucast_eq take_bit_nat_eq_self)
  moreover have "?b = ucast (PB_GET_WTYPE ty)"
    unfolding PB_GET_WTYPE_def m by (rule bit_word_eqI) (auto simp: bit_simps)
  moreover have "PB_GET_WTYPE ty \<le> 7" unfolding PB_GET_WTYPE_def by (rule word_and_le1)
  then have w: "unat (PB_GET_WTYPE ty) \<le> 7" by (simp add: word_le_nat_alt)
  moreover have "unat (ucast (PB_GET_WTYPE ty) :: u32) = unat (PB_GET_WTYPE ty)"
    using w by (simp add: unsigned_ucast_eq take_bit_nat_eq_self)
  ultimately show ?thesis using f by (simp add: unat_word_ariths)
qed

definition pb_key :: "u8 \<Rightarrow> u8 \<Rightarrow> bytes" where
  "pb_key f ty = varint_enc (8 * unat f + unat (PB_GET_WTYPE ty))"

lemma pb_encode_header_eq:
  assumes "f \<noteq> 0" "4 \<le> length stk" "int (length (pb_key f ty)) \<le> sint size32"
    and "length (pb_key f ty) \<le> length R" "length W = q"
  shows "pb_encode_header False stk (W @ R) q size32 ty (ucast f) =
    Some (int (length (pb_key f ty)), W @ pb_key f ty @ drop (length (pb_key f ty)) R)"
proof -
  let ?h = "PB_SET_HEADER (ucast f) ty"
  have h: "unat ?h = 8 * unat f + unat (PB_GET_WTYPE ty)" by (rule pb_header_value)
  have f: "0 < unat f" "unat f < 256"
    using assms(1) unsigned_less [of f, where ?'a=nat] by (simp_all add: unat_gt_0)
  have uf: "unat (ucast f :: u32) = unat f" using f by (simp add: unsigned_ucast_eq take_bit_nat_eq_self)
  have ok: "\<not> ((ucast f :: u32) = 0 \<or> (ucast f :: u32) > 0x1fffffff \<or>
      ((ucast f :: u32) \<ge> 19000 \<and> (ucast f :: u32) \<le> 19999))"
    using f uf by (auto simp: word_less_nat_alt word_le_nat_alt word_unat_eq_iff)
  show ?thesis
  proof (cases "?h < 0x7f")
    case True
    then have l: "unat ?h < 128" by (simp add: word_less_nat_alt)
    then have e: "pb_key f ty = [ucast ?h AND 0x7f]" using low7 [of ?h] h
      by (simp add: pb_key_def varint_enc_small)
    have "wr (W @ R) q (ucast ?h AND 0x7f) = Some ((W @ pb_key f ty) @ tl R)"
      using assms(4,5) wr_append [of q W R "ucast ?h AND 0x7f"] e by (cases R) auto
    then show ?thesis using True e ok
      by (simp only: pb_encode_header_def Let_def if_False if_True) (simp add: drop_Suc)
  next
    case False
    let ?v = "ucast ?h :: u64"
    have bound: "unat ?h < 4294967296" using unsigned_less [of ?h, where ?'a=nat] by simp
    then have uv: "unat ?v = unat ?h" by (simp add: unsigned_ucast_eq take_bit_nat_eq_self)
    have "?v \<noteq> 0" using uv h f by (simp add: word_unat_eq_iff)
    moreover have "varint_value 4 (mem_store False 4 ?h @ stk) = ?v" by (rule varint_value_store32)
    ultimately show ?thesis
      using False ok assms(2-) uv h
        pb_pack_varint_eq [of "mem_store False 4 ?h @ stk" ?v 4 "pb_key f ty" size32 R W q False]
      by (simp only: pb_encode_header_def Let_def if_False) (simp add: pb_key_def)
  qed
qed

lemma sint_of_small: "unat (w :: u32) < 2 ^ 31 \<Longrightarrow> sint w = int (unat w)"
proof -
  assume w: "unat w < 2 ^ 31"
  obtain n where n: "unat w = n" "n < 2 ^ 31" using w by blast
  have "sint w = sint (of_nat n :: u32)" by (simp flip: n(1))
  also have "\<dots> = signed_take_bit 31 (int n)" by (simp only: signed_of_nat) simp
  also have "\<dots> = int n" by (rule signed_take_bit_int_eq_self) (use n(2) in simp_all)
  finally show ?thesis by (simp only: n(1))
qed

lemma word_less_iff_of_nat: "m < 2 ^ 32 \<Longrightarrow> (w :: u32) \<le> of_nat m \<longleftrightarrow> unat w \<le> m"
  by (simp add: word_le_nat_alt unat_of_nat_id)

lemma unat_sub_of_nat: "m \<le> unat w \<Longrightarrow> unat (w - of_nat m :: u32) = unat w - m"
proof -
  assume m: "m \<le> unat w"
  then have "m < 2 ^ 32" using unsigned_less [of w, where ?'a=nat] by simp
  then have "unat (of_nat m :: u32) = m" by (simp add: unat_of_nat_id)
  then show ?thesis using m by (simp add: unat_sub word_le_nat_alt)
qed

lemma pb_pack_ld_eq:
  assumes "unat l \<le> length mem" "enc = varint_enc (unat l) @ take (unat l) mem"
    and "int (length (varint_enc (unat l))) \<le> sint size32" "length enc \<le> length R" "length W = q"
  shows "pb_pack_ld False mem l (W @ R) q size32 = Some (int (length enc), W @ enc @ drop (length enc) R)"
proof -
  let ?e = "varint_enc (unat l)"
  have lb: "unat l < 256" using unsigned_less [of l, where ?'a=nat] by simp
  then have "unat (ucast l :: u64) = unat l" by (simp add: unsigned_ucast_eq take_bit_nat_eq_self)
  then have v: "pb_encode_varint False (ucast l) (W @ R) q size32 =
      Some (int (length ?e), W @ ?e @ drop (length ?e) R)"
    using assms by (intro pb_encode_varint_eq) auto
  have "wr_bytes ((W @ ?e) @ drop (length ?e) R) (q + length ?e) (take (unat l) mem) =
      Some (((W @ ?e) @ take (unat l) mem) @ drop (length (take (unat l) mem)) (drop (length ?e) R))"
    using assms by (intro wr_bytes_append) auto
  then show ?thesis using v assms(1,2) by (simp add: pb_pack_ld_def add.commute del: wr_bytes_in)
qed

lemma pb_pack_fixed_eq:
  assumes "length W = q"
  shows "\<lbrakk>8 \<le> length mem; 8 \<le> size32; 8 \<le> length R\<rbrakk> \<Longrightarrow>
      pb_pack_64bit False mem (W @ R) q size32 = Some (8, W @ take 8 mem @ drop 8 R)"
    and "\<lbrakk>4 \<le> length mem; 4 \<le> size32; 4 \<le> length R\<rbrakk> \<Longrightarrow>
      pb_pack_32bit False mem (W @ R) q size32 = Some (4, W @ take 4 mem @ drop 4 R)"
  using assms be_bytes_be_word [of "rev (take 8 mem)", where 'a=64]
    be_bytes_be_word [of "rev (take 4 mem)", where 'a=32]
  by (auto simp: pb_pack_64bit_def pb_pack_32bit_def h2le_load mem_store_def not_less)

lemma all_zero_eq: "i + n \<le> length d \<Longrightarrow> all_zero n d i = Some (\<forall>j<n. d ! (i + j) = 0)"
proof (induction n arbitrary: i)
  case (Suc n)
  have "(\<forall>j<Suc n. d ! (i + j) = 0) \<longleftrightarrow> d ! i = 0 \<and> (\<forall>j<n. d ! (Suc i + j) = 0)"
    by (simp add: All_less_Suc2)
  then show ?case using Suc by simp
qed simp

lemma be_word_eq_0: "8 * length bs \<le> LENGTH('a) \<Longrightarrow> (be_word bs :: 'a::len word) = 0 \<longleftrightarrow> (\<forall>b\<in>set bs. b = 0)"
proof
  assume l: "8 * length bs \<le> LENGTH('a)" and "(be_word bs :: 'a word) = 0"
  then have "bs = be_bytes (length bs) (0 :: 'a word)" using be_bytes_be_word [OF l] by simp
  moreover have "set (be_bytes (length bs) (0 :: 'a word)) \<subseteq> {0}" by (auto simp: be_bytes_def)
  ultimately show "\<forall>b\<in>set bs. b = 0" by (metis singletonD subsetD)
next
  assume "\<forall>b\<in>set bs. b = 0"
  then show "(be_word bs :: 'a word) = 0"
    by (induction bs rule: rev_induct) (simp_all add: be_word_def)
qed

lemma varint_zero_eq:
  assumes "8 \<le> length mem" "l \<in> {0, 1, 2, 4, 8}"
  shows "pb_varint_is_zero 0 mem l = Some (varint_value l mem = 0)"
proof -
  have n: "all_zero k mem 0 = Some (\<forall>b\<in>set (take k mem). b = 0)" if "k \<le> 8" for k
    using all_zero_eq [of 0 k mem] assms(1) that by (auto simp: all_set_conv_all_nth)
  have u16: "(ucast (w :: u16) :: u64) = 0 \<longleftrightarrow> w = 0" for w
    using unsigned_less [of w, where ?'a=nat]
    by (simp add: word_unat_eq_iff unsigned_ucast_eq take_bit_nat_eq_self)
  have u32: "(ucast (w :: u32) :: u64) = 0 \<longleftrightarrow> w = 0" for w
    using unsigned_less [of w, where ?'a=nat]
    by (simp add: word_unat_eq_iff unsigned_ucast_eq take_bit_nat_eq_self)
  have u8: "(ucast (w :: u8) :: u64) = 0 \<longleftrightarrow> w = 0" for w
    using unsigned_less [of w, where ?'a=nat]
    by (simp add: word_unat_eq_iff unsigned_ucast_eq take_bit_nat_eq_self)
  have z: "(be_word (rev (take 2 mem)) :: u16) = 0 \<longleftrightarrow> (\<forall>b\<in>set (take 2 mem). b = 0)"
    "(be_word (rev (take 4 mem)) :: u32) = 0 \<longleftrightarrow> (\<forall>b\<in>set (take 4 mem). b = 0)"
    "(be_word (rev (take 8 mem)) :: u64) = 0 \<longleftrightarrow> (\<forall>b\<in>set (take 8 mem). b = 0)"
    by (simp_all add: be_word_eq_0)
  obtain b r where mem: "mem = b # r" using assms(1) by (cases mem) auto
  consider "l = 0" | "l = 1" | "l = 2" | "l = 4" | "l = 8" using assms(2) by auto
  then show ?thesis
  proof cases
    case 2
    then show ?thesis by (simp add: pb_varint_is_zero_def PB_WT_VARINT_def varint_value_def u8 mem)
  qed (simp_all add: pb_varint_is_zero_def PB_WT_VARINT_def n varint_value_def z u16 u32)
qed

lemma pb_wire_0 [simp]: "pb_wire ms 0 = []"
  by (cases ms) simp_all

lemma pb_wire_Cons: "pb_wire (it # ms) (Suc n) = pb_wire [it] 1 @ pb_wire ms n"
  by (cases it) simp

lemma pb_pack_items_0 [simp]: "pb_pack_items be stk ms 0 buf base size32 p = Some (int p, buf)"
  by (simp add: pb_pack_items.simps)

lemma wr_bytes_mid:
  "k + length e \<le> length B \<Longrightarrow>
   wr_bytes (A @ B) (length A + k) e = Some (A @ take k B @ e @ drop (k + length e) B)"
  by (simp add: wr_bytes_def)

lemma avail:
  assumes "m < unat size32" "unat (size32 :: u32) < 2 ^ 31"
  shows "unat (size32 - of_nat m) = unat size32 - m" "sint (size32 - of_nat m) = int (unat size32 - m)"
    "unat (size32 - of_nat m - 1) = unat size32 - m - 1"
proof -
  show u: "unat (size32 - of_nat m) = unat size32 - m" using assms by (intro unat_sub_of_nat) simp
  then show "sint (size32 - of_nat m) = int (unat size32 - m)" using assms by (subst sint_of_small) auto
  have "1 \<le> unat (size32 - of_nat m)" using u assms by simp
  then have "unat (size32 - of_nat m - of_nat 1) = unat (size32 - of_nat m) - 1" by (rule unat_sub_of_nat)
  then show "unat (size32 - of_nat m - 1) = unat size32 - m - 1" using u by simp
qed

lemma avail_signed:
  assumes "m < unat size32" "unat (size32 :: u32) < 2 ^ 31" "m + k \<le> unat size32"
  shows "int k \<le> sint (size32 - of_nat m)"
  unfolding avail(2) [OF assms(1,2)] of_nat_le_iff using assms(3) by arith

lemma size_check: "\<lbrakk>m < unat size32; unat (size32 :: u32) < 2 ^ 31\<rbrakk> \<Longrightarrow> \<not> size32 \<le> of_nat m"
  by (simp add: word_le_nat_alt unat_of_nat_id)

text \<open>Writing the length of an embedded message in front of it, in both cases of the code.\<close>

lemma pb_emb_length_eq:
  fixes A e T :: bytes
  defines "lv \<equiv> varint_enc (length e)"
  assumes "length lv + length e \<le> Suc (length e + length T)" "length e < 2 ^ 31" "length A = q"
  shows "pb_emb_length False (A @ x # e @ T) q (int (length e)) =
    Some (length lv + length e, A @ lv @ e @ drop (length lv - 1) T)"
proof (cases "length e > 0x7f")
  case False
  then have lv: "lv = [of_nat (length e)]" by (simp add: lv_def varint_enc_small)
  show ?thesis using False assms(4) lv by (simp add: pb_emb_length_def wr_def list_update_append)
next
  case True
  have u: "unat (of_nat (length e) :: u64) = length e" by (rule unat_of_nat_id) (use assms(3) in simp)
  have l5: "length lv \<le> 5" unfolding lv_def by (rule varint_enc_length) (use assms(3) in simp_all)
  have enc: "pb_encode_varint False (of_nat (length e)) (replicate 8 0) 0 8 =
      Some (int (length lv), lv @ drop (length lv) (replicate 8 0))"
    using pb_encode_varint_eq [of lv "of_nat (length e)" 8 "replicate 8 0" "[]" 0] l5 u by (simp add: lv_def)
  let ?B = "x # e @ T"
  have k: "length lv + length e \<le> length ?B" using assms(2) by simp
  have l1: "1 \<le> length lv" unfolding lv_def using varint_enc_length_pos [of "length e"] by linarith
  have w1: "wr_bytes (A @ ?B) (q + length lv) e = Some (A @ take (length lv) ?B @ e @ drop (length lv - 1) T)"
  proof -
    obtain y ys where ys: "lv = y # ys" using l1 by (cases lv) auto
    have "drop (length lv + length e) ?B = drop (length lv - 1) T" by (simp add: ys)
    then show ?thesis using wr_bytes_mid [OF k, of A] assms(4) by simp
  qed
  have tk: "length (take (length lv) ?B) = length lv" using k by simp
  have w2: "wr_bytes (A @ take (length lv) ?B @ e @ drop (length lv - 1) T) q lv =
      Some (A @ lv @ e @ drop (length lv - 1) T)"
    unfolding wr_bytes_def length_append tk assms(4) using assms(4) tk by simp
  show ?thesis using True enc w1 w2 assms(4)
    by (simp add: pb_emb_length_def del: wr_bytes_in)
qed

lemma pb_emb_step:
  assumes it: "it = Item ty f (Msg sub) l" and emb: "IS_EMB_MSG ty" and f: "f \<noteq> 0" and stk: "4 \<le> length stk"
    and sub: "\<And>W R base size32. \<lbrakk>length (pb_wire sub (unat l)) < unat size32; unat size32 < 2 ^ 31;
        length W = base; length (pb_wire sub (unat l)) \<le> length R\<rbrakk> \<Longrightarrow>
      pb_pack_items False stk sub (unat l) (W @ R) base size32 0 =
        Some (int (length (pb_wire sub (unat l))), W @ pb_wire sub (unat l) @ drop (length (pb_wire sub (unat l))) R)"
    and len: "length W = base + p" "length (pb_wire [it] 1) \<le> length R"
    and size: "p + length (pb_wire [it] 1) < unat size32" "unat size32 < 2 ^ 31"
  shows "pb_pack_items False stk (it # ms) (Suc n) (W @ R) base size32 p =
    pb_pack_items False stk ms n ((W @ pb_wire [it] 1) @ drop (length (pb_wire [it] 1)) R) base size32
      (p + length (pb_wire [it] 1))"
proof -
  let ?e = "pb_wire sub (unat l)" let ?k = "pb_key f ty" let ?lv = "varint_enc (length ?e)"
  have wt: "PB_GET_WTYPE ty = 2" using emb by (simp add: IS_EMB_MSG_def PB_WT_LD_def)
  then have wt': "pb_key f 2 = ?k" by (simp add: pb_key_def PB_GET_WTYPE_def)
  have w: "pb_wire [it] 1 = ?k @ ?lv @ ?e" by (simp add: it pb_key_def wt Let_def)
  have l1: "1 \<le> length ?lv" using varint_enc_length_pos [of "length ?e"] by linarith
  let ?p1 = "p + length ?k"
  obtain x R' where R: "drop (length ?k) R = x # R'"
    using len(2) w l1 by (cases "drop (length ?k) R") auto
  have Rl: "length R = length ?k + Suc (length R')" using arg_cong [OF R, of length] len(2) w by simp
  have p1: "?p1 < unat size32" using size w by simp
  have p0: "p < unat size32" using size by simp
  have hd: "pb_encode_header False stk (W @ R) (base + p) (size32 - of_nat p) 2 (ucast f) =
      Some (int (length ?k), W @ ?k @ x # R')"
    using pb_encode_header_eq [of f stk 2 "size32 - of_nat p" R W "base + p"] f stk len w size wt' R
      avail_signed [OF p0 size(2), of "length ?k"] by simp
  have klen: "0 < length ?k" by (simp add: pb_key_def)
  have T: "pb_pack_items False stk sub (unat l) ((W @ ?k @ [x]) @ R') (base + ?p1 + 1) (size32 - of_nat ?p1 - 1) 0 =
      Some (int (length ?e), (W @ ?k @ [x]) @ ?e @ drop (length ?e) R')"
    using avail(3) [OF p1 size(2)] len w size l1 Rl by (intro sub) auto
  have fin: "length ?lv + length ?e \<le> Suc (length ?e + length (drop (length ?e) R'))" "length ?e < 2 ^ 31"
    using len w size Rl by auto
  have dr: "drop (length ?lv - 1) (drop (length ?e) R') = drop (length (pb_wire [it] 1)) R"
  proof -
    have "drop (length (pb_wire [it] 1)) R = drop (length ?lv + length ?e) (x # R')"
      by (simp only: w length_append R [symmetric] drop_drop) (simp add: add.commute)
    then show ?thesis using l1 by (simp add: drop_Cons')
  qed
  have el: "pb_emb_length False (W @ ?k @ x # ?e @ drop (length ?e) R') (base + ?p1) (int (length ?e)) =
      Some (length ?lv + length ?e, (W @ pb_wire [it] 1) @ drop (length (pb_wire [it] 1)) R)"
    using pb_emb_length_eq [of ?e "drop (length ?e) R'" "W @ ?k" "base + ?p1" x, OF fin] len(1) dr w by simp
  have p2: "p + (length ?k + (length ?lv + length ?e)) = p + length (pb_wire [it] 1)" unfolding w by simp
  have ok: "\<not> size32 \<le> of_nat (p + length (pb_wire [it] 1))" by (rule size_check [OF size])
  let ?w = "pb_wire [it] 1"
  have T': "pb_pack_items False stk sub (unat l) (W @ ?k @ x # R') (base + ?p1 + 1) (size32 - of_nat ?p1 - 1) 0 =
      Some (int (length ?e), W @ ?k @ x # ?e @ drop (length ?e) R')" using T by simp
  show ?thesis
    unfolding it pb_pack_items.simps(3) Let_def wt
    using emb klen hd T' el ok unfolding it
    by (simp add: add.assoc p2 [unfolded it One_nat_def] del: pb_wire.simps of_nat_add)
qed

text \<open>The value of a scalar or length-delimited item.\<close>

definition pb_value :: "u8 \<Rightarrow> u8 \<Rightarrow> bytes \<Rightarrow> bytes" where
  "pb_value ty l mem = (let wt = PB_GET_WTYPE ty in
     if wt = 0 then varint_enc (unat (varint_value l mem))
     else if wt = 1 then take 8 mem
     else if wt = 2 then varint_enc (unat l) @ take (unat l) mem
     else take 4 mem)"

definition pb_mem_ok :: "u8 \<Rightarrow> u8 \<Rightarrow> bytes \<Rightarrow> bool" where
  "pb_mem_ok ty l mem = (let wt = PB_GET_WTYPE ty in
     if wt = 0 then ty = 0 \<and> l \<in> {0, 1, 2, 4, 8} \<and> 8 \<le> length mem \<and> varint_value l mem \<noteq> 0
     else if wt = 1 then 8 \<le> length mem
     else if wt = 2 then unat l \<le> length mem
     else wt = 5 \<and> 4 \<le> length mem)"

lemma pb_mem_ok_wt:
  assumes "pb_mem_ok ty l mem"
  shows "PB_GET_WTYPE ty = 0 \<or> PB_GET_WTYPE ty = 1 \<or> PB_GET_WTYPE ty = 2 \<or> PB_GET_WTYPE ty = 5"
  using assms unfolding pb_mem_ok_def Let_def by metis

lemma pb_encode_eq:
  assumes "pb_mem_ok ty l mem" "length (pb_value ty l mem) \<le> unat size32" "unat size32 < 2 ^ 31"
    and "length (pb_value ty l mem) \<le> length R" "length W = q"
  shows "pb_encode False (PB_GET_WTYPE ty) mem l (W @ R) q size32 =
    Some (int (length (pb_value ty l mem)), W @ pb_value ty l mem @ drop (length (pb_value ty l mem)) R)"
proof -
  have s: "sint size32 = int (unat size32)" by (rule sint_of_small) (fact assms(3))
  have le: "int k \<le> sint size32" if "k \<le> unat size32" for k using that unfolding s of_nat_le_iff .
  let ?wt = "PB_GET_WTYPE ty"
  consider "?wt = 0" | "?wt = 1" | "?wt = 2" | "?wt = 5"
    using pb_mem_ok_wt [OF assms(1)] by blast
  then show ?thesis
  proof cases
    case 1
    then show ?thesis using assms le
      by (simp add: pb_encode_def pb_value_def pb_mem_ok_def pb_pack_varint_eq)
  next
    case 2
    then have "8 \<le> length mem" "8 \<le> size32" using assms by (simp_all add: pb_value_def pb_mem_ok_def word_le_nat_alt)
    then show ?thesis using 2 assms by (simp add: pb_encode_def pb_value_def pb_pack_fixed_eq)
  next
    case 3
    then have len: "unat l \<le> length mem" using assms by (simp add: pb_mem_ok_def)
    have "length (varint_enc (unat l)) \<le> unat size32" using 3 assms(2) by (simp add: pb_value_def)
    then show ?thesis using 3 assms len le pb_pack_ld_eq [OF len refl, of size32 R W q]
      by (simp add: pb_encode_def pb_value_def)
  next
    case 4
    then have "4 \<le> length mem" "4 \<le> size32" using assms by (simp_all add: pb_value_def pb_mem_ok_def word_le_nat_alt)
    then show ?thesis using 4 assms by (simp add: pb_encode_def pb_value_def pb_pack_fixed_eq)
  qed
qed

lemma pb_mem_step:
  assumes it: "it = Item ty f (Mem mem) l" and emb: "\<not> IS_EMB_MSG ty" and f: "f \<noteq> 0"
    and stk: "4 \<le> length stk" and ok: "pb_mem_ok ty l mem"
    and len: "length W = base + p" "length (pb_wire [it] 1) \<le> length R"
    and size: "p + length (pb_wire [it] 1) < unat size32" "unat size32 < 2 ^ 31"
  shows "pb_pack_items False stk (it # ms) (Suc n) (W @ R) base size32 p =
    pb_pack_items False stk ms n ((W @ pb_wire [it] 1) @ drop (length (pb_wire [it] 1)) R) base size32
      (p + length (pb_wire [it] 1))"
proof -
  let ?k = "pb_key f ty" let ?v = "pb_value ty l mem" let ?wt = "PB_GET_WTYPE ty"
  have wt: "?wt = 0 \<or> ?wt = 1 \<or> ?wt = 2 \<or> ?wt = 5"
    using ok by (rule pb_mem_ok_wt)
  have w: "pb_wire [it] 1 = ?k @ ?v"
    using wt ok by (auto simp: it pb_key_def pb_value_def pb_mem_ok_def Let_def)
  have wtc: "\<not> ?wt > 5" "?wt \<noteq> 3" "?wt \<noteq> 4" using wt by auto
  have p0: "p < unat size32" and p1: "p + length ?k < unat size32 \<or> ?v = []" using size w by auto
  have vne: "?v \<noteq> []" using wt ok by (auto simp: pb_value_def pb_mem_ok_def Let_def)
  then have p1: "p + length ?k < unat size32" using p1 by simp
  have hd: "pb_encode_header False stk (W @ R) (base + p) (size32 - of_nat p) ty (ucast f) =
      Some (int (length ?k), (W @ ?k) @ drop (length ?k) R)"
    using pb_encode_header_eq [of f stk ty "size32 - of_nat p" R W "base + p"] f stk len w size
      avail_signed [OF p0 size(2), of "length ?k"] by simp
  have en: "pb_encode False ?wt mem l ((W @ ?k) @ drop (length ?k) R) (base + (p + length ?k))
        (size32 - of_nat (p + length ?k)) =
      Some (int (length ?v), (W @ ?k) @ ?v @ drop (length ?v) (drop (length ?k) R))"
    using ok avail(1) [OF p1 size(2)] size len w by (intro pb_encode_eq) auto
  have z: "(if ?wt = PB_WT_VARINT then pb_varint_is_zero ty mem l else Some False) = Some False"
    using ok wt varint_zero_eq [of mem l]
    by (auto simp: PB_WT_VARINT_def pb_mem_ok_def Let_def split: if_splits)
  have p2: "p + (length ?k + length ?v) = p + length (pb_wire [it] 1)" unfolding w by simp
  have sz: "\<not> size32 \<le> of_nat (p + length (pb_wire [it] 1))" by (rule size_check [OF size])
  have res: "(W @ ?k) @ ?v @ drop (length ?v) (drop (length ?k) R) =
      (W @ pb_wire [it] 1) @ drop (length (pb_wire [it] 1)) R"
    unfolding w by (simp add: add.commute)
  show ?thesis
    using emb hd en sz wtc unfolding res it
    unfolding pb_pack_items.simps(3) Let_def pb_data.case z
    by (simp add: add.assoc p2 [unfolded it One_nat_def] del: pb_wire.simps of_nat_add)
qed

text \<open>Items that leave no trace: absent data, deprecated types, zero varints.\<close>

lemma pb_skip_step:
  assumes "d = Null \<and> unat (PB_GET_WTYPE ty) \<le> 5 \<or>
    d = Mem mem \<and> (PB_GET_WTYPE ty = 3 \<or> PB_GET_WTYPE ty = 4 \<or>
      ty = 0 \<and> l \<in> {0, 1, 2, 4, 8} \<and> 8 \<le> length mem \<and> varint_value l mem = 0)"
  shows "pb_pack_items be stk (Item ty f d l # ms) (Suc n) buf base size32 p =
      pb_pack_items be stk ms n buf base size32 p"
    and "pb_wire [Item ty f d l] 1 = []"
proof -
  consider "d = Null" "unat (PB_GET_WTYPE ty) \<le> 5" | "d = Mem mem" "PB_GET_WTYPE ty = 3"
    | "d = Mem mem" "PB_GET_WTYPE ty = 4"
    | "d = Mem mem" "ty = 0" "l \<in> {0, 1, 2, 4, 8}" "8 \<le> length mem" "varint_value l mem = 0"
    using assms by blast
  then show "pb_pack_items be stk (Item ty f d l # ms) (Suc n) buf base size32 p =
      pb_pack_items be stk ms n buf base size32 p"
  proof cases
    case 1
    then show ?thesis unfolding pb_pack_items.simps(3) by (simp add: Let_def word_less_nat_alt)
  next
    case 4
    then show ?thesis using varint_zero_eq [of mem l] unfolding pb_pack_items.simps(3)
      by (simp add: Let_def IS_EMB_MSG_def PB_GET_WTYPE_def PB_WT_LD_def PB_WT_VARINT_def)
  qed (simp_all add: pb_pack_items.simps(3) Let_def)
  show "pb_wire [Item ty f d l] 1 = []"
    using assms by (auto simp: Let_def PB_GET_WTYPE_def)
qed

lemma pb_wf_cases:
  assumes "pb_wf (Item ty f d l # ms) (Suc n)"
  obtains sub where "d = Msg sub" "IS_EMB_MSG ty" "pb_wf sub (unat l)"
  | mem where "d = Mem mem" "\<not> IS_EMB_MSG ty" "pb_mem_ok ty l mem"
  | mem where "d = Null \<and> unat (PB_GET_WTYPE ty) \<le> 5 \<or>
    d = Mem mem \<and> (PB_GET_WTYPE ty = 3 \<or> PB_GET_WTYPE ty = 4 \<or>
      ty = 0 \<and> l \<in> {0, 1, 2, 4, 8} \<and> 8 \<le> length mem \<and> varint_value l mem = 0)"
proof (cases d)
  case Null
  then show ?thesis using assms that(3) by simp
next
  case (Msg sub)
  then show ?thesis using assms that(1) by simp
next
  case (Mem mem)
  let ?wt = "unat (PB_GET_WTYPE ty)"
  have u: "?wt = unat (w :: u8) \<longleftrightarrow> PB_GET_WTYPE ty = w" for w by (simp add: word_unat_eq_iff)
  have "?wt \<le> 5" using assms by simp
  then consider "?wt = unat (0 :: u8)" | "?wt = unat (1 :: u8)" | "?wt = unat (2 :: u8)" | "?wt = unat (3 :: u8)"
    | "?wt = unat (4 :: u8)" | "?wt = unat (5 :: u8)" by simp linarith
  then show ?thesis
  proof cases
    case 1
    then show ?thesis using assms Mem that(2,3) unfolding u
      by (cases "varint_value l mem = 0") (auto simp: pb_mem_ok_def Let_def)
  qed (use assms Mem that(2,3) in \<open>auto simp only: u, auto simp: pb_mem_ok_def Let_def\<close>)
qed

lemma pb_pack_items_run:
  "\<lbrakk>pb_wf ms n; 4 \<le> length stk; p + length (pb_wire ms n) < unat size32; unat size32 < 2 ^ 31;
    length W = base + p; length (pb_wire ms n) \<le> length R\<rbrakk> \<Longrightarrow>
   pb_pack_items False stk ms n (W @ R) base size32 p =
     Some (int (p + length (pb_wire ms n)), W @ pb_wire ms n @ drop (length (pb_wire ms n)) R)"
proof (induction ms n arbitrary: p size32 W base R rule: pb_wire.induct)
  case (3 ty f d l ms n)
  let ?it = "Item ty f d l" let ?w = "pb_wire [?it] 1" let ?r = "pb_wire ms n"
  have c: "pb_wire (?it # ms) (Suc n) = ?w @ ?r" by (rule pb_wire_Cons)
  have f: "f \<noteq> 0" and ms: "pb_wf ms n" using 3(3) by auto
  have step: "pb_pack_items False stk (?it # ms) (Suc n) (W @ R) base size32 p =
    pb_pack_items False stk ms n ((W @ ?w) @ drop (length ?w) R) base size32 (p + length ?w)"
    using 3(3)
  proof (cases rule: pb_wf_cases)
    case (1 sub)
    show ?thesis
      by (rule pb_emb_step [OF _ 1(2) f 3(4)]) (use 1 3 c in \<open>auto simp del: pb_wire.simps\<close>)
  next
    case (2 mem)
    show ?thesis
      by (rule pb_mem_step [OF _ 2(2) f 3(4) 2(3)]) (use 2 3 c in \<open>auto simp del: pb_wire.simps\<close>)
  next
    case (3 mem)
    show ?thesis using pb_skip_step [OF 3] by (simp del: pb_wire.simps)
  qed
  have "pb_pack_items False stk ms n ((W @ ?w) @ drop (length ?w) R) base size32 (p + length ?w) =
    Some (int (p + length ?w + length ?r), (W @ ?w) @ ?r @ drop (length ?r) (drop (length ?w) R))"
    using 3(4-) ms c by (intro 3(2)) (auto simp del: pb_wire.simps)
  then show ?case using step unfolding c by (simp add: add.commute del: pb_wire.simps)
qed simp_all

section \<open>Reading the wire format back\<close>

datatype wire_field = WVarint nat nat | W64 nat bytes | WLen nat bytes | W32 nat bytes

fun wire_parse :: "nat \<Rightarrow> bytes \<Rightarrow> wire_field list option" where
  "wire_parse 0 bs = (if bs = [] then Some [] else None)"
| "wire_parse (Suc k) bs =
    (if bs = [] then Some []
     else do {
       (key, r) \<leftarrow> varint_dec bs;
       let fld = key div 8;
       let wt = key mod 8;
       if wt = 0 then do { (v, r1) \<leftarrow> varint_dec r; fs \<leftarrow> wire_parse k r1; Some (WVarint fld v # fs) }
       else if wt = 1 then do {
         v \<leftarrow> rd_bytes r 0 8; fs \<leftarrow> wire_parse k (drop 8 r); Some (W64 fld v # fs) }
       else if wt = 2 then do {
         (n, r1) \<leftarrow> varint_dec r; v \<leftarrow> rd_bytes r1 0 n; fs \<leftarrow> wire_parse k (drop n r1);
         Some (WLen fld v # fs) }
       else if wt = 5 then do {
         v \<leftarrow> rd_bytes r 0 4; fs \<leftarrow> wire_parse k (drop 4 r); Some (W32 fld v # fs) }
       else None
     })"

definition item_fields :: "pb_st_item \<Rightarrow> wire_field list" where
  "item_fields it = (let f = unat (item_field it); l = item_length it in
     case item_data it of
       Null \<Rightarrow> []
     | Msg sub \<Rightarrow> [WLen f (pb_wire sub (unat l))]
     | Mem mem \<Rightarrow> let wt = PB_GET_WTYPE (item_type it) in
         if wt = 0 then (if varint_value l mem = 0 then [] else [WVarint f (unat (varint_value l mem))])
         else if wt = 1 then [W64 f (take 8 mem)]
         else if wt = 2 then [WLen f (take (unat l) mem)]
         else if wt = 5 then [W32 f (take 4 mem)]
         else [])"

lemma wire_parse_item:
  assumes "pb_wf (it # ms) (Suc n)" "length (pb_wire [it] 1 @ r) \<le> k"
    and "\<And>k. length r \<le> k \<Longrightarrow> wire_parse k r = Some fs"
  shows "wire_parse k (pb_wire [it] 1 @ r) = Some (item_fields it @ fs)"
proof -
  obtain ty f d l where it: "it = Item ty f d l" by (cases it)
  have key: "varint_dec (pb_key f ty @ s) = Some (8 * unat f + unat (PB_GET_WTYPE ty), s)" for s
    unfolding pb_key_def by (rule varint_dec_enc)
  have "PB_GET_WTYPE ty \<le> 7" unfolding PB_GET_WTYPE_def by (rule word_and_le1)
  then have w7: "unat (PB_GET_WTYPE ty) \<le> 7" by (simp add: word_le_nat_alt)
  then have km: "(8 * unat f + unat (PB_GET_WTYPE ty)) div 8 = unat f"
    "(8 * unat f + unat (PB_GET_WTYPE ty)) mod 8 = unat (PB_GET_WTYPE ty)" by simp_all
  have kne: "pb_key f ty \<noteq> []" by (simp add: pb_key_def)
  have ksuc: "\<exists>j. k = Suc j \<and> length r \<le> j" if "pb_wire [it] 1 = pb_key f ty @ v" for v
  proof -
    have "0 < length (pb_key f ty)" using kne by simp
    then have "Suc (length r) \<le> k" using assms(2) unfolding that length_append by linarith
    then show ?thesis by (cases k) auto
  qed
  have wf: "pb_wf (Item ty f d l # ms) (Suc n)" using assms(1) unfolding it .
  from wf show ?thesis
  proof (cases rule: pb_wf_cases)
    case (1 sub)
    then have wt: "PB_GET_WTYPE ty = 2" by (simp add: IS_EMB_MSG_def PB_WT_LD_def)
    then have w: "pb_wire [it] 1 = pb_key f ty @ varint_enc (length (pb_wire sub (unat l))) @ pb_wire sub (unat l)"
      by (simp add: it 1 pb_key_def Let_def)
    obtain j where j: "k = Suc j" "length r \<le> j" using ksuc [OF w] by blast
    show ?thesis unfolding w
      using j key km wt kne assms(3) [OF j(2)] by (simp add: varint_dec_enc item_fields_def it 1)
  next
    case (2 mem)
    have wt: "PB_GET_WTYPE ty = 0 \<or> PB_GET_WTYPE ty = 1 \<or> PB_GET_WTYPE ty = 2 \<or> PB_GET_WTYPE ty = 5"
      using 2(3) by (rule pb_mem_ok_wt)
    then have w: "pb_wire [it] 1 = pb_key f ty @ pb_value ty l mem"
      using 2 by (auto simp: it pb_key_def pb_value_def pb_mem_ok_def Let_def)
    obtain j where j: "k = Suc j" "length r \<le> j" using ksuc [OF w] by blast
    have fs: "wire_parse j r = Some fs" using assms(3) j(2) .
    have "wire_parse (Suc j) ((pb_key f ty @ pb_value ty l mem) @ r) = Some (item_fields (Item ty f (Mem mem) l) @ fs)"
      using wt
    proof (elim disjE)
      assume "PB_GET_WTYPE ty = 0"
      then show ?thesis using 2(3) key km kne fs
        by (simp add: varint_dec_enc item_fields_def pb_value_def pb_mem_ok_def)
    next
      assume "PB_GET_WTYPE ty = 1"
      then show ?thesis using 2(3) key km kne fs
        by (simp add: item_fields_def pb_value_def pb_mem_ok_def)
    next
      assume "PB_GET_WTYPE ty = 2"
      then show ?thesis using 2(3) key km kne fs
        by (simp add: varint_dec_enc item_fields_def pb_value_def pb_mem_ok_def)
    next
      assume "PB_GET_WTYPE ty = 5"
      then show ?thesis using 2(3) key km kne fs
        by (simp add: item_fields_def pb_value_def pb_mem_ok_def)
    qed
    then show ?thesis unfolding w j(1) by (simp only: it 2(1))
  next
    case (3 mem)
    then have w: "pb_wire [it] 1 = []" using pb_skip_step(2) it by blast
    have "item_fields it = []" using 3 by (auto simp: it item_fields_def Let_def PB_GET_WTYPE_def)
    then show ?thesis unfolding w using assms(2,3) w by simp
  qed
qed

lemma wire_parse_run:
  "\<lbrakk>pb_wf ms n; length (pb_wire ms n) \<le> k\<rbrakk> \<Longrightarrow>
   wire_parse k (pb_wire ms n) = Some (concat (map item_fields (take n ms)))"
proof (induction n arbitrary: ms k)
  case 0
  then show ?case by (cases k) simp_all
next
  case (Suc n)
  obtain it ms' where ms: "ms = it # ms'" using Suc.prems by (cases ms) auto
  have "pb_wf ms' n" using Suc.prems(1) ms by (cases it) simp
  then show ?case
    using wire_parse_item [of it ms' n "pb_wire ms' n" k] Suc.IH [of ms'] Suc.prems
    unfolding ms pb_wire_Cons [of it] by simp
qed



text \<open>The variable-length integers alone: with ten bytes of room every 64-bit value is written as
  its base-128 encoding, which decodes to the value again whatever follows.\<close>

theorem pb_encode_varint_roundtrip:
  assumes "10 \<le> sint size32" and "p + 10 \<le> length buf"
  shows "\<exists>enc. pb_encode_varint False v buf p size32 =
      Some (int (length enc), take p buf @ enc @ drop (p + length enc) buf) \<and>
    length enc \<le> 10 \<and> varint_dec (enc @ rest) = Some (unat v, rest)"
proof -
  have "unat v < 128 ^ 10" using unsigned_less [of v, where ?'a=nat] by simp
  then have l: "length (varint_enc (unat v)) \<le> 10" by (rule varint_enc_length) simp
  have "pb_encode_varint False v (take p buf @ drop p buf) p size32 =
      Some (int (length (varint_enc (unat v))), take p buf @ varint_enc (unat v) @
        drop (length (varint_enc (unat v))) (drop p buf))"
    using assms l by (intro pb_encode_varint_eq) auto
  then show ?thesis using l varint_dec_enc by (intro exI [of _ "varint_enc (unat v)"]) (simp add: add.commute)
qed

lemma pb_encode_varint_roundtrip_witness:
  "\<exists>enc. pb_encode_varint False 300 (replicate 12 0) 1 11 =
      Some (int (length enc), take 1 (replicate 12 0) @ enc @ drop (1 + length enc) (replicate 12 0)) \<and>
    length enc \<le> 10 \<and> varint_dec (enc @ []) = Some (unat (300 :: u64), [])"
  by (rule pb_encode_varint_roundtrip) simp_all

text \<open>A length-delimited value is copied before any check of the room for it: when the header and
  the length byte fit in the buffer but the data does not, the encoder writes past the end of the
  buffer instead of returning \<^verbatim>\<open>PB_ERR_ENCBUF\<close>.\<close>

theorem pb_pack_ld_overflow:
  assumes "f \<noteq> 0" "f < 15" and "l < 128" "unat l \<le> length mem"
    and "length buf = unat size32" "2 \<le> unat size32" "unat size32 < 2 + unat l"
  shows "pb_pack False stk [Item PB_WT_LD f (Mem mem) l] 1 buf 0 size32 = None"
proof -
  have wt: "PB_GET_WTYPE 2 = 2" by (simp add: PB_GET_WTYPE_def)
  have fb: "unat f < 15" "0 < unat f" using assms(1,2) by (simp_all add: word_less_nat_alt unat_gt_0)
  have l: "unat l < 128" using assms(3) by (simp add: word_less_nat_alt)
  have uf: "unat (ucast f :: u32) = unat f" using fb by (simp add: unsigned_ucast_eq take_bit_nat_eq_self)
  have ok: "\<not> ((ucast f :: u32) = 0 \<or> (ucast f :: u32) > 0x1fffffff \<or>
      ((ucast f :: u32) \<ge> 19000 \<and> (ucast f :: u32) \<le> 19999))"
    using fb uf by (auto simp: word_less_nat_alt word_le_nat_alt word_unat_eq_iff)
  have h: "PB_SET_HEADER (ucast f) 2 < 0x7f"
    using pb_header_value [of f 2] fb wt by (simp add: word_less_nat_alt)
  obtain b0 where hd: "pb_encode_header False stk buf 0 size32 2 (ucast f) = Some (1, buf[0 := b0])"
    using ok h assms(5,6) unfolding pb_encode_header_def Let_def by (simp only: if_False if_True) (simp add: wr_def)
  have "(ucast l :: u64) \<le> 0x7f"
    using l by (simp add: word_le_nat_alt unsigned_ucast_eq take_bit_nat_eq_self)
  then obtain b1 where v: "pb_encode_varint False (ucast l) (buf[0 := b0]) 1 (size32 - 1) = Some (1, (buf[0 := b0])[1 := b1])"
    using assms(5,6) by (simp add: pb_encode_varint_def wr_def)
  have ld: "pb_pack_ld False mem l (buf[0 := b0]) 1 (size32 - 1) = None"
    using v assms(4,5,7) by (simp add: pb_pack_ld_def)
  have "pb_encode False 2 mem l (buf[0 := b0]) 1 (size32 - 1) = None"
    using ld by (simp add: pb_encode_def)
  then show ?thesis
    using hd unfolding pb_pack_def One_nat_def pb_pack_items.simps(3) PB_WT_LD_def
    by (simp add: Let_def wt IS_EMB_MSG_def PB_WT_VARINT_def)
qed

lemma pb_pack_ld_overflow_witness:
  "pb_pack False [] [Item PB_WT_LD 1 (Mem [1, 2, 3]) 3] 1 [0, 0, 0, 0] 0 4 = None"
  using pb_pack_ld_overflow [of 1 3 "[1, 2, 3]" "[0, 0, 0, 0]" 4 "[]"] by simp

end
