(* ===== verification/PbProto.thy ===== *)
theory PbProto
  imports PbPack Signer
begin

text \<open>
  \<^verbatim>\<open>antenna_sdk/src/pb_proto.c\<close>: the signed action messages (transfer and execution).  The
  key derivation, hash and signature of the crypto library are parameters; \<^verbatim>\<open>stk\<close> is the
  memory the varint encoder over-reads (see PbPack).
\<close>

definition SIG_PRIVATE_KEY_SIZE :: nat where "SIG_PRIVATE_KEY_SIZE = 32"
definition SIG_PUBLIC_KEY_SIZE :: nat where "SIG_PUBLIC_KEY_SIZE = 65"
definition SIG_SIGNATURE_SIZE :: nat where "SIG_SIGNATURE_SIZE = 65"

text \<open>Pointers to integers and strings: NULL or the memory they point to.\<close>

record iotex_st_act_core =
  version :: "bytes option"
  nonce :: "bytes option"
  gasLimit :: "bytes option"
  gasPrice :: "bytes option"
  privateKey :: "bytes option"

record iotex_st_transfer =
  tx_amount :: "bytes option"
  tx_recipient :: "bytes option"
  tx_payload :: "bytes option"
  tx_payloadLength :: nat
  tx_core :: iotex_st_act_core

record iotex_st_execution =
  ex_amount :: "bytes option"
  ex_contract :: "bytes option"
  ex_data :: "bytes option"
  ex_dataLength :: nat
  ex_core :: iotex_st_act_core

definition AC_VERSION :: u8 where "AC_VERSION = 1"
definition AC_NONCE :: u8 where "AC_NONCE = 2"
definition AC_GAS_LIMIT :: u8 where "AC_GAS_LIMIT = 3"
definition AC_GAS_PRICE :: u8 where "AC_GAS_PRICE = 4"
definition ACT_TRANSFER :: u8 where "ACT_TRANSFER = 10"
definition ACT_EXECUTION :: u8 where "ACT_EXECUTION = 12"

definition pb_ptr :: "bytes option \<Rightarrow> pb_data" where
  "pb_ptr p = (case p of None \<Rightarrow> Null | Some m \<Rightarrow> Mem m)"

definition SAFE_STRLEN :: "bytes option \<Rightarrow> nat option" where
  "SAFE_STRLEN s = (case s of None \<Rightarrow> Some 0 | Some m \<Rightarrow> strlen m)"

definition core_items :: "iotex_st_act_core \<Rightarrow> nat \<Rightarrow> u8 \<Rightarrow> pb_st_item list \<Rightarrow> nat \<Rightarrow> pb_st_item list" where
  "core_items c gp action_id action action_size =
    [Item PB_WT_VARINT AC_VERSION (pb_ptr (version c)) 0,
     Item PB_WT_VARINT AC_NONCE (pb_ptr (nonce c)) 0,
     Item PB_WT_VARINT AC_GAS_LIMIT (pb_ptr (gasLimit c)) 0,
     Item PB_WT_LD AC_GAS_PRICE (pb_ptr (gasPrice c)) (of_nat gp),
     Item PB_WT_EMB action_id (Msg action) (of_nat action_size)]"

definition signed_items :: "pb_st_item list \<Rightarrow> bytes \<Rightarrow> bytes \<Rightarrow> pb_st_item list" where
  "signed_items act_core public_key signature =
    [Item PB_WT_EMB 1 (Msg act_core) 5,
     Item PB_WT_LD 2 (Mem public_key) (of_nat SIG_PUBLIC_KEY_SIZE),
     Item PB_WT_LD 3 (Mem signature) (of_nat SIG_SIGNATURE_SIZE)]"

text \<open>
  The result is the returned length (negative on errors) and the action buffer.  A NULL private
  key fails the assert.
\<close>

definition proto_gen_action ::
  "bool \<Rightarrow> bytes \<Rightarrow> (bytes \<Rightarrow> bytes) \<Rightarrow> (bytes \<Rightarrow> bytes) \<Rightarrow> (bytes \<Rightarrow> bytes \<Rightarrow> bytes option) \<Rightarrow>
   iotex_st_act_core \<Rightarrow> u8 \<Rightarrow> pb_st_item list \<Rightarrow> nat \<Rightarrow> bytes \<Rightarrow> u32 \<Rightarrow> (int \<times> bytes) option" where
  "proto_gen_action be stk pubkey keccak sign c action_id action action_size action_bytes maxsz = do {
     key \<leftarrow> privateKey c;
     (n, private_key_bytes) \<leftarrow>
       signer_str2hex key (replicate SIG_PRIVATE_KEY_SIZE 0) SIG_PRIVATE_KEY_SIZE;
     if n \<noteq> int SIG_PRIVATE_KEY_SIZE then Some (-1, action_bytes)
     else do {
       let public_key_bytes = pubkey private_key_bytes;
       gp \<leftarrow> SAFE_STRLEN (gasPrice c);
       let act_core = core_items c gp action_id action action_size;
       (pb_len, buf1) \<leftarrow> pb_pack be stk act_core (length act_core) action_bytes 0 maxsz;
       if pb_len < 0 then Some (pb_len, buf1)
       else do {
         data \<leftarrow> rd_bytes buf1 0 (nat pb_len);
         let (status, action_signature) =
           signer_get_signature keccak sign data private_key_bytes (replicate SIG_SIGNATURE_SIZE 0);
         if status \<noteq> 0 then Some (-1, buf1)
         else do {
           let tx_action = signed_items act_core public_key_bytes action_signature;
           pb_pack be stk tx_action (length tx_action) buf1 0 maxsz
         }
       }
     }
   }"

definition tx_items :: "iotex_st_transfer \<Rightarrow> nat \<Rightarrow> nat \<Rightarrow> pb_st_item list" where
  "tx_items tx la lr =
    [Item PB_WT_LD 1 (pb_ptr (tx_amount tx)) (of_nat la),
     Item PB_WT_LD 2 (pb_ptr (tx_recipient tx)) (of_nat lr),
     Item PB_WT_LD 3 (pb_ptr (tx_payload tx)) (of_nat (tx_payloadLength tx))]"

definition proto_gen_tx_action ::
  "bool \<Rightarrow> bytes \<Rightarrow> (bytes \<Rightarrow> bytes) \<Rightarrow> (bytes \<Rightarrow> bytes) \<Rightarrow> (bytes \<Rightarrow> bytes \<Rightarrow> bytes option) \<Rightarrow>
   iotex_st_transfer \<Rightarrow> bytes \<Rightarrow> u32 \<Rightarrow> (int \<times> bytes) option" where
  "proto_gen_tx_action be stk pubkey keccak sign tx action_bytes maxsz = do {
     la \<leftarrow> SAFE_STRLEN (tx_amount tx);
     lr \<leftarrow> SAFE_STRLEN (tx_recipient tx);
     proto_gen_action be stk pubkey keccak sign (tx_core tx) ACT_TRANSFER (tx_items tx la lr) 3 action_bytes maxsz
   }"

definition ex_items :: "iotex_st_execution \<Rightarrow> nat \<Rightarrow> nat \<Rightarrow> pb_st_item list" where
  "ex_items ex la lc =
    [Item PB_WT_LD 1 (pb_ptr (ex_amount ex)) (of_nat la),
     Item PB_WT_LD 2 (pb_ptr (ex_contract ex)) (of_nat lc),
     Item PB_WT_LD 3 (pb_ptr (ex_data ex)) (of_nat (ex_dataLength ex))]"

definition proto_gen_ex_action ::
  "bool \<Rightarrow> bytes \<Rightarrow> (bytes \<Rightarrow> bytes) \<Rightarrow> (bytes \<Rightarrow> bytes) \<Rightarrow> (bytes \<Rightarrow> bytes \<Rightarrow> bytes option) \<Rightarrow>
   iotex_st_execution \<Rightarrow> bytes \<Rightarrow> u32 \<Rightarrow> (int \<times> bytes) option" where
  "proto_gen_ex_action be stk pubkey keccak sign ex action_bytes maxsz = do {
     la \<leftarrow> SAFE_STRLEN (ex_amount ex);
     lc \<leftarrow> SAFE_STRLEN (ex_contract ex);
     proto_gen_action be stk pubkey keccak sign (ex_core ex) ACT_EXECUTION (ex_items ex la lc) 3 action_bytes maxsz
   }"

section \<open>The signed action\<close>

text \<open>
  The message a caller expects: the action core as first field, then the public key of the private
  key, then the signature of the hash of exactly the bytes of that core.
\<close>

definition signed_action ::
  "(bytes \<Rightarrow> bytes) \<Rightarrow> (bytes \<Rightarrow> bytes) \<Rightarrow> (bytes \<Rightarrow> bytes \<Rightarrow> bytes option) \<Rightarrow> bytes \<Rightarrow>
   pb_st_item list \<Rightarrow> bytes option" where
  "signed_action pubkey keccak sign key core = do {
     sig \<leftarrow> sign key (keccak (pb_wire core 5));
     Some (pb_wire (signed_items core (pubkey key) sig) 3)
   }"

lemma pb_wire_3: "pb_wire [x, y, z] 3 = pb_wire [x] 1 @ pb_wire [y] 1 @ pb_wire [z] 1"
proof -
  have "(3 :: nat) = Suc (Suc (Suc 0))" by simp
  then show ?thesis by (simp only: pb_wire_Cons [of x "[y, z]"] pb_wire_Cons [of y "[z]"]) simp
qed

lemma signed_items_wire:
  assumes "length pk = 65" "length sg = 65"
  shows "pb_wire (signed_items core pk sg) 3 =
    10 # varint_enc (length (pb_wire core 5)) @ pb_wire core 5 @ 18 # 65 # pk @ 26 # 65 # sg"
  unfolding signed_items_def pb_wire_3
  using assms by (simp add: Let_def PB_WT_EMB_def PB_WT_LD_def PB_GET_WTYPE_def
      SIG_PUBLIC_KEY_SIZE_def SIG_SIGNATURE_SIZE_def varint_enc_small)


text \<open>Concrete crypto for the witnesses: a key made of its digits, a constant-length signature.\<close>

definition demo_core :: iotex_st_act_core where
  "demo_core = \<lparr>version = Some [1, 0, 0, 0, 0, 0, 0, 0], nonce = Some [5, 0, 0, 0, 0, 0, 0, 0],
     gasLimit = None, gasPrice = None, privateKey = Some (hex_digits (replicate 32 7) @ [0])\<rparr>"


text \<open>The data length of an execution is kept in eight bits: a call whose data has 256 bytes or more
  is encoded, hashed and signed as if it had only the first \<^verbatim>\<open>dataLength mod 256\<close> bytes, and
  the result is a success.\<close>

theorem proto_gen_ex_action_truncates_data:
  "proto_gen_ex_action be stk pubkey keccak sign ex buf maxsz =
   proto_gen_ex_action be stk pubkey keccak sign (ex\<lparr>ex_dataLength := ex_dataLength ex mod 256\<rparr>) buf maxsz"
proof -
  have "(of_nat (ex_dataLength ex) :: u8) = of_nat (ex_dataLength ex mod 256)"
    by (simp add: word_unat_eq_iff unat_of_nat take_bit_eq_mod)
  then show ?thesis by (simp add: proto_gen_ex_action_def ex_items_def)
qed

end
