(* ===== verification/Jsmn.thy ===== *)
theory Jsmn
  imports Prelude
begin

text \<open>
  \<^verbatim>\<open>antenna_sdk/src/jsmn.h\<close>: the JSON tokenizer the client uses, in the configuration it is
  compiled with (no parent links, not strict) and with a token array, as parse.c calls it.
  Positions and counts are naturals (\<^verbatim>\<open>unsigned int\<close> bounded by the text's length),
  \<^verbatim>\<open>toksuper\<close> and the token fields are integers.
\<close>

datatype jsmntype = JSMN_UNDEFINED | JSMN_OBJECT | JSMN_ARRAY | JSMN_STRING | JSMN_PRIMITIVE

record jsmntok =
  tok_type :: jsmntype
  tok_start :: int
  tok_end :: int
  tok_size :: int

record jsmn_parser =
  pos :: nat
  toknext :: nat
  toksuper :: int

definition JSMN_ERROR_NOMEM :: int where "JSMN_ERROR_NOMEM = -1"
definition JSMN_ERROR_INVAL :: int where "JSMN_ERROR_INVAL = -2"
definition JSMN_ERROR_PART :: int where "JSMN_ERROR_PART = -3"

definition jsmn_init :: jsmn_parser where
  "jsmn_init = \<lparr>pos = 0, toknext = 0, toksuper = -1\<rparr>"

text \<open>\<^verbatim>\<open>jsmn_alloc_token\<close>: the index of the fresh token, or none.\<close>

definition jsmn_alloc_token ::
  "jsmn_parser \<Rightarrow> jsmntok list \<Rightarrow> (nat \<times> jsmn_parser \<times> jsmntok list) option" where
  "jsmn_alloc_token p toks =
    (if toknext p \<ge> length toks then None
     else let i = toknext p in
       Some (i, p\<lparr>toknext := i + 1\<rparr>, toks[i := (toks ! i)\<lparr>tok_start := -1, tok_end := -1, tok_size := 0\<rparr>]))"

definition jsmn_fill_token :: "jsmntype \<Rightarrow> int \<Rightarrow> int \<Rightarrow> jsmntok" where
  "jsmn_fill_token ty s e = \<lparr>tok_type = ty, tok_start = s, tok_end = e, tok_size = 0\<rparr>"

section \<open>Primitives\<close>

definition primitive_end :: "u8 \<Rightarrow> bool" where
  "primitive_end c \<longleftrightarrow> c \<in> set (asc '':,]}'') \<or> c \<in> {9, 13, 10, 32}"

text \<open>The scan stops at the end of the primitive (with True) or at a forbidden character.\<close>

function primitive_scan :: "bytes \<Rightarrow> nat \<Rightarrow> nat \<Rightarrow> (nat \<times> bool) option" where
  "primitive_scan js len q =
    (if q < len then
       (case rd js q of
          None \<Rightarrow> None
        | Some c \<Rightarrow>
            if c = 0 \<or> primitive_end c then Some (q, True)
            else if c < 32 \<or> c \<ge> 127 then Some (q, False)
            else primitive_scan js len (Suc q))
     else Some (q, True))"
  by pat_completeness auto
termination
  by (relation "measure (\<lambda>(_, len, q). len - q)") auto

definition jsmn_parse_primitive ::
  "jsmn_parser \<Rightarrow> bytes \<Rightarrow> nat \<Rightarrow> jsmntok list \<Rightarrow> (int \<times> jsmn_parser \<times> jsmntok list) option" where
  "jsmn_parse_primitive p js len toks =
    (let start = pos p in
     case primitive_scan js len start of
       None \<Rightarrow> None
     | Some (q, False) \<Rightarrow> Some (JSMN_ERROR_INVAL, p, toks)
     | Some (q, True) \<Rightarrow>
         (case jsmn_alloc_token p toks of
            None \<Rightarrow> Some (JSMN_ERROR_NOMEM, p, toks)
          | Some (i, p1, toks1) \<Rightarrow>
              Some (0, p1\<lparr>pos := q - 1\<rparr>, toks1[i := jsmn_fill_token JSMN_PRIMITIVE (int start) (int q)])))"

section \<open>Strings\<close>

definition is_hex :: "u8 \<Rightarrow> bool" where
  "is_hex c \<longleftrightarrow> (48 \<le> c \<and> c \<le> 57) \<or> (65 \<le> c \<and> c \<le> 70) \<or> (97 \<le> c \<and> c \<le> 102)"

text \<open>The up to four hex digits of an escape: the position behind them, or none for another character.\<close>

fun hex_scan :: "bytes \<Rightarrow> nat \<Rightarrow> nat \<Rightarrow> nat \<Rightarrow> nat option option" where
  "hex_scan js len 0 q = Some (Some q)"
| "hex_scan js len (Suc n) q =
    (if q < len then
       (case rd js q of
          None \<Rightarrow> None
        | Some c \<Rightarrow>
            if c = 0 then Some (Some q)
            else if is_hex c then hex_scan js len n (Suc q)
            else Some None)
     else Some (Some q))"

datatype scan = Quote nat | Invalid | Partial

lemma hex_scan_ge: "hex_scan js len n q = Some (Some q') \<Longrightarrow> q \<le> q'"
  by (induction js len n q rule: hex_scan.induct) (auto split: if_splits option.splits)

function string_scan :: "bytes \<Rightarrow> nat \<Rightarrow> nat \<Rightarrow> scan option" where
  "string_scan js len q =
    (if q < len then
       (case rd js q of
          None \<Rightarrow> None
        | Some c \<Rightarrow>
            if c = 0 then Some Partial
            else if c = ch CHR 0x22 then Some (Quote q)
            else if c = ch CHR 0x5C \<and> q + 1 < len then
              (case rd js (q + 1) of
                 None \<Rightarrow> None
               | Some d \<Rightarrow>
                   if d \<in> {ch CHR 0x22, ch CHR ''/'', ch CHR 0x5C, ch CHR ''b'', ch CHR ''f'',
                            ch CHR ''r'', ch CHR ''n'', ch CHR ''t''}
                   then string_scan js len (q + 2)
                   else if d = ch CHR ''u'' then
                     (case hex_scan js len 4 (q + 2) of
                        None \<Rightarrow> None
                      | Some None \<Rightarrow> Some Invalid
                      | Some (Some q') \<Rightarrow> string_scan js len q')
                   else Some Invalid)
            else string_scan js len (Suc q))
     else Some Partial)"
  by pat_completeness auto
termination
  by (relation "measure (\<lambda>(_, len, q). len - q)") (auto dest!: hex_scan_ge)

declare primitive_scan.simps [simp del] string_scan.simps [simp del]

definition jsmn_parse_string ::
  "jsmn_parser \<Rightarrow> bytes \<Rightarrow> nat \<Rightarrow> jsmntok list \<Rightarrow> (int \<times> jsmn_parser \<times> jsmntok list) option" where
  "jsmn_parse_string p js len toks =
    (let start = pos p in
     case string_scan js len (start + 1) of
       None \<Rightarrow> None
     | Some Invalid \<Rightarrow> Some (JSMN_ERROR_INVAL, p, toks)
     | Some Partial \<Rightarrow> Some (JSMN_ERROR_PART, p, toks)
     | Some (Quote q) \<Rightarrow>
         (case jsmn_alloc_token p toks of
            None \<Rightarrow> Some (JSMN_ERROR_NOMEM, p, toks)
          | Some (i, p1, toks1) \<Rightarrow>
              Some (0, p1\<lparr>pos := q\<rparr>, toks1[i := jsmn_fill_token JSMN_STRING (int (start + 1)) (int q)])))"

section \<open>The tokenizer\<close>

definition tok_open :: "jsmntok \<Rightarrow> bool" where
  "tok_open t \<longleftrightarrow> tok_start t \<noteq> -1 \<and> tok_end t = -1"

text \<open>The backward searches for an open token, and for an open object or array.\<close>

fun find_open :: "jsmntok list \<Rightarrow> nat \<Rightarrow> nat option" where
  "find_open toks 0 = None"
| "find_open toks (Suc i) = (if tok_open (toks ! i) then Some i else find_open toks i)"

fun find_container :: "jsmntok list \<Rightarrow> nat \<Rightarrow> nat option" where
  "find_container toks 0 = None"
| "find_container toks (Suc i) =
    (if (tok_type (toks ! i) = JSMN_ARRAY \<or> tok_type (toks ! i) = JSMN_OBJECT) \<and> tok_open (toks ! i)
     then Some i else find_container toks i)"

text \<open>\<^verbatim>\<open>tokens[toksuper].size++\<close> when there is a superior token.\<close>

definition super_size_inc :: "int \<Rightarrow> jsmntok list \<Rightarrow> jsmntok list option" where
  "super_size_inc super toks =
    (if super = -1 then Some toks
     else if super < 0 then None
     else do { t \<leftarrow> rd toks (nat super); wr toks (nat super) (t\<lparr>tok_size := tok_size t + 1\<rparr>) })"

text \<open>
  One iteration of the main loop at a character: either an error code, or the parser, tokens and
  count with which the loop increment is reached.
\<close>

definition jsmn_step ::
  "jsmn_parser \<Rightarrow> bytes \<Rightarrow> nat \<Rightarrow> jsmntok list \<Rightarrow> int \<Rightarrow> u8 \<Rightarrow>
   (int + (jsmn_parser \<times> jsmntok list \<times> int)) option" where
  "jsmn_step p js len toks count c =
    (if c = ch CHR ''{'' \<or> c = ch CHR ''['' then
       (case jsmn_alloc_token p toks of
          None \<Rightarrow> Some (Inl JSMN_ERROR_NOMEM)
        | Some (i, p1, toks1) \<Rightarrow> do {
            toks2 \<leftarrow> super_size_inc (toksuper p1) toks1;
            t \<leftarrow> rd toks2 i;
            let ty = (if c = ch CHR ''{'' then JSMN_OBJECT else JSMN_ARRAY);
            toks3 \<leftarrow> wr toks2 i (t\<lparr>tok_type := ty, tok_start := int (pos p1)\<rparr>);
            Some (Inr (p1\<lparr>toksuper := int (toknext p1) - 1\<rparr>, toks3, count + 1))
          })
     else if c = ch CHR ''}'' \<or> c = ch CHR '']'' then
       (let ty = (if c = ch CHR ''}'' then JSMN_OBJECT else JSMN_ARRAY) in
        case find_open toks (toknext p) of
          None \<Rightarrow> Some (Inl JSMN_ERROR_INVAL)
        | Some i \<Rightarrow>
            if tok_type (toks ! i) \<noteq> ty then Some (Inl JSMN_ERROR_INVAL)
            else
              let toks' = toks[i := (toks ! i)\<lparr>tok_end := int (pos p) + 1\<rparr>];
                  super = (case find_open toks' (Suc i) of None \<Rightarrow> -1 | Some j \<Rightarrow> int j)
              in Some (Inr (p\<lparr>toksuper := super\<rparr>, toks', count)))
     else if c = ch CHR 0x22 then do {
       (r, p1, toks1) \<leftarrow> jsmn_parse_string p js len toks;
       if r < 0 then Some (Inl r)
       else do {
         toks2 \<leftarrow> super_size_inc (toksuper p1) toks1;
         Some (Inr (p1, toks2, count + 1))
       }
     }
     else if c = 9 \<or> c = 13 \<or> c = 10 \<or> c = 32 then Some (Inr (p, toks, count))
     else if c = ch CHR '':'' then Some (Inr (p\<lparr>toksuper := int (toknext p) - 1\<rparr>, toks, count))
     else if c = ch CHR '','' then
       (if toksuper p = -1 then Some (Inr (p, toks, count))
        else if toksuper p < 0 then None
        else do {
          t \<leftarrow> rd toks (nat (toksuper p));
          if tok_type t \<noteq> JSMN_ARRAY \<and> tok_type t \<noteq> JSMN_OBJECT then
            (case find_container toks (toknext p) of
               None \<Rightarrow> Some (Inr (p, toks, count))
             | Some i \<Rightarrow> Some (Inr (p\<lparr>toksuper := int i\<rparr>, toks, count)))
          else Some (Inr (p, toks, count))
        })
     else do {
       (r, p1, toks1) \<leftarrow> jsmn_parse_primitive p js len toks;
       if r < 0 then Some (Inl r)
       else do {
         toks2 \<leftarrow> super_size_inc (toksuper p1) toks1;
         Some (Inr (p1, toks2, count + 1))
       }
     })"

lemma primitive_scan_ge: "primitive_scan js len q = Some (q', b) \<Longrightarrow> q \<le> q' \<and> (q' \<le> len \<or> q' = q)"
proof (induction js len q rule: primitive_scan.induct)
  case (1 js len q)
  show ?case
  proof (cases "\<exists>c. q < len \<and> rd js q = Some c \<and> c \<noteq> 0 \<and> \<not> primitive_end c \<and> \<not> (c < 32 \<or> 127 \<le> c)")
    case True
    then obtain c where c: "q < len" "rd js q = Some c" "\<not> (c = 0 \<or> primitive_end c)" "\<not> (c < 32 \<or> 127 \<le> c)"
      by blast
    have "primitive_scan js len (Suc q) = Some (q', b)"
      using "1.prems" c by (subst (asm) primitive_scan.simps) simp
    then show ?thesis using "1.IH" [OF c] c(1) by auto
  next
    case False
    then show ?thesis using "1.prems" by (subst (asm) primitive_scan.simps) (auto split: if_splits option.splits)
  qed
qed

text \<open>What one step of the string scan does: it ends, or moves ahead.\<close>

lemma string_scan_step:
  assumes "string_scan js len q = Some r"
  obtains "r \<noteq> Quote q" "\<And>q'. r \<noteq> Quote q'" | "r = Quote q" "q < len"
  | q1 where "q < q1" "q < len" "string_scan js len q1 = Some r"
proof (cases "q < len")
  case False
  then show ?thesis using assms that(1) by (subst (asm) string_scan.simps) auto
next
  case True
  then obtain c where c: "rd js q = Some c"
    using assms by (subst (asm) string_scan.simps) (auto split: option.splits)
  consider "c = 0" | "c = ch CHR 0x22" | "c = ch CHR 0x5C" "q + 1 < len"
    | "c \<noteq> 0" "c \<noteq> ch CHR 0x22" "\<not> (c = ch CHR 0x5C \<and> q + 1 < len)" by blast
  then show ?thesis
  proof cases
    case 1
    then show ?thesis using assms True c that(1) by (subst (asm) string_scan.simps) auto
  next
    case 2
    then show ?thesis using assms True c that(2) by (subst (asm) string_scan.simps) auto
  next
    case 3
    then obtain d where d: "rd js (q + 1) = Some d"
      using assms True c by (subst (asm) string_scan.simps) (auto split: option.splits)
    show ?thesis
    proof (cases "d = ch CHR ''u''")
      case False
      then show ?thesis
        using assms True c d 3 that(1) that(3) [of "q + 2"] by (subst (asm) string_scan.simps) (auto split: if_splits)
    next
      case True
      have "r = Invalid \<or> (\<exists>q'. hex_scan js len 4 (q + 2) = Some (Some q') \<and> string_scan js len q' = Some r)"
        using assms \<open>q < len\<close> c d 3 True by (subst (asm) string_scan.simps) (auto split: option.splits)
      then show ?thesis using that(1) that(3) \<open>q < len\<close> hex_scan_ge by fastforce
    qed
  next
    case 4
    then show ?thesis using assms True c that(3) [of "Suc q"] by (subst (asm) string_scan.simps) (auto split: if_splits)
  qed
qed

lemma string_scan_bounds: "string_scan js len q = Some (Quote q') \<Longrightarrow> q \<le> q' \<and> q' < len"
proof (induction "len - q" arbitrary: q rule: less_induct)
  case less
  from less.prems show ?case
  proof (cases rule: string_scan_step)
    case (3 q1)
    then show ?thesis using less.hyps [of q1] by (simp add: diff_less_mono2)
  qed auto
qed

text \<open>A primitive that starts at an ordinary character is at least one character long.\<close>

lemma primitive_scan_progress:
  assumes "primitive_scan js len q = Some (q', True)" "q < len" "rd js q = Some c" "c \<noteq> 0" "\<not> primitive_end c"
  shows "q < q'"
  using assms by (subst (asm) primitive_scan.simps) (auto split: if_splits dest: primitive_scan_ge)

lemma jsmn_alloc_Some:
  "jsmn_alloc_token p toks = Some (i, p1, toks1) \<longleftrightarrow>
    i = toknext p \<and> i < length toks \<and> p1 = p\<lparr>toknext := Suc i\<rparr> \<and>
    toks1 = toks[i := (toks ! i)\<lparr>tok_start := -1, tok_end := -1, tok_size := 0\<rparr>]"
  by (auto simp: jsmn_alloc_token_def Let_def)

lemma jsmn_alloc_None: "jsmn_alloc_token p toks = None \<longleftrightarrow> length toks \<le> toknext p"
  by (auto simp: jsmn_alloc_token_def Let_def)

lemma jsmn_parse_primitive_cases:
  assumes "jsmn_parse_primitive p js len toks = Some (r, p1, toks1)"
  obtains "r < 0" "p1 = p" "toks1 = toks" "r = JSMN_ERROR_INVAL \<or> r = JSMN_ERROR_NOMEM"
  | q where "r = 0" "primitive_scan js len (pos p) = Some (q, True)" "toknext p < length toks"
      "p1 = p\<lparr>toknext := Suc (toknext p), pos := q - 1\<rparr>"
      "toks1 = toks[toknext p := jsmn_fill_token JSMN_PRIMITIVE (int (pos p)) (int q)]"
proof (cases "primitive_scan js len (pos p)")
  case (Some qb)
  obtain q b where qb: "qb = (q, b)" by (cases qb)
  show ?thesis
  proof (cases "b \<and> toknext p < length toks")
    case True
    then show ?thesis using assms Some qb that(2) [of q]
      by (simp add: jsmn_parse_primitive_def Let_def jsmn_alloc_token_def)
  next
    case False
    then show ?thesis using assms Some qb that(1)
      by (cases b) (simp_all add: jsmn_parse_primitive_def Let_def jsmn_alloc_token_def
          JSMN_ERROR_INVAL_def JSMN_ERROR_NOMEM_def)
  qed
qed (use assms in \<open>simp add: jsmn_parse_primitive_def\<close>)

lemma jsmn_parse_string_cases:
  assumes "jsmn_parse_string p js len toks = Some (r, p1, toks1)"
  obtains "r < 0" "p1 = p" "toks1 = toks"
      "r = JSMN_ERROR_INVAL \<or> r = JSMN_ERROR_NOMEM \<or> r = JSMN_ERROR_PART"
  | q where "r = 0" "pos p < q" "q < len" "toknext p < length toks"
      "p1 = p\<lparr>toknext := Suc (toknext p), pos := q\<rparr>"
      "toks1 = toks[toknext p := jsmn_fill_token JSMN_STRING (int (pos p + 1)) (int q)]"
proof (cases "string_scan js len (pos p + 1)")
  case (Some sc)
  show ?thesis
  proof (cases sc)
    case (Quote q)
    then have q: "pos p < q" "q < len" using string_scan_bounds [of js len "pos p + 1" q] Some by simp_all
    show ?thesis
    proof (cases "toknext p < length toks")
      case True
      then show ?thesis using assms Some Quote that(2) [of q] q
        by (simp add: jsmn_parse_string_def Let_def jsmn_alloc_token_def)
    next
      case False
      then show ?thesis using assms Some Quote that(1)
        by (simp add: jsmn_parse_string_def Let_def jsmn_alloc_token_def JSMN_ERROR_NOMEM_def)
    qed
  next
    case Invalid
    then show ?thesis using assms Some that(1)
      by (simp add: jsmn_parse_string_def Let_def JSMN_ERROR_INVAL_def)
  next
    case Partial
    then show ?thesis using assms Some that(1)
      by (simp add: jsmn_parse_string_def Let_def JSMN_ERROR_PART_def)
  qed
qed (use assms in \<open>simp add: jsmn_parse_string_def\<close>)

lemma jsmn_step_pos:
  assumes "jsmn_step p js len toks count c = Some (Inr (p1, toks1, count1))"
    and "pos p < len" "rd js (pos p) = Some c" "c \<noteq> 0"
  shows "pos p \<le> pos p1"
proof -
  consider "c = ch CHR ''{'' \<or> c = ch CHR ''[''" | "c = ch CHR ''}'' \<or> c = ch CHR '']''"
    | "c = ch CHR 0x22" | "c = 9 \<or> c = 13 \<or> c = 10 \<or> c = 32" | "c = ch CHR '':''" | "c = ch CHR '',''"
    | "\<not> primitive_end c" "c \<noteq> ch CHR ''{''" "c \<noteq> ch CHR ''[''" "c \<noteq> ch CHR 0x22"
    by (auto simp: primitive_end_def)
  then show ?thesis
  proof cases
    case 1
    then show ?thesis using assms(1)
      by (auto simp: jsmn_step_def bind_eq_Some_conv jsmn_alloc_Some split: option.splits)
  next
    case 2
    then show ?thesis using assms(1)
      by (auto simp: jsmn_step_def Let_def split: option.splits if_splits)
  next
    case 3
    then obtain r p' t' where "jsmn_parse_string p js len toks = Some (r, p', t')" "\<not> r < 0" "pos p1 = pos p'"
      using assms(1) by (auto simp: jsmn_step_def bind_eq_Some_conv split: if_splits)
    then show ?thesis by (elim jsmn_parse_string_cases) auto
  next
    case 4
    then show ?thesis using assms(1) by (auto simp: jsmn_step_def)
  next
    case 5
    then show ?thesis using assms(1) by (auto simp: jsmn_step_def)
  next
    case 6
    then show ?thesis using assms(1)
      by (auto simp: jsmn_step_def bind_eq_Some_conv split: if_splits option.splits)
  next
    case 7
    then obtain r p' t' where "jsmn_parse_primitive p js len toks = Some (r, p', t')" "\<not> r < 0" "pos p1 = pos p'"
      using assms(1) by (auto simp: jsmn_step_def primitive_end_def bind_eq_Some_conv split: if_splits)
    then show ?thesis
      by (elim jsmn_parse_primitive_cases) (use 7(1) assms(2-4) in \<open>auto dest: primitive_scan_progress\<close>)
  qed
qed

definition jsmn_finish :: "jsmn_parser \<Rightarrow> jsmntok list \<Rightarrow> int \<Rightarrow> int" where
  "jsmn_finish p toks count =
    (case find_open toks (toknext p) of None \<Rightarrow> count | Some _ \<Rightarrow> JSMN_ERROR_PART)"

function jsmn_loop ::
  "jsmn_parser \<Rightarrow> bytes \<Rightarrow> nat \<Rightarrow> jsmntok list \<Rightarrow> int \<Rightarrow> (int \<times> jsmn_parser \<times> jsmntok list) option"
where
  "jsmn_loop p js len toks count =
    (if pos p < len then
       (case rd js (pos p) of
          None \<Rightarrow> None
        | Some c \<Rightarrow>
            if c = 0 then Some (jsmn_finish p toks count, p, toks)
            else (case jsmn_step p js len toks count c of
                None \<Rightarrow> None
              | Some (Inl r) \<Rightarrow> Some (r, p, toks)
              | Some (Inr (p1, toks1, count1)) \<Rightarrow>
                  jsmn_loop (p1\<lparr>pos := Suc (pos p1)\<rparr>) js len toks1 count1))
     else Some (jsmn_finish p toks count, p, toks))"
  by pat_completeness auto
termination
  by (relation "measure (\<lambda>(p, _, len, _). len - pos p)") (auto dest: jsmn_step_pos)

declare jsmn_loop.simps [simp del]

definition jsmn_parse ::
  "jsmn_parser \<Rightarrow> bytes \<Rightarrow> nat \<Rightarrow> jsmntok list \<Rightarrow> (int \<times> jsmn_parser \<times> jsmntok list) option" where
  "jsmn_parse p js len toks = jsmn_loop p js len toks (int (toknext p))"

section \<open>Safety\<close>

text \<open>
  A token is complete (its text lies inside the input) or an object or array still open, begun at
  or before the current position.
\<close>

definition tok_ok :: "nat \<Rightarrow> nat \<Rightarrow> jsmntok \<Rightarrow> bool" where
  "tok_ok len q t \<longleftrightarrow> tok_type t \<noteq> JSMN_UNDEFINED \<and>
     (0 \<le> tok_start t \<and> tok_start t \<le> tok_end t \<and> tok_end t \<le> int len \<or>
      0 \<le> tok_start t \<and> tok_start t \<le> int q \<and> tok_end t = -1)"

definition jsmn_inv :: "nat \<Rightarrow> nat \<Rightarrow> jsmn_parser \<Rightarrow> jsmntok list \<Rightarrow> bool" where
  "jsmn_inv len q p toks \<longleftrightarrow> toknext p \<le> length toks \<and> -1 \<le> toksuper p \<and> toksuper p < int (toknext p) \<and>
     (\<forall>i<toknext p. tok_ok len q (toks ! i))"

lemma tok_ok_mono: "tok_ok len q t \<Longrightarrow> q \<le> q' \<Longrightarrow> tok_ok len q' t"
  by (auto simp: tok_ok_def)

lemma jsmn_inv_mono: "jsmn_inv len q p toks \<Longrightarrow> q \<le> q' \<Longrightarrow> jsmn_inv len q' p toks"
  by (auto simp: jsmn_inv_def intro: tok_ok_mono)

lemma tok_ok_size [simp]: "tok_ok len q (t\<lparr>tok_size := n\<rparr>) = tok_ok len q t"
  by (simp add: tok_ok_def)

lemma find_open_Some: "find_open toks n = Some i \<Longrightarrow> i < n \<and> tok_open (toks ! i)"
  by (induction n) (auto split: if_splits)

lemma find_open_None: "find_open toks n = None \<Longrightarrow> \<forall>i<n. \<not> tok_open (toks ! i)"
  by (induction n) (auto split: if_splits simp: less_Suc_eq)

lemma find_container_Some: "find_container toks n = Some i \<Longrightarrow> i < n \<and> tok_open (toks ! i)"
  by (induction n) (auto split: if_splits)

lemma super_size_inc_ok:
  assumes "-1 \<le> s" "s < int (length toks)"
  shows "\<exists>toks'. super_size_inc s toks = Some toks' \<and> length toks' = length toks \<and>
    (\<forall>i<length toks. \<exists>n. toks' ! i = (toks ! i)\<lparr>tok_size := n\<rparr>)"
proof (cases "s = -1")
  case True
  have "\<forall>i<length toks. \<exists>n. toks ! i = (toks ! i)\<lparr>tok_size := n\<rparr>"
  proof (intro allI impI)
    fix i
    show "\<exists>n. toks ! i = (toks ! i)\<lparr>tok_size := n\<rparr>" by (rule exI [of _ "tok_size (toks ! i)"]) simp
  qed
  then show ?thesis using True by (simp add: super_size_inc_def)
next
  case False
  let ?k = "nat s"
  have k: "?k < length toks" "\<not> s < 0" using assms False by auto
  let ?toks = "toks[?k := (toks ! ?k)\<lparr>tok_size := tok_size (toks ! ?k) + 1\<rparr>]"
  have "\<exists>n. ?toks ! i = (toks ! i)\<lparr>tok_size := n\<rparr>" if "i < length toks" for i
  proof (cases "i = ?k")
    case True
    then show ?thesis using that by auto
  next
    case False
    then show ?thesis by (intro exI [of _ "tok_size (toks ! i)"]) simp
  qed
  then show ?thesis using False k by (simp add: super_size_inc_def)
qed

lemma primitive_scan_total: "len \<le> length js \<Longrightarrow> \<exists>r. primitive_scan js len q = Some r"
proof (induction js len q rule: primitive_scan.induct)
  case (1 js len q)
  show ?case
  proof (cases "q < len \<and> \<not> (js ! q = 0 \<or> primitive_end (js ! q)) \<and> \<not> (js ! q < 32 \<or> 127 \<le> js ! q)")
    case True
    then obtain r where "primitive_scan js len (Suc q) = Some r" using 1 by auto
    then show ?thesis using True 1(2) by (subst primitive_scan.simps) auto
  next
    case False
    then show ?thesis using 1(2) by (subst primitive_scan.simps) auto
  qed
qed

lemma hex_scan_total: "len \<le> length js \<Longrightarrow> \<exists>r. hex_scan js len n q = Some r"
  by (induction js len n q rule: hex_scan.induct) auto

lemma string_scan_total: "len \<le> length js \<Longrightarrow> \<exists>r. string_scan js len q = Some r"
proof (induction "len - q" arbitrary: q rule: less_induct)
  case less
  have IH: "\<exists>r. string_scan js len q' = Some r" if "q < q'" "q < len" for q'
    using less that by (simp add: diff_less_mono2)
  show ?case
  proof (cases "q < len")
    case q: True
    then have r0: "rd js q = Some (js ! q)" using less.prems by simp
    consider "js ! q = 0 \<or> js ! q = ch CHR 0x22" | "js ! q = ch CHR 0x5C" "q + 1 < len"
      | "js ! q \<noteq> 0" "js ! q \<noteq> ch CHR 0x22" "\<not> (js ! q = ch CHR 0x5C \<and> q + 1 < len)" by blast
    then show ?thesis
    proof cases
      case 1
      then show ?thesis using q r0 by (subst string_scan.simps) auto
    next
      case 2
      then have r1: "rd js (Suc q) = Some (js ! Suc q)" using less.prems by simp
      obtain h where h: "hex_scan js len 4 (q + 2) = Some h" using hex_scan_total less.prems by blast
      show ?thesis
      proof (cases h)
        case None
        then show ?thesis using q r0 r1 2 h IH [of "q + 2"] by (subst string_scan.simps) auto
      next
        case (Some q')
        then have "q < q'" using hex_scan_ge h by fastforce
        then show ?thesis using q r0 r1 2 h Some IH [of "q + 2"] IH [of q']
          by (subst string_scan.simps) auto
      qed
    next
      case 3
      then show ?thesis using q r0 IH [of "Suc q"] by (subst string_scan.simps) auto
    qed
  qed (subst string_scan.simps, simp)
qed

lemma jsmn_parse_primitive_total:
  "len \<le> length js \<Longrightarrow> \<exists>r p1 toks1. jsmn_parse_primitive p js len toks = Some (r, p1, toks1)"
  using primitive_scan_total [of len js "pos p"]
  by (auto simp: jsmn_parse_primitive_def Let_def split: option.splits bool.splits)

lemma jsmn_parse_string_total:
  "len \<le> length js \<Longrightarrow> \<exists>r p1 toks1. jsmn_parse_string p js len toks = Some (r, p1, toks1)"
  using string_scan_total [of len js "pos p + 1"]
  by (auto simp: jsmn_parse_string_def Let_def split: option.splits scan.splits)

text \<open>A new token, and the size of its superior token: the invariant extends to the new count.\<close>

lemma jsmn_inv_add:
  assumes inv: "jsmn_inv len q p toks" and n: "toknext p < length toks" and t: "tok_ok len q t"
  shows "\<exists>toks2. super_size_inc (toksuper p) (toks[toknext p := t]) = Some toks2 \<and> length toks2 = length toks \<and>
    (\<exists>m. toks2 ! toknext p = t\<lparr>tok_size := m\<rparr>) \<and> (\<forall>i<Suc (toknext p). tok_ok len q (toks2 ! i))"
proof -
  let ?t = "toks[toknext p := t]"
  have "-1 \<le> toksuper p" "toksuper p < int (length ?t)" using inv n by (auto simp: jsmn_inv_def)
  then obtain toks2 where t2: "super_size_inc (toksuper p) ?t = Some toks2" "length toks2 = length ?t"
    and sz: "\<forall>i<length ?t. \<exists>m. toks2 ! i = (?t ! i)\<lparr>tok_size := m\<rparr>"
    using super_size_inc_ok by blast
  have "tok_ok len q (toks2 ! i)" if "i < Suc (toknext p)" for i
  proof -
    have "i < length ?t" using n that by simp
    then obtain m where "toks2 ! i = (?t ! i)\<lparr>tok_size := m\<rparr>" using sz by blast
    moreover have "tok_ok len q (?t ! i)"
      using inv n t that by (cases "i = toknext p") (auto simp: jsmn_inv_def less_Suc_eq)
    ultimately show ?thesis by simp
  qed
  moreover have "\<exists>m. toks2 ! toknext p = t\<lparr>tok_size := m\<rparr>"
    using sz [rule_format, of "toknext p"] n by simp
  ultimately show ?thesis using t2 by auto
qed

definition jsmn_step_good ::
  "nat \<Rightarrow> jsmn_parser \<Rightarrow> jsmntok list \<Rightarrow> int \<Rightarrow> (int + (jsmn_parser \<times> jsmntok list \<times> int)) option \<Rightarrow> bool" where
  "jsmn_step_good len p toks count res \<longleftrightarrow>
    (\<exists>r. res = Some (Inl r) \<and> (r = JSMN_ERROR_NOMEM \<or> r = JSMN_ERROR_INVAL \<or> r = JSMN_ERROR_PART)) \<or>
    (\<exists>p1 toks1 count1. res = Some (Inr (p1, toks1, count1)) \<and> jsmn_inv len (pos p1) p1 toks1 \<and>
       length toks1 = length toks \<and> count1 - int (toknext p1) = count - int (toknext p))"

lemma jsmn_step_goodI:
  "jsmn_inv len (pos p1) p1 toks1 \<Longrightarrow> length toks1 = length toks \<Longrightarrow>
   count1 - int (toknext p1) = count - int (toknext p) \<Longrightarrow>
   jsmn_step_good len p toks count (Some (Inr (p1, toks1, count1)))"
  by (simp add: jsmn_step_good_def)

lemma jsmn_step_ok_open:
  assumes inv: "jsmn_inv len (pos p) p toks" and q: "pos p < len" and c: "c = ch CHR ''{'' \<or> c = ch CHR ''[''"
  shows "jsmn_step_good len p toks count (jsmn_step p js len toks count c)"
proof (cases "toknext p < length toks")
  case False
  then show ?thesis using c
    by (auto simp: jsmn_step_good_def jsmn_step_def jsmn_alloc_token_def)
next
  case True
  let ?n = "toknext p"
  let ?t0 = "(toks ! ?n)\<lparr>tok_start := -1, tok_end := -1, tok_size := 0\<rparr>"
  let ?ty = "if c = ch CHR ''{'' then JSMN_OBJECT else JSMN_ARRAY"
  let ?toks1 = "toks[?n := ?t0]"
  have "-1 \<le> toksuper p" "toksuper p < int (length ?toks1)" using inv True by (auto simp: jsmn_inv_def)
  then obtain toks2 where t2: "super_size_inc (toksuper p) ?toks1 = Some toks2" "length toks2 = length toks"
    and sz: "\<forall>i<length toks. \<exists>m. toks2 ! i = (?toks1 ! i)\<lparr>tok_size := m\<rparr>"
    using super_size_inc_ok [of "toksuper p" ?toks1] by auto
  let ?toks3 = "toks2[?n := (toks2 ! ?n)\<lparr>tok_type := ?ty, tok_start := int (pos p)\<rparr>]"
  obtain m where m: "toks2 ! ?n = ?t0\<lparr>tok_size := m\<rparr>" using sz True by fastforce
  have "tok_ok len (pos p) (?toks3 ! i)" if i: "i < Suc ?n" for i
  proof (cases "i = ?n")
    case True
    then show ?thesis using m t2(2) \<open>toknext p < length toks\<close> by (simp add: tok_ok_def)
  next
    case False
    then have "i < ?n" "i < length toks" using i True by auto
    moreover obtain m where "toks2 ! i = (toks ! i)\<lparr>tok_size := m\<rparr>"
      using sz \<open>i < length toks\<close> False by (metis nth_list_update_neq)
    ultimately show ?thesis using inv False by (simp add: jsmn_inv_def)
  qed
  then have "jsmn_inv len (pos p) (p\<lparr>toknext := Suc ?n, toksuper := int ?n\<rparr>) ?toks3"
    using True t2(2) by (simp add: jsmn_inv_def)
  moreover have "jsmn_step p js len toks count c =
      Some (Inr (p\<lparr>toknext := Suc ?n, toksuper := int ?n\<rparr>, ?toks3, count + 1))"
    using c True t2 by (auto simp: jsmn_step_def jsmn_alloc_token_def Let_def)
  ultimately show ?thesis using t2(2) by (auto simp: jsmn_step_good_def)
qed

lemma jsmn_step_ok_close:
  assumes inv: "jsmn_inv len (pos p) p toks" and q: "pos p < len" and c: "c = ch CHR ''}'' \<or> c = ch CHR '']''"
  shows "jsmn_step_good len p toks count (jsmn_step p js len toks count c)"
proof (cases "find_open toks (toknext p)")
  case None
  then show ?thesis using c by (auto simp: jsmn_step_good_def jsmn_step_def)
next
  case (Some i)
  then have i: "i < toknext p" "tok_open (toks ! i)" using find_open_Some by auto
  let ?ty = "if c = ch CHR ''}'' then JSMN_OBJECT else JSMN_ARRAY"
  show ?thesis
  proof (cases "tok_type (toks ! i) = ?ty")
    case False
    then show ?thesis using c Some by (auto simp: jsmn_step_good_def jsmn_step_def Let_def)
  next
    case True
    let ?toks = "toks[i := (toks ! i)\<lparr>tok_end := int (pos p) + 1\<rparr>]"
    let ?s = "case find_open ?toks (Suc i) of None \<Rightarrow> -1 | Some j \<Rightarrow> int j"
    have "tok_ok len (pos p) (toks ! i)" using inv i by (simp add: jsmn_inv_def)
    then have "tok_ok len (pos p) ((toks ! i)\<lparr>tok_end := int (pos p) + 1\<rparr>)"
      using i(2) q by (auto simp: tok_ok_def tok_open_def)
    then have toks: "\<forall>k<toknext p. tok_ok len (pos p) (?toks ! k)"
      using inv i by (auto simp: jsmn_inv_def nth_list_update)
    have s: "-1 \<le> ?s" "?s < int (toknext p)"
    proof -
      have "-1 \<le> ?s \<and> ?s < int (toknext p)"
      proof (cases "find_open ?toks (Suc i)")
        case (Some j)
        then show ?thesis using find_open_Some [OF Some] i by simp
      qed simp
      then show "-1 \<le> ?s" "?s < int (toknext p)" by blast+
    qed
    have "jsmn_step p js len toks count c = Some (Inr (p\<lparr>toksuper := ?s\<rparr>, ?toks, count))"
      using c Some True by (auto simp: jsmn_step_def Let_def)
    moreover have "jsmn_inv len (pos p) (p\<lparr>toksuper := ?s\<rparr>) ?toks"
      using inv toks s by (simp add: jsmn_inv_def)
    ultimately show ?thesis by (auto simp: jsmn_step_good_def)
  qed
qed

lemma jsmn_step_ok_string:
  assumes inv: "jsmn_inv len (pos p) p toks" and len: "len \<le> length js"
  shows "jsmn_step_good len p toks count (jsmn_step p js len toks count (ch CHR 0x22))"
proof -
  obtain r p1 toks1 where run: "jsmn_parse_string p js len toks = Some (r, p1, toks1)"
    using jsmn_parse_string_total [OF len] by blast
  from run show ?thesis
  proof (cases rule: jsmn_parse_string_cases)
    case 1
    then show ?thesis using run by (auto simp: jsmn_step_good_def jsmn_step_def)
  next
    case (2 q)
    let ?t = "jsmn_fill_token JSMN_STRING (int (pos p + 1)) (int q)"
    have "tok_ok len q ?t" using 2 by (simp add: tok_ok_def jsmn_fill_token_def)
    moreover have "jsmn_inv len q p toks" using inv 2 by (intro jsmn_inv_mono [OF inv]) simp
    ultimately obtain toks2 where t2: "super_size_inc (toksuper p) toks1 = Some toks2"
      "length toks2 = length toks" "\<forall>i<Suc (toknext p). tok_ok len q (toks2 ! i)"
      using jsmn_inv_add [of len q p toks ?t] 2 by auto
    then have "jsmn_inv len q p1 toks2" using 2 inv by (simp add: jsmn_inv_def)
    then show ?thesis using run 2 t2 by (auto simp: jsmn_step_def intro!: jsmn_step_goodI)
  qed
qed

lemma jsmn_step_ok_primitive:
  assumes inv: "jsmn_inv len (pos p) p toks" and len: "len \<le> length js"
    and c: "\<not> primitive_end c" "c \<noteq> ch CHR ''{''" "c \<noteq> ch CHR ''[''" "c \<noteq> ch CHR 0x22"
    and q: "pos p < len" "js ! pos p = c" "c \<noteq> 0"
  shows "jsmn_step_good len p toks count (jsmn_step p js len toks count c)"
proof -
  obtain r p1 toks1 where run: "jsmn_parse_primitive p js len toks = Some (r, p1, toks1)"
    using jsmn_parse_primitive_total [OF len] by blast
  have step: "jsmn_step p js len toks count c = do {
       (r, p1, toks1) \<leftarrow> jsmn_parse_primitive p js len toks;
       if r < 0 then Some (Inl r)
       else do {
         toks2 \<leftarrow> super_size_inc (toksuper p1) toks1;
         Some (Inr (p1, toks2, count + 1)) } }"
    using c by (simp add: jsmn_step_def primitive_end_def)
  from run show ?thesis
  proof (cases rule: jsmn_parse_primitive_cases)
    case 1
    then show ?thesis using run step by (auto simp: jsmn_step_good_def)
  next
    case (2 e)
    have e: "pos p < e" using primitive_scan_progress [OF 2(2) q(1)] q c len by simp
    moreover have "e \<le> len" using primitive_scan_ge [OF 2(2)] e by simp
    ultimately have "tok_ok len (e - 1) (jsmn_fill_token JSMN_PRIMITIVE (int (pos p)) (int e))"
      by (simp add: tok_ok_def jsmn_fill_token_def)
    moreover have "jsmn_inv len (e - 1) p toks" using e by (intro jsmn_inv_mono [OF inv]) simp
    ultimately obtain toks2 where t2: "super_size_inc (toksuper p) toks1 = Some toks2"
      "length toks2 = length toks" "\<forall>i<Suc (toknext p). tok_ok len (e - 1) (toks2 ! i)"
      using jsmn_inv_add [of len "e - 1" p toks "jsmn_fill_token JSMN_PRIMITIVE (int (pos p)) (int e)"] 2 by auto
    then have "jsmn_inv len (e - 1) p1 toks2" using 2 inv by (simp add: jsmn_inv_def)
    then show ?thesis using run step 2 t2 by (auto intro!: jsmn_step_goodI)
  qed
qed

lemma jsmn_step_ok_rest:
  assumes inv: "jsmn_inv len (pos p) p toks"
    and c: "c = 9 \<or> c = 13 \<or> c = 10 \<or> c = 32 \<or> c = ch CHR '':'' \<or> c = ch CHR '',''"
  shows "jsmn_step_good len p toks count (jsmn_step p js len toks count c)"
proof (cases "c = ch CHR '',''")
  case True
  let ?k = "nat (toksuper p)"
  show ?thesis
  proof (cases "toksuper p = -1")
    case False
    then have k: "?k < length toks" "\<not> toksuper p < 0" using inv by (auto simp: jsmn_inv_def)
    obtain super where "jsmn_step p js len toks count c = Some (Inr (p\<lparr>toksuper := super\<rparr>, toks, count))"
      "-1 \<le> super" "super < int (toknext p)"
    proof (cases "tok_type (toks ! ?k) \<noteq> JSMN_ARRAY \<and> tok_type (toks ! ?k) \<noteq> JSMN_OBJECT")
      case t: True
      show ?thesis
      proof (cases "find_container toks (toknext p)")
        case None
        then show ?thesis using that [of "toksuper p"] True False k t inv
          by (auto simp: jsmn_step_def jsmn_inv_def)
      next
        case (Some i)
        then show ?thesis using that [of "int i"] True False k t find_container_Some [OF Some]
          by (auto simp: jsmn_step_def)
      qed
    next
      case t: False
      then show ?thesis using that [of "toksuper p"] True False k inv
        by (auto simp: jsmn_step_def jsmn_inv_def)
    qed
    then show ?thesis using inv by (auto simp: jsmn_inv_def intro!: jsmn_step_goodI)
  qed (use inv True in \<open>auto simp: jsmn_step_def intro!: jsmn_step_goodI\<close>)
next
  case False
  then show ?thesis using c inv
    by (auto simp: jsmn_step_def jsmn_inv_def intro!: jsmn_step_goodI)
qed

lemma jsmn_step_ok:
  assumes "jsmn_inv len (pos p) p toks" "len \<le> length js" "pos p < len" "js ! pos p = c" "c \<noteq> 0"
  shows "jsmn_step_good len p toks count (jsmn_step p js len toks count c)"
proof -
  consider "c = ch CHR ''{'' \<or> c = ch CHR ''[''" | "c = ch CHR ''}'' \<or> c = ch CHR '']''" | "c = ch CHR 0x22"
    | "c = 9 \<or> c = 13 \<or> c = 10 \<or> c = 32 \<or> c = ch CHR '':'' \<or> c = ch CHR '',''"
    | "\<not> primitive_end c" "c \<noteq> ch CHR ''{''" "c \<noteq> ch CHR ''[''" "c \<noteq> ch CHR 0x22"
    by (auto simp: primitive_end_def)
  then show ?thesis
    using assms jsmn_step_ok_open jsmn_step_ok_close jsmn_step_ok_string jsmn_step_ok_rest jsmn_step_ok_primitive
    by cases metis+
qed

lemma jsmn_loop_ok:
  assumes "jsmn_inv len (pos p) p toks" "len \<le> length js" "count = int (toknext p)"
  shows "\<exists>r p' toks'. jsmn_loop p js len toks count = Some (r, p', toks') \<and> length toks' = length toks \<and>
    (r < 0 \<and> (r = JSMN_ERROR_NOMEM \<or> r = JSMN_ERROR_INVAL \<or> r = JSMN_ERROR_PART) \<or>
     r = int (toknext p') \<and> toknext p' \<le> length toks' \<and>
     (\<forall>i<toknext p'. tok_type (toks' ! i) \<noteq> JSMN_UNDEFINED \<and> 0 \<le> tok_start (toks' ! i) \<and>
        tok_start (toks' ! i) \<le> tok_end (toks' ! i) \<and> tok_end (toks' ! i) \<le> int len))"
  using assms
proof (induction "len - pos p" arbitrary: p toks count rule: less_induct)
  case less
  have fin: ?case if "jsmn_loop p js len toks count = Some (jsmn_finish p toks count, p, toks)"
  proof (cases "find_open toks (toknext p)")
    case None
    then have "\<forall>i<toknext p. \<not> tok_open (toks ! i)" by (rule find_open_None)
    then have "\<forall>i<toknext p. tok_type (toks ! i) \<noteq> JSMN_UNDEFINED \<and> 0 \<le> tok_start (toks ! i) \<and>
        tok_start (toks ! i) \<le> tok_end (toks ! i) \<and> tok_end (toks ! i) \<le> int len"
      using less.prems(1) by (fastforce simp: jsmn_inv_def tok_ok_def tok_open_def)
    then show ?thesis using that None less.prems by (simp add: jsmn_finish_def jsmn_inv_def)
  next
    case (Some i)
    then show ?thesis using that by (simp add: jsmn_finish_def JSMN_ERROR_PART_def)
  qed
  show ?case
  proof (cases "pos p < len \<and> js ! pos p \<noteq> 0")
    case False
    then show ?thesis using less.prems(2) by (intro fin, subst jsmn_loop.simps) auto
  next
    case True
    let ?c = "js ! pos p"
    have rd: "rd js (pos p) = Some ?c" using True less.prems(2) by simp
    have "jsmn_step_good len p toks count (jsmn_step p js len toks count ?c)"
      using True less.prems by (intro jsmn_step_ok) auto
    then consider r where "jsmn_step p js len toks count ?c = Some (Inl r)"
        "r = JSMN_ERROR_NOMEM \<or> r = JSMN_ERROR_INVAL \<or> r = JSMN_ERROR_PART"
      | p1 toks1 count1 where "jsmn_step p js len toks count ?c = Some (Inr (p1, toks1, count1))"
        "jsmn_inv len (pos p1) p1 toks1" "length toks1 = length toks" "count1 = int (toknext p1)"
      using less.prems(3) by (auto simp: jsmn_step_good_def)
    then show ?thesis
    proof cases
      case 1
      then have "jsmn_loop p js len toks count = Some (r, p, toks)"
        using True rd by (subst jsmn_loop.simps) simp
      then show ?thesis using 1 by (auto simp: JSMN_ERROR_NOMEM_def JSMN_ERROR_INVAL_def JSMN_ERROR_PART_def)
    next
      case 2
      let ?p = "p1\<lparr>pos := Suc (pos p1)\<rparr>"
      have mono: "pos p \<le> pos p1" using jsmn_step_pos [OF 2(1) _ rd] True by simp
      have "jsmn_inv len (pos ?p) ?p toks1" using 2(2) jsmn_inv_mono [OF 2(2), of "Suc (pos p1)"]
        by (simp add: jsmn_inv_def)
      moreover have "jsmn_loop p js len toks count = jsmn_loop ?p js len toks1 count1"
        using True rd 2(1) by (subst jsmn_loop.simps) simp
      ultimately show ?thesis using less.hyps [of ?p toks1 count1] 2 mono True less.prems(2)
        by (simp add: diff_less_mono2 less_Suc_eq_le)
    qed
  qed
qed

text \<open>C13: On any input bytes and any token array, the tokenizer terminates, reads only the given part
  of the input and writes only inside the token array; it returns one of its three error codes or
  the number of tokens, and then every token is typed and closed and spans a part of the input.\<close>

theorem jsmn_parse_safe:
  assumes "len \<le> length js"
  shows "\<exists>r p toks'. jsmn_parse jsmn_init js len toks = Some (r, p, toks') \<and> length toks' = length toks \<and>
    (r < 0 \<and> (r = JSMN_ERROR_NOMEM \<or> r = JSMN_ERROR_INVAL \<or> r = JSMN_ERROR_PART) \<or>
     r = int (toknext p) \<and> toknext p \<le> length toks' \<and>
     (\<forall>i<toknext p. tok_type (toks' ! i) \<noteq> JSMN_UNDEFINED \<and> 0 \<le> tok_start (toks' ! i) \<and>
        tok_start (toks' ! i) \<le> tok_end (toks' ! i) \<and> tok_end (toks' ! i) \<le> int len))"
  unfolding jsmn_parse_def
  by (rule jsmn_loop_ok) (use assms in \<open>simp_all add: jsmn_inv_def jsmn_init_def\<close>)

lemma jsmn_parse_safe_witness:
  "\<exists>r p toks'. jsmn_parse jsmn_init (asc ''{}'') 2 [jsmn_fill_token JSMN_UNDEFINED 0 0] = Some (r, p, toks') \<and>
     length toks' = 1"
  using jsmn_parse_safe [of 2 "asc ''{}''" "[jsmn_fill_token JSMN_UNDEFINED 0 0]"] by fastforce

end
