(* ===== verification/JsonParse.thy ===== *)
theory JsonParse
  imports Jsmn U128 Endian
begin

text \<open>
  \<^verbatim>\<open>antenna_sdk/src/rule.c\<close> and \<^verbatim>\<open>parse.c\<close>: the rules that describe a response, their
  binding to the caller's structures, and the walk over the tokens that stores the values.  The
  memory the rules' pointers point into is one block of bytes and a pointer an offset in it; a rule
  array is the list of its entries up to the terminating NULL key.
\<close>

section \<open>Rules\<close>

datatype json_datatype = JSON_TYPE_UNDEFINED | JSON_TYPE_STR | JSON_TYPE_TIME | JSON_TYPE_ARRAY
  | JSON_TYPE_DOUBLE | JSON_TYPE_OBJECT | JSON_TYPE_NUMBER | JSON_TYPE_BOOLEAN | JSON_TYPE_NUMBER32
  | JSON_TYPE_NUMBER64

text \<open>The two functions that occur as \<^verbatim>\<open>array_element_bind\<close>.\<close>

datatype bind_fn = Rule_action_info_bind | Rule_validator_bind

datatype json_parse_rule = Rule
  (rkey: "bytes option")
  (rtype: json_datatype)
  (rsub: "json_parse_rule list option")
  (rvalue: "nat option")
  (rvalue_len: nat)
  (relem_type: json_datatype)
  (relem_size: nat)
  (rbind: "bind_fn option")
  (rcount: "nat option")

text \<open>A rule as the initialisers with trailing members left out write it.\<close>

definition mk_rule :: "string \<Rightarrow> json_datatype \<Rightarrow> json_parse_rule list option \<Rightarrow> nat option \<Rightarrow> nat \<Rightarrow> json_parse_rule" where
  "mk_rule k ty sub v n = Rule (Some (asc k)) ty sub v n JSON_TYPE_UNDEFINED 0 None None"

definition rule_key_matches :: "json_parse_rule \<Rightarrow> bytes \<Rightarrow> bool" where
  "rule_key_matches r key =
    (case rkey r of None \<Rightarrow> False | Some k \<Rightarrow> strneq (k @ [0]) (key @ [0]) (length key) = Some True)"

fun find_rule_by_key :: "json_parse_rule list \<Rightarrow> bytes \<Rightarrow> json_parse_rule option" where
  "find_rule_by_key [] key = None"
| "find_rule_by_key (r # rs) key =
    (if rkey r = None then None
     else if rule_key_matches r key then Some r
     else find_rule_by_key rs key)"

definition find_sub_rule_by_key :: "json_parse_rule list option \<Rightarrow> bytes \<Rightarrow> json_parse_rule list option" where
  "find_sub_rule_by_key rs key = do { l \<leftarrow> rs; r \<leftarrow> find_rule_by_key l key; rsub r }"

text \<open>An assignment through the pointer that \<^verbatim>\<open>find_rule_by_key\<close> returns.\<close>

fun update_rule_by_key ::
  "json_parse_rule list \<Rightarrow> bytes \<Rightarrow> (json_parse_rule \<Rightarrow> json_parse_rule) \<Rightarrow> json_parse_rule list" where
  "update_rule_by_key [] key f = []"
| "update_rule_by_key (r # rs) key f =
    (if rkey r = None then r # rs
     else if rule_key_matches r key then f r # rs
     else r # update_rule_by_key rs key f)"

definition set_value :: "nat \<Rightarrow> nat \<Rightarrow> json_parse_rule \<Rightarrow> json_parse_rule" where
  "set_value v n r =
    Rule (rkey r) (rtype r) (rsub r) (Some v) n (relem_type r) (relem_size r) (rbind r) (rcount r)"

definition map_sub :: "(json_parse_rule list \<Rightarrow> json_parse_rule list) \<Rightarrow> json_parse_rule \<Rightarrow> json_parse_rule" where
  "map_sub f r =
    Rule (rkey r) (rtype r) (map_option f (rsub r)) (rvalue r) (rvalue_len r) (relem_type r) (relem_size r)
      (rbind r) (rcount r)"

fun bind_rule_and_data :: "json_parse_rule list \<Rightarrow> (string \<times> nat \<times> nat) list \<Rightarrow> json_parse_rule list" where
  "bind_rule_and_data rs [] = rs"
| "bind_rule_and_data rs ((key, data, n) # bs) =
    bind_rule_and_data (update_rule_by_key rs (asc key) (set_value data n)) bs"

text \<open>
  The offsets are those of the members of \<^verbatim>\<open>iotex_st_action_info\<close> (all members are character
  arrays, so there is no padding) and of \<^verbatim>\<open>iotex_st_validator\<close>.
\<close>

definition SIZEOF_ACTION_INFO :: nat where "SIZEOF_ACTION_INFO = 693"
definition SIZEOF_VALIDATOR :: nat where "SIZEOF_VALIDATOR = 140"

definition rule_action_info_bind ::
  "json_parse_rule list option \<Rightarrow> nat option \<Rightarrow> json_parse_rule list option" where
  "rule_action_info_bind rule_chain element = do {
     chain \<leftarrow> rule_chain;
     e \<leftarrow> element;
     action_rule \<leftarrow> find_sub_rule_by_key (Some chain) (asc ''action'');
     action_core_rule \<leftarrow> find_sub_rule_by_key (Some action_rule) (asc ''core'');
     core_transfer_rule \<leftarrow> find_sub_rule_by_key (Some action_core_rule) (asc ''transfer'');
     let info = [(''actHash'', e + 420, 65), (''blkHash'', e + 485, 65), (''blkHeight'', e + 550, 0),
       (''sender'', e + 590, 42), (''gasFee'', e + 632, 0), (''timestamp'', e + 672, 21)];
     let action = [(''senderPubKey'', e + 242, 89), (''signature'', e + 331, 89)];
     let action_core = [(''nonce'', e, 0), (''version'', e + 40, 0), (''gasLimit'', e + 80, 0),
       (''gasPrice'', e + 120, 0)];
     let core_transfer = [(''amount'', e + 160, 0), (''recipient'', e + 200, 42)];
     Some (update_rule_by_key (bind_rule_and_data chain info) (asc ''action'')
       (map_sub (\<lambda>a. update_rule_by_key (bind_rule_and_data a action) (asc ''core'')
         (map_sub (\<lambda>c. update_rule_by_key (bind_rule_and_data c action_core) (asc ''transfer'')
           (map_sub (\<lambda>t. bind_rule_and_data t core_transfer)))))))
   }"

definition rule_validator_bind ::
  "json_parse_rule list option \<Rightarrow> nat option \<Rightarrow> json_parse_rule list option" where
  "rule_validator_bind rule_chain element = do {
     chain \<leftarrow> rule_chain;
     e \<leftarrow> element;
     details_rule \<leftarrow> find_sub_rule_by_key (Some chain) (asc ''details'');
     details_reward_rule \<leftarrow> find_sub_rule_by_key (Some details_rule) (asc ''reward'');
     let info = [(''id'', e, 16), (''status'', e + 16, 0)];
     let details = [(''locktime'', e + 60, 0), (''minimum_amount'', e + 100, 0)];
     let details_reward = [(''annual'', e + 20, 0)];
     Some (update_rule_by_key (bind_rule_and_data chain info) (asc ''details'')
       (map_sub (\<lambda>d. update_rule_by_key (bind_rule_and_data d details) (asc ''reward'')
         (map_sub (\<lambda>r. bind_rule_and_data r details_reward)))))
   }"

definition run_bind :: "bind_fn \<Rightarrow> json_parse_rule list option \<Rightarrow> nat option \<Rightarrow> json_parse_rule list option" where
  "run_bind f rs e = (case f of
     Rule_action_info_bind \<Rightarrow> rule_action_info_bind rs e
   | Rule_validator_bind \<Rightarrow> rule_validator_bind rs e)"

section \<open>Values\<close>

text \<open>\<^verbatim>\<open>strndup(json + start, n)\<close>, which is taken to find memory.\<close>

definition strndup :: "bytes \<Rightarrow> int \<Rightarrow> nat \<Rightarrow> bytes option" where
  "strndup json start n =
    (if 0 \<le> start \<and> nat start \<le> length json \<and>
        (nat start + n \<le> length json \<or> 0 \<in> set (drop (nat start) json))
     then Some (cstr (take n (drop (nat start) json)) @ [0]) else None)"

text \<open>\<^verbatim>\<open>atoi\<close> and \<^verbatim>\<open>atoll\<close>: undefined when the value is out of the type's range.\<close>

definition is_space :: "u8 \<Rightarrow> bool" where
  "is_space c \<longleftrightarrow> c = 32 \<or> (9 \<le> c \<and> c \<le> 13)"

definition c_integer :: "bytes \<Rightarrow> int" where
  "c_integer s =
    (let t = dropWhile is_space s;
         neg = (t \<noteq> [] \<and> hd t = ch CHR ''-'');
         u = (if t \<noteq> [] \<and> (hd t = ch CHR ''-'' \<or> hd t = ch CHR ''+'') then tl t else t);
         v = int (dec_val (takeWhile is_digit u))
     in if neg then - v else v)"

definition c_atoi :: "bytes \<Rightarrow> u32 option" where
  "c_atoi s = (let v = c_integer s in if - (2 ^ 31) \<le> v \<and> v < 2 ^ 31 then Some (of_int v) else None)"

definition c_atoll :: "bytes \<Rightarrow> u64 option" where
  "c_atoll s = (let v = c_integer s in if - (2 ^ 63) \<le> v \<and> v < 2 ^ 63 then Some (of_int v) else None)"

definition tok_len :: "jsmntok \<Rightarrow> nat" where
  "tok_len t = unat (of_int (tok_end t - tok_start t) :: u32)"

definition jsoneq :: "bytes \<Rightarrow> jsmntok \<Rightarrow> bytes \<Rightarrow> bool option" where
  "jsoneq json t s =
    (if tok_type t = JSMN_STRING \<and> int (length s) = tok_end t - tok_start t then
       (if tok_start t < 0 then None else strneq (drop (nat (tok_start t)) json) (s @ [0]) (tok_len t))
     else Some False)"

text \<open>
  The scalar cases of the switch: the memory after storing the value of token \<^verbatim>\<open>v\<close>, or
  unchanged when the types do not fit; and what is added to \<^verbatim>\<open>processed_tok\<close>.  \<^verbatim>\<open>atof\<close> of
  the C library is a parameter (the eight bytes of the result).
\<close>

definition is_scalar :: "jsmntok \<Rightarrow> bool" where
  "is_scalar v \<longleftrightarrow> tok_type v = JSMN_STRING \<or> tok_type v = JSMN_PRIMITIVE"

definition store_scalar ::
  "bool \<Rightarrow> (bytes \<Rightarrow> bytes) \<Rightarrow> bytes \<Rightarrow> json_parse_rule \<Rightarrow> jsmntok \<Rightarrow> bytes \<Rightarrow> (nat \<times> bytes) option" where
  "store_scalar be atof json r v mem =
    (case (rtype r, rvalue r) of
       (JSON_TYPE_STR, Some d) \<Rightarrow>
         if tok_type v = JSMN_STRING \<and> rvalue_len r \<noteq> 0 then do {
           m1 \<leftarrow> wr_bytes mem d (replicate (rvalue_len r) 0);
           guard (0 \<le> tok_start v);
           src \<leftarrow> rd_bytes json (nat (tok_start v)) (min (rvalue_len r) (tok_len v));
           m2 \<leftarrow> wr_bytes m1 d src;
           Some (2, m2) }
         else Some (0, mem)
     | (JSON_TYPE_TIME, Some d) \<Rightarrow>
         if tok_type v = JSMN_STRING \<and> rvalue_len r \<noteq> 0 then do {
           m1 \<leftarrow> wr_bytes mem d (replicate (rvalue_len r) 0);
           guard (0 \<le> tok_start v);
           src \<leftarrow> rd_bytes json (nat (tok_start v)) (min (rvalue_len r) (tok_len v));
           m2 \<leftarrow> wr_bytes m1 d src;
           Some (2, m2) }
         else Some (0, mem)
     | (JSON_TYPE_DOUBLE, Some d) \<Rightarrow>
         if tok_type v = JSMN_PRIMITIVE then do {
           s \<leftarrow> strndup json (tok_start v) (tok_len v);
           m \<leftarrow> wr_bytes mem d (atof s);
           Some (2, m) }
         else Some (0, mem)
     | (JSON_TYPE_NUMBER, Some d) \<Rightarrow>
         if is_scalar v then do {
           s \<leftarrow> strndup json (tok_start v) (tok_len v);
           u \<leftarrow> str2u128 s;
           m \<leftarrow> wr_bytes mem d (raw u);
           Some (2, m) }
         else Some (0, mem)
     | (JSON_TYPE_NUMBER32, Some d) \<Rightarrow>
         if is_scalar v then do {
           s \<leftarrow> strndup json (tok_start v) (tok_len v);
           n \<leftarrow> c_atoi (cstr s);
           m \<leftarrow> wr_bytes mem d (mem_store be 4 n);
           Some (2, m) }
         else Some (0, mem)
     | (JSON_TYPE_NUMBER64, Some d) \<Rightarrow>
         if is_scalar v then do {
           s \<leftarrow> strndup json (tok_start v) (tok_len v);
           n \<leftarrow> c_atoll (cstr s);
           m \<leftarrow> wr_bytes mem d (mem_store be 8 n);
           Some (2, m) }
         else Some (0, mem)
     | (JSON_TYPE_BOOLEAN, Some d) \<Rightarrow>
         if is_scalar v then do {
           guard (0 \<le> tok_start v);
           c \<leftarrow> rd json (nat (tok_start v));
           m \<leftarrow> wr_bytes mem d (mem_store be 4
             (if tok_type v = JSMN_PRIMITIVE \<and> c = ch CHR ''t'' then 1 else 0 :: u32));
           Some (2, m) }
         else Some (0, mem)
     | _ \<Rightarrow> Some (0, mem))"

section \<open>The walk over the tokens\<close>

text \<open>Division as C has it, undefined for a zero divisor.\<close>

definition c_div :: "int \<Rightarrow> int \<Rightarrow> int option" where
  "c_div a b = (if b = 0 then None else Some (sgn a * sgn b * (\<bar>a\<bar> div \<bar>b\<bar>)))"

text \<open>
  \<^verbatim>\<open>json_object_loop\<close> is the while loop of \<^verbatim>\<open>json_parse_object\<close> (token index, \<^verbatim>\<open>i\<close>,
  the token count as the \<^verbatim>\<open>size_t\<close> it is compared as, \<^verbatim>\<open>processed_tok\<close>, the rules), and
  \<^verbatim>\<open>json_rule_loop\<close> its inner loop over the rules, which goes on with the token index a nested
  value left behind.  \<^verbatim>\<open>json_array_loop\<close> is the loop of \<^verbatim>\<open>json_parse_array\<close>.  The result
  is the returned number and the memory.  A token pointer past the end of the token array is
  undefined behaviour.
\<close>

function
  json_object_loop :: "bool \<Rightarrow> (bytes \<Rightarrow> bytes) \<Rightarrow> bytes \<Rightarrow> jsmntok list \<Rightarrow> nat \<Rightarrow> nat \<Rightarrow> u32 \<Rightarrow> int \<Rightarrow>
    json_parse_rule list \<Rightarrow> bytes \<Rightarrow> (int \<times> bytes) option"
and
  json_rule_loop :: "bool \<Rightarrow> (bytes \<Rightarrow> bytes) \<Rightarrow> bytes \<Rightarrow> jsmntok list \<Rightarrow> nat \<Rightarrow> nat \<Rightarrow> u32 \<Rightarrow> int \<Rightarrow>
    json_parse_rule list \<Rightarrow> json_parse_rule list \<Rightarrow> bytes \<Rightarrow> (int \<times> bytes) option"
and
  json_array_loop :: "bool \<Rightarrow> (bytes \<Rightarrow> bytes) \<Rightarrow> bytes \<Rightarrow> jsmntok list \<Rightarrow> nat \<Rightarrow> nat \<Rightarrow> int \<Rightarrow>
    json_parse_rule \<Rightarrow> bind_fn \<Rightarrow> int \<Rightarrow> int \<Rightarrow> bytes \<Rightarrow> (int \<times> bytes) option"
where
  "json_object_loop be atof json toks t i cnt p rules mem =
    (if i < unat cnt then
       (if t < length toks then json_rule_loop be atof json toks t i cnt p rules rules mem else None)
     else Some (p, mem))"
| "json_rule_loop be atof json toks t i cnt p rules [] mem =
    (if t < length toks then json_object_loop be atof json toks (Suc t) (Suc i) cnt p rules mem else None)"
| "json_rule_loop be atof json toks t i cnt p rules (r # rs) mem =
    (case rkey r of
       None \<Rightarrow>
         (if t < length toks then json_object_loop be atof json toks (Suc t) (Suc i) cnt p rules mem else None)
     | Some key \<Rightarrow>
         (case rd toks t of
            None \<Rightarrow> None
          | Some tk \<Rightarrow>
            (case jsoneq json tk key of
               None \<Rightarrow> None
             | Some False \<Rightarrow> json_rule_loop be atof json toks t i cnt p rules rs mem
             | Some True \<Rightarrow>
               if rtype r = JSON_TYPE_UNDEFINED then json_rule_loop be atof json toks t i cnt p rules rs mem
               else
               (case rd toks (Suc t) of
                  None \<Rightarrow> None
                | Some v \<Rightarrow>
                  if rtype r = JSON_TYPE_OBJECT then
                    (case rsub r of
                       None \<Rightarrow> json_rule_loop be atof json toks t i cnt p rules rs mem
                     | Some sub \<Rightarrow>
                       if tok_type v = JSMN_OBJECT then
                         (case json_object_loop be atof json toks (t + 2) 0 (cnt - of_nat i - 2) 0 sub mem of
                            None \<Rightarrow> None
                          | Some (ret, mem') \<Rightarrow>
                            if ret < 0 then Some (ret, mem')
                            else json_rule_loop be atof json toks (t + nat ret + 1) (i + nat ret + 1) cnt
                                   (p + ret + 2) rules rs mem')
                       else json_rule_loop be atof json toks t i cnt p rules rs mem)
                  else if rtype r = JSON_TYPE_ARRAY then
                    (if tok_type v = JSMN_ARRAY \<and> rvalue r \<noteq> None \<and> rvalue_len r \<noteq> 0 then
                       (case c_div (sint (cnt - of_nat i - 2)) (tok_size v) of
                          None \<Rightarrow> None
                        | Some single \<Rightarrow>
                          (case rd toks (t + 2) of
                             None \<Rightarrow> None
                           | Some el \<Rightarrow>
                             if tok_type el \<noteq> JSMN_OBJECT \<or> relem_type r \<noteq> JSON_TYPE_OBJECT \<or> rsub r = None
                                \<or> rbind r = None \<or> relem_size r = 0
                             then Some (-1, mem)
                             else
                               (case json_array_loop be atof json toks (t + 2) 0 single r (the (rbind r))
                                       (tok_size v) 0 mem of
                                  None \<Rightarrow> None
                                | Some (ret, mem') \<Rightarrow>
                                  if ret < 0 then Some (ret, mem')
                                  else json_rule_loop be atof json toks (t + nat ret + 1) (i + nat ret + 1) cnt
                                         (p + ret + 2) rules rs mem')))
                     else json_rule_loop be atof json toks t i cnt p rules rs mem)
                  else
                    (case store_scalar be atof json r v mem of
                       None \<Rightarrow> None
                     | Some (n, mem') \<Rightarrow>
                       json_rule_loop be atof json toks t i cnt (p + int n) rules rs mem')))))"
| "json_array_loop be atof json toks t i single r f array_size p mem =
    (if int i < array_size \<and> i < rvalue_len r then
       (case run_bind f (rsub r) (map_option (\<lambda>v. v + i * relem_size r) (rvalue r)) of
          None \<Rightarrow> Some (-1, mem)
        | Some sub \<Rightarrow>
          (case json_object_loop be atof json toks (Suc t) 0 (of_int single) 0 sub mem of
             None \<Rightarrow> None
           | Some (ret, mem') \<Rightarrow>
             if ret = -1 then Some (-1, mem')
             else json_array_loop be atof json toks (t + nat ret + 1) (Suc i) single r f array_size (p + ret + 1) mem'))
     else
       (case rcount r of
          None \<Rightarrow> Some (p, mem)
        | Some d \<Rightarrow> do { mem' \<leftarrow> wr_bytes mem d (mem_store be 4 (of_int array_size :: u32)); Some (p, mem') }))"
  by pat_completeness auto
termination
  by (relation "measures
      [\<lambda>x. case x of Inl (_, _, _, toks, t, _) \<Rightarrow> length toks - t
        | Inr (Inl (_, _, _, toks, t, _)) \<Rightarrow> length toks - t
        | Inr (Inr (_, _, _, toks, t, _)) \<Rightarrow> length toks - t,
       \<lambda>x. case x of Inl _ \<Rightarrow> 1 | Inr (Inl _) \<Rightarrow> 0 | Inr (Inr _) \<Rightarrow> 2,
       \<lambda>x. case x of Inl _ \<Rightarrow> 0 | Inr (Inl (_, _, _, _, _, _, _, _, _, rs, _)) \<Rightarrow> length rs
        | Inr (Inr (_, _, _, _, _, i, _, r, _)) \<Rightarrow> rvalue_len r - i]")
    (auto simp: buf_simps)

declare json_object_loop.simps [simp del] json_rule_loop.simps [simp del] json_array_loop.simps [simp del]

definition json_parse_object ::
  "bool \<Rightarrow> (bytes \<Rightarrow> bytes) \<Rightarrow> bytes \<Rightarrow> jsmntok list \<Rightarrow> nat \<Rightarrow> int \<Rightarrow> json_parse_rule list \<Rightarrow> bytes \<Rightarrow>
   (int \<times> bytes) option" where
  "json_parse_object be atof json toks t tok_count rules mem =
    json_object_loop be atof json toks t 0 (of_int tok_count) 0 rules mem"

definition json_parse_array ::
  "bool \<Rightarrow> (bytes \<Rightarrow> bytes) \<Rightarrow> bytes \<Rightarrow> jsmntok list \<Rightarrow> nat \<Rightarrow> int \<Rightarrow> json_parse_rule \<Rightarrow> int \<Rightarrow> bytes \<Rightarrow>
   (int \<times> bytes) option" where
  "json_parse_array be atof json toks t tok_count r array_size mem = do {
     single \<leftarrow> c_div tok_count array_size;
     el \<leftarrow> rd toks t;
     if tok_type el \<noteq> JSMN_OBJECT \<or> relem_type r \<noteq> JSON_TYPE_OBJECT \<or> rsub r = None
        \<or> rbind r = None \<or> relem_size r = 0
     then Some (-1, mem)
     else json_array_loop be atof json toks t 0 single r (the (rbind r)) array_size 0 mem
   }"

text \<open>
  The response parser: 0 or -1, and the memory.  \<^verbatim>\<open>calloc\<close> finds memory or not; the rules are
  the array at the pointer, whose first entry alone is used for an array response.
\<close>

definition json_parse_response ::
  "bool \<Rightarrow> (bytes \<Rightarrow> bytes) \<Rightarrow> bool \<Rightarrow> bytes \<Rightarrow> json_parse_rule list \<Rightarrow> bytes \<Rightarrow> (int \<times> bytes) option" where
  "json_parse_response be atof calloc_ok response rules mem = do {
     len \<leftarrow> strlen response;
     let token_size = len div 4;
     if \<not> calloc_ok then Some (-1, mem)
     else do {
       (tok_total, parser, toks) \<leftarrow>
         jsmn_parse jsmn_init response len (replicate token_size (jsmn_fill_token JSMN_UNDEFINED 0 0));
       if tok_total < 1 then Some (-1, mem)
       else do {
         t0 \<leftarrow> rd toks 0;
         if tok_type t0 = JSMN_OBJECT then do {
           (processed, mem') \<leftarrow> json_parse_object be atof response toks 0 (tok_total - 1) rules mem;
           Some (if processed \<noteq> tok_total - 1 then -1 else 0, mem')
         }
         else if tok_type t0 = JSMN_ARRAY then do {
           r \<leftarrow> rd rules 0;
           (processed, mem') \<leftarrow> json_parse_array be atof response toks 1 (tok_total - 1) r (tok_size t0) mem;
           Some (if processed \<noteq> tok_total - 1 then -1 else 0, mem')
         }
         else Some (-1, mem)
       }
     }
   }"

section \<open>A flat object with one string member\<close>

text \<open>Characters that stand for themselves inside a JSON string.\<close>

definition plain :: "bytes \<Rightarrow> bool" where
  "plain s \<longleftrightarrow> (\<forall>c\<in>set s. c \<noteq> 0 \<and> c \<noteq> ch CHR 0x22 \<and> c \<noteq> ch CHR 0x5C)"

definition quoted :: "bytes \<Rightarrow> bytes" where
  "quoted s = ch CHR 0x22 # s @ [ch CHR 0x22]"

definition member_object :: "bytes \<Rightarrow> bytes \<Rightarrow> bytes" where
  "member_object k v = ch CHR ''{'' # quoted k @ ch CHR '':'' # quoted v @ [ch CHR ''}'']"

lemma string_scan_plain:
  assumes "plain s" "js = A @ s @ ch CHR 0x22 # B" "q = length A" "q + length s < len"
  shows "string_scan js len q = Some (Quote (q + length s))"
  using assms
proof (induction s arbitrary: A q)
  case Nil
  then have "rd js q = Some (ch CHR 0x22)" by (simp add: rd_def nth_append)
  then show ?case using Nil by (subst string_scan.simps) simp
next
  case (Cons c s)
  have "rd js q = Some c" using Cons.prems by (simp add: rd_def nth_append)
  moreover have "c \<noteq> 0" "c \<noteq> 34" "c \<noteq> 92" using Cons.prems by (simp_all add: plain_def)
  moreover have "string_scan js len (Suc q) = Some (Quote (Suc q + length s))"
    using Cons.prems by (intro Cons.IH [of "A @ [c]"]) (simp_all add: plain_def)
  ultimately show ?case using Cons.prems by (subst string_scan.simps) simp
qed

text \<open>One string token at the parser's position.\<close>

lemma jsmn_step_plain_string:
  assumes "plain s" "js = A @ quoted s @ B" "pos p = length A" "pos p + length s + 1 < len"
    and "toknext p < length toks" "-1 \<le> toksuper p" "toksuper p < int (toknext p)"
  shows "jsmn_step p js len toks count (ch CHR 0x22) =
    (case super_size_inc (toksuper p)
        (toks[toknext p := jsmn_fill_token JSMN_STRING (int (pos p + 1)) (int (pos p + 1 + length s))]) of
       None \<Rightarrow> None
     | Some toks' \<Rightarrow> Some (Inr (p\<lparr>toknext := Suc (toknext p), pos := pos p + 1 + length s\<rparr>, toks', count + 1)))"
proof -
  have "string_scan js len (pos p + 1) = Some (Quote (pos p + 1 + length s))"
    using assms by (intro string_scan_plain [of s _ "A @ [ch CHR 0x22]" B]) (simp_all add: quoted_def)
  then have "jsmn_parse_string p js len toks = Some (0, p\<lparr>toknext := Suc (toknext p), pos := pos p + 1 + length s\<rparr>,
      toks[toknext p := jsmn_fill_token JSMN_STRING (int (pos p + 1)) (int (pos p + 1 + length s))])"
    using assms(5) by (simp add: jsmn_parse_string_def Let_def jsmn_alloc_token_def)
  then show ?thesis
    by (simp add: jsmn_step_def split: option.split)
qed

lemma jsmn_loop_step:
  assumes "pos p < len" "rd js (pos p) = Some c" "c \<noteq> 0"
    and "jsmn_step p js len toks count c = Some (Inr (\<lparr>pos = q, toknext = n, toksuper = s\<rparr>, toks1, count1))"
  shows "jsmn_loop p js len toks count = jsmn_loop \<lparr>pos = Suc q, toknext = n, toksuper = s\<rparr> js len toks1 count1"
  using assms by (subst jsmn_loop.simps) simp

definition member_tokens :: "bytes \<Rightarrow> bytes \<Rightarrow> jsmntok list" where
  "member_tokens k v =
    [\<lparr>tok_type = JSMN_OBJECT, tok_start = 0, tok_end = int (length k + length v + 7), tok_size = 1\<rparr>,
     \<lparr>tok_type = JSMN_STRING, tok_start = 2, tok_end = int (length k) + 2, tok_size = 1\<rparr>,
     \<lparr>tok_type = JSMN_STRING, tok_start = int (length k) + 5, tok_end = int (length k + length v) + 5, tok_size = 0\<rparr>]"

text \<open>The opening brace, the key and the colon.\<close>

lemma jsmn_loop_key:
  assumes "plain k" "toks = a # b # c # rest" "js = ch CHR ''{'' # quoted k @ ch CHR '':'' # R"
    and "length k + 4 \<le> len"
  shows "jsmn_loop jsmn_init js len toks 0 =
    jsmn_loop \<lparr>pos = length k + 4, toknext = 2, toksuper = 1\<rparr> js len
      (\<lparr>tok_type = JSMN_OBJECT, tok_start = 0, tok_end = -1, tok_size = 1\<rparr> #
       \<lparr>tok_type = JSMN_STRING, tok_start = 2, tok_end = int (length k) + 2, tok_size = 0\<rparr> # c # rest) 2"
proof -
  let ?m = "length k"
  let ?t0 = "\<lparr>tok_type = JSMN_OBJECT, tok_start = 0, tok_end = -1, tok_size = 0\<rparr>"
  let ?k = "\<lparr>tok_type = JSMN_STRING, tok_start = 2, tok_end = int ?m + 2, tok_size = 0\<rparr>"
  note js = assms(3)
  have l1: "jsmn_loop jsmn_init js len toks 0 =
      jsmn_loop \<lparr>pos = 1, toknext = 1, toksuper = 0\<rparr> js len (?t0 # b # c # rest) 1"
  proof (subst jsmn_loop_step [where c = "ch CHR ''{''"])
    show "jsmn_step jsmn_init js len toks 0 (ch CHR ''{'') =
        Some (Inr (\<lparr>pos = 0, toknext = 1, toksuper = 0\<rparr>, ?t0 # b # c # rest, 1))"
      using assms(2) by (cases a) (simp add: jsmn_init_def jsmn_step_def jsmn_alloc_token_def super_size_inc_def)
  qed (use assms(4) in \<open>simp_all add: js jsmn_init_def\<close>)
  have l2: "jsmn_loop \<lparr>pos = 1, toknext = 1, toksuper = 0\<rparr> js len (?t0 # b # c # rest) 1 =
      jsmn_loop \<lparr>pos = ?m + 3, toknext = 2, toksuper = 0\<rparr> js len (?t0\<lparr>tok_size := 1\<rparr> # ?k # c # rest) 2"
  proof (subst jsmn_loop_step [where c = "ch CHR 0x22"])
    show "jsmn_step \<lparr>pos = 1, toknext = 1, toksuper = 0\<rparr> js len (?t0 # b # c # rest) 1 (ch CHR 0x22) =
        Some (Inr (\<lparr>pos = ?m + 2, toknext = 2, toksuper = 0\<rparr>, ?t0\<lparr>tok_size := 1\<rparr> # ?k # c # rest, 2))"
      using assms by (subst jsmn_step_plain_string [of k _ "[ch CHR ''{'']" "ch CHR '':'' # R"])
        (simp_all add: js super_size_inc_def jsmn_fill_token_def)
  qed (use assms in \<open>simp_all add: js quoted_def numeral_3_eq_3\<close>)
  have rc: "rd js (?m + 3) = Some (ch CHR '':'')"
    by (simp add: js quoted_def rd_def nth_append)
  have n: "Suc (?m + 3) = ?m + 4" by simp
  have "jsmn_loop \<lparr>pos = ?m + 3, toknext = 2, toksuper = 0\<rparr> js len (?t0\<lparr>tok_size := 1\<rparr> # ?k # c # rest) 2 =
      jsmn_loop \<lparr>pos = ?m + 4, toknext = 2, toksuper = 1\<rparr> js len (?t0\<lparr>tok_size := 1\<rparr> # ?k # c # rest) 2"
    using assms(4) rc by (subst jsmn_loop_step [where c = "ch CHR '':''" and q = "?m + 3" and n = 2 and s = 1
        and ?toks1.0 = "?t0\<lparr>tok_size := 1\<rparr> # ?k # c # rest" and ?count1.0 = 2]) (simp_all add: jsmn_step_def n)
  then show ?thesis using l1 l2 by simp
qed

lemma jsmn_parse_member:
  assumes "plain k" "plain v" "toks = a # b # c # rest" "len = length k + length v + 7"
  shows "\<exists>p. jsmn_parse jsmn_init (member_object k v @ 0 # z) len toks = Some (3, p, member_tokens k v @ rest)"
proof -
  let ?js = "member_object k v @ 0 # z"
  let ?m = "length k"
  let ?t0 = "\<lparr>tok_type = JSMN_OBJECT, tok_start = 0, tok_end = -1, tok_size = 1\<rparr>"
  let ?k = "\<lambda>n. \<lparr>tok_type = JSMN_STRING, tok_start = 2, tok_end = int ?m + 2, tok_size = n\<rparr>"
  let ?v = "\<lparr>tok_type = JSMN_STRING, tok_start = int ?m + 5, tok_end = int (?m + length v) + 5, tok_size = 0\<rparr>"
  have js: "?js = ch CHR ''{'' # quoted k @ ch CHR '':'' # quoted v @ ch CHR ''}'' # 0 # z"
    by (simp add: member_object_def)
  have n: "Suc (?m + length v + 5) = ?m + length v + 6" "Suc (?m + length v + 6) = ?m + length v + 7" by simp_all
  have l3: "jsmn_loop jsmn_init ?js len toks 0 =
      jsmn_loop \<lparr>pos = ?m + 4, toknext = 2, toksuper = 1\<rparr> ?js len (?t0 # ?k 0 # c # rest) 2"
    by (rule jsmn_loop_key [OF assms(1,3) js]) (simp add: assms(4))
  have rv: "rd ?js (?m + 4) = Some (ch CHR 0x22)" by (simp add: js quoted_def rd_def nth_append)
  have l4: "jsmn_loop \<lparr>pos = ?m + 4, toknext = 2, toksuper = 1\<rparr> ?js len (?t0 # ?k 0 # c # rest) 2 =
      jsmn_loop \<lparr>pos = ?m + length v + 6, toknext = 3, toksuper = 1\<rparr> ?js len (?t0 # ?k 1 # ?v # rest) 3"
  proof (subst jsmn_loop_step [where c = "ch CHR 0x22"])
    show "jsmn_step \<lparr>pos = ?m + 4, toknext = 2, toksuper = 1\<rparr> ?js len (?t0 # ?k 0 # c # rest) 2 (ch CHR 0x22) =
        Some (Inr (\<lparr>pos = ?m + length v + 5, toknext = 3, toksuper = 1\<rparr>, ?t0 # ?k 1 # ?v # rest, 3))"
      using assms by (subst jsmn_step_plain_string [of v _ "ch CHR ''{'' # quoted k @ [ch CHR '':'']" "ch CHR ''}'' # 0 # z"])
        (simp_all add: js super_size_inc_def jsmn_fill_token_def quoted_def algebra_simps)
  qed (use assms rv in \<open>simp_all add: n\<close>)
  have re: "rd ?js (?m + length v + 6) = Some (ch CHR ''}'')"
    by (simp add: js quoted_def rd_def nth_append)
  have l5: "jsmn_loop \<lparr>pos = ?m + length v + 6, toknext = 3, toksuper = 1\<rparr> ?js len (?t0 # ?k 1 # ?v # rest) 3 =
      jsmn_loop \<lparr>pos = ?m + length v + 7, toknext = 3, toksuper = -1\<rparr> ?js len (member_tokens k v @ rest) 3"
    using assms(4) re
    by (subst jsmn_loop_step [where c = "ch CHR ''}''" and q = "?m + length v + 6" and n = 3 and s = "-1"
        and ?toks1.0 = "member_tokens k v @ rest" and ?count1.0 = 3])
      (simp_all add: jsmn_step_def numeral_3_eq_3 tok_open_def member_tokens_def Let_def n)
  have l6: "jsmn_loop \<lparr>pos = ?m + length v + 7, toknext = 3, toksuper = -1\<rparr> ?js len (member_tokens k v @ rest) 3 =
      Some (3, \<lparr>pos = ?m + length v + 7, toknext = 3, toksuper = -1\<rparr>, member_tokens k v @ rest)"
    using assms(4) by (subst jsmn_loop.simps)
      (simp add: jsmn_finish_def numeral_3_eq_3 tok_open_def member_tokens_def)
  show ?thesis unfolding jsmn_parse_def using l3 l4 l5 l6 by (simp add: jsmn_init_def)
qed

lemma strneq_same: "0 \<notin> set k \<Longrightarrow> strneq (k @ r) (k @ [0]) (length k) = Some True"
  by (induction k) auto

lemma plain_no_nul: "plain s \<Longrightarrow> 0 \<notin> set s"
  by (auto simp: plain_def)



section \<open>An empty object\<close>

definition empty_member :: "bytes \<Rightarrow> bytes" where
  "empty_member k = ch CHR ''{'' # quoted k @ asc '':{}}''"

definition empty_tokens :: "bytes \<Rightarrow> jsmntok list" where
  "empty_tokens k =
    [\<lparr>tok_type = JSMN_OBJECT, tok_start = 0, tok_end = int (length k + 7), tok_size = 1\<rparr>,
     \<lparr>tok_type = JSMN_STRING, tok_start = 2, tok_end = int (length k) + 2, tok_size = 1\<rparr>,
     \<lparr>tok_type = JSMN_OBJECT, tok_start = int (length k) + 4, tok_end = int (length k) + 6, tok_size = 0\<rparr>]"

lemma jsmn_parse_empty_member:
  assumes "plain k" "toks = a # b # c # rest" "len = length k + 7"
  shows "\<exists>p. jsmn_parse jsmn_init (empty_member k @ 0 # z) len toks = Some (3, p, empty_tokens k @ rest)"
proof -
  let ?js = "empty_member k @ 0 # z" let ?m = "length k"
  let ?t0 = "\<lambda>e. \<lparr>tok_type = JSMN_OBJECT, tok_start = 0, tok_end = e, tok_size = 1\<rparr>"
  let ?k = "\<lambda>n. \<lparr>tok_type = JSMN_STRING, tok_start = 2, tok_end = int ?m + 2, tok_size = n\<rparr>"
  let ?v = "\<lambda>e. \<lparr>tok_type = JSMN_OBJECT, tok_start = int ?m + 4, tok_end = e, tok_size = 0\<rparr>"
  have js: "?js = ch CHR ''{'' # quoted k @ ch CHR '':'' # asc ''{}}'' @ 0 # z" by (simp add: empty_member_def)
  have n: "Suc (?m + 4) = ?m + 5" "Suc (?m + 5) = ?m + 6" "Suc (?m + 6) = ?m + 7" by simp_all
  have rd: "rd ?js (?m + 4) = Some (ch CHR ''{'')" "rd ?js (?m + 5) = Some (ch CHR ''}'')"
    "rd ?js (?m + 6) = Some (ch CHR ''}'')"
    by (simp_all add: js quoted_def rd_def nth_append)
  have l3: "jsmn_loop jsmn_init ?js len toks 0 =
      jsmn_loop \<lparr>pos = ?m + 4, toknext = 2, toksuper = 1\<rparr> ?js len (?t0 (-1) # ?k 0 # c # rest) 2"
    by (rule jsmn_loop_key [OF assms(1,2) js]) (simp add: assms(3))
  have s4: "jsmn_step \<lparr>pos = ?m + 4, toknext = 2, toksuper = 1\<rparr> ?js len (?t0 (-1) # ?k 0 # c # rest) 2 (ch CHR ''{'') =
      Some (Inr (\<lparr>pos = ?m + 4, toknext = 3, toksuper = 2\<rparr>, ?t0 (-1) # ?k 1 # ?v (-1) # rest, 3))"
    by (cases c) (simp add: jsmn_step_def jsmn_alloc_token_def super_size_inc_def numeral_2_eq_2)
  have l4: "jsmn_loop \<lparr>pos = ?m + 4, toknext = 2, toksuper = 1\<rparr> ?js len (?t0 (-1) # ?k 0 # c # rest) 2 =
      jsmn_loop \<lparr>pos = ?m + 5, toknext = 3, toksuper = 2\<rparr> ?js len (?t0 (-1) # ?k 1 # ?v (-1) # rest) 3"
    by (subst jsmn_loop_step [OF _ _ _ s4]) (simp_all add: assms(3) rd n)
  have s5: "jsmn_step \<lparr>pos = ?m + 5, toknext = 3, toksuper = 2\<rparr> ?js len (?t0 (-1) # ?k 1 # ?v (-1) # rest) 3 (ch CHR ''}'') =
      Some (Inr (\<lparr>pos = ?m + 5, toknext = 3, toksuper = 0\<rparr>, ?t0 (-1) # ?k 1 # ?v (int ?m + 6) # rest, 3))"
    by (simp add: jsmn_step_def numeral_3_eq_3 tok_open_def Let_def)
  have l5: "jsmn_loop \<lparr>pos = ?m + 5, toknext = 3, toksuper = 2\<rparr> ?js len (?t0 (-1) # ?k 1 # ?v (-1) # rest) 3 =
      jsmn_loop \<lparr>pos = ?m + 6, toknext = 3, toksuper = 0\<rparr> ?js len (?t0 (-1) # ?k 1 # ?v (int ?m + 6) # rest) 3"
    by (subst jsmn_loop_step [OF _ _ _ s5]) (simp_all add: assms(3) rd n)
  have s6: "jsmn_step \<lparr>pos = ?m + 6, toknext = 3, toksuper = 0\<rparr> ?js len (?t0 (-1) # ?k 1 # ?v (int ?m + 6) # rest) 3 (ch CHR ''}'') =
      Some (Inr (\<lparr>pos = ?m + 6, toknext = 3, toksuper = -1\<rparr>, empty_tokens k @ rest, 3))"
    by (simp add: jsmn_step_def numeral_3_eq_3 tok_open_def Let_def empty_tokens_def)
  have l6: "jsmn_loop \<lparr>pos = ?m + 6, toknext = 3, toksuper = 0\<rparr> ?js len (?t0 (-1) # ?k 1 # ?v (int ?m + 6) # rest) 3 =
      jsmn_loop \<lparr>pos = ?m + 7, toknext = 3, toksuper = -1\<rparr> ?js len (empty_tokens k @ rest) 3"
    by (subst jsmn_loop_step [OF _ _ _ s6]) (simp_all add: assms(3) rd n)
  have l7: "jsmn_loop \<lparr>pos = ?m + 7, toknext = 3, toksuper = -1\<rparr> ?js len (empty_tokens k @ rest) 3 =
      Some (3, \<lparr>pos = ?m + 7, toknext = 3, toksuper = -1\<rparr>, empty_tokens k @ rest)"
    using assms(3) by (subst jsmn_loop.simps)
      (simp add: jsmn_finish_def numeral_3_eq_3 tok_open_def empty_tokens_def)
  show ?thesis unfolding jsmn_parse_def using l3 l4 l5 l6 l7 by (simp add: jsmn_init_def)
qed

lemma json_rule_loop_skip:
  "\<lbrakk>t < length toks; tok_type (toks ! t) \<noteq> JSMN_STRING\<rbrakk> \<Longrightarrow>
   json_rule_loop be atof json toks t i cnt p rules rs mem =
   json_object_loop be atof json toks (Suc t) (Suc i) cnt p rules mem"
proof (induction rs)
  case Nil
  then show ?case by (subst json_rule_loop.simps) simp
next
  case (Cons r rs)
  then show ?case by (subst json_rule_loop.simps) (simp add: jsoneq_def split: option.split)
qed

text \<open>A token count that runs past the array: the walk leaves the token array.\<close>

lemma json_object_loop_overrun:
  "\<lbrakk>\<forall>j. t \<le> j \<longrightarrow> j < length toks \<longrightarrow> tok_type (toks ! j) \<noteq> JSMN_STRING;
    i + (length toks - t) < unat cnt\<rbrakk> \<Longrightarrow>
   json_object_loop be atof json toks t i cnt p rules mem = None"
proof (induction "length toks - t" arbitrary: t i)
  case 0
  then show ?case by (subst json_object_loop.simps) simp
next
  case (Suc n)
  then have "t < length toks" by simp
  moreover from this have "json_rule_loop be atof json toks t i cnt p rules rules mem =
      json_object_loop be atof json toks (Suc t) (Suc i) cnt p rules mem"
    using Suc.prems by (intro json_rule_loop_skip) auto
  moreover have "json_object_loop be atof json toks (Suc t) (Suc i) cnt p rules mem = None"
    using Suc.prems Suc.hyps(2) \<open>t < length toks\<close> by (intro Suc.hyps(1)) auto
  ultimately show ?case using Suc.prems by (subst json_object_loop.simps) simp
qed

text \<open>A response whose expected object member is empty, such as \<^verbatim>\<open>{accountMeta: {}}\<close> with its
  key quoted, takes the parser out of its token array: the token count handed to the nested walk is
  -1, which the unsigned loop comparison reads as \<^verbatim>\<open>2^32 - 1\<close>.  No rule for the member's
  contents, and no size of the zeroed token array the parser allocates, prevents it.\<close>

theorem json_parse_empty_object_overrun:
  assumes "plain key" "5 \<le> length key" "length key < 2 ^ 30"
  shows "json_parse_response be atof True (empty_member key @ 0 # z)
      [Rule (Some key) JSON_TYPE_OBJECT (Some sub) v n et es bnd cntp] mem = None"
proof -
  let ?js = "empty_member key @ 0 # z" and ?m = "length key"
  let ?len = "?m + 7"
  let ?r = "Rule (Some key) JSON_TYPE_OBJECT (Some sub) v n et es bnd cntp"
  let ?u = "jsmn_fill_token JSMN_UNDEFINED 0 0"
  have nn: "0 \<notin> set (empty_member key)"
    using assms(1) plain_no_nul by (auto simp: empty_member_def quoted_def)
  have len: "strlen ?js = Some ?len"
    using strlen_append [OF nn, of z] by (simp add: empty_member_def quoted_def)
  have "3 \<le> ?len div 4" using assms(2) by simp
  then obtain j where j: "?len div 4 = Suc (Suc (Suc j))"
    using le_Suc_ex [of 3 "?len div 4"] by (auto simp: numeral_3_eq_3)
  obtain T where T: "T = empty_tokens key @ replicate j ?u" by blast
  obtain p where jp: "jsmn_parse jsmn_init ?js ?len (replicate (?len div 4) ?u) = Some (3, p, T)"
    using jsmn_parse_empty_member [OF assms(1), of "replicate (?len div 4) ?u" ?u ?u ?u "replicate j ?u" ?len z] j T
    by auto
  have lT: "length T = j + 3" "0 < length T" "1 < length T" "2 < length T" by (simp_all add: T empty_tokens_def)
  let ?kt = "\<lparr>tok_type = JSMN_STRING, tok_start = 2, tok_end = int ?m + 2, tok_size = 1\<rparr>"
  obtain o1 o2 where t: "rd T 0 = Some o1" "rd T 1 = Some ?kt" "rd T 2 = Some o2"
    "tok_type o1 = JSMN_OBJECT" "tok_type o2 = JSMN_OBJECT"
    by (simp add: T empty_tokens_def rd_def)
  have "tok_len ?kt = ?m" using assms(3) by (simp add: tok_len_def unat_of_nat_id)
  moreover have "drop 2 ?js = key @ ch CHR 0x22 # asc '':{}}'' @ 0 # z"
    by (simp add: empty_member_def quoted_def)
  ultimately have e1: "jsoneq ?js ?kt key = Some True"
    using strneq_same [OF plain_no_nul [OF assms(1)]] by (simp add: jsoneq_def)
  have e0: "jsoneq ?js o1 key = Some False" using t(4) by (simp add: jsoneq_def)
  have nested: "json_object_loop be atof ?js T 3 0 (2 - of_nat 1 - 2) 0 sub mem = None"
  proof (rule json_object_loop_overrun)
    show "\<forall>i. 3 \<le> i \<longrightarrow> i < length T \<longrightarrow> tok_type (T ! i) \<noteq> JSMN_STRING"
      by (auto simp: T empty_tokens_def nth_append jsmn_fill_token_def)
    have "j < 2 ^ 30" using j assms(3) by simp
    then show "0 + (length T - 3) < unat (2 - of_nat 1 - 2 :: u32)" using lT(1)
      by (simp add: unsigned_minus_1_eq_mask mask_eq_exp_minus_1)
  qed
  have "json_object_loop be atof ?js T 0 0 2 0 [?r] mem = json_rule_loop be atof ?js T 0 0 2 0 [?r] [?r] mem"
    using lT by (subst json_object_loop.simps) simp
  also have "\<dots> = json_object_loop be atof ?js T 1 1 2 0 [?r] mem"
    using lT t(1,4) by (subst json_rule_loop_skip) (auto simp: rd_def)
  also have "\<dots> = json_rule_loop be atof ?js T 1 1 2 0 [?r] [?r] mem"
    using lT by (subst json_object_loop.simps) simp
  also have "\<dots> = None"
    using t e1 nested by (subst json_rule_loop.simps) (simp add: numeral_2_eq_2 numeral_3_eq_3)
  finally show ?thesis using len jp t by (simp add: json_parse_response_def json_parse_object_def Let_def)
qed

lemma json_parse_empty_object_overrun_witness:
  "json_parse_response False (\<lambda>s. []) True (empty_member (asc ''accountMeta'') @ 0 # [])
     [Rule (Some (asc ''accountMeta'')) JSON_TYPE_OBJECT (Some [mk_rule ''address'' JSON_TYPE_STR None (Some 0) 42])
        None 0 JSON_TYPE_UNDEFINED 0 None None] (replicate 42 0) = None"
  by (rule json_parse_empty_object_overrun) (simp_all add: plain_def)

section \<open>The rules of an action\<close>

text \<open>The rule chain of \<^verbatim>\<open>res_get_actions\<close> for one element of the array.\<close>

definition action_info_rule :: "json_parse_rule list" where
  "action_info_rule =
    [mk_rule ''action'' JSON_TYPE_OBJECT (Some
       [mk_rule ''signature'' JSON_TYPE_STR None None 0,
        mk_rule ''senderPubKey'' JSON_TYPE_STR None None 0,
        mk_rule ''core'' JSON_TYPE_OBJECT (Some
          [mk_rule ''nonce'' JSON_TYPE_NUMBER None None 0,
           mk_rule ''version'' JSON_TYPE_NUMBER None None 0,
           mk_rule ''gasLimit'' JSON_TYPE_NUMBER None None 0,
           mk_rule ''gasPrice'' JSON_TYPE_NUMBER None None 0,
           mk_rule ''transfer'' JSON_TYPE_OBJECT (Some
             [mk_rule ''amount'' JSON_TYPE_NUMBER None None 0,
              mk_rule ''recipient'' JSON_TYPE_STR None None 0]) None 0]) None 0]) None 0,
     mk_rule ''actHash'' JSON_TYPE_STR None None 0,
     mk_rule ''blkHash'' JSON_TYPE_STR None None 0,
     mk_rule ''blkHeight'' JSON_TYPE_NUMBER None None 0,
     mk_rule ''sender'' JSON_TYPE_STR None None 0,
     mk_rule ''gasFee'' JSON_TYPE_NUMBER None None 0,
     mk_rule ''timestamp'' JSON_TYPE_STR None None 0]"

definition validator_rule :: "json_parse_rule list" where
  "validator_rule =
    [mk_rule ''id'' JSON_TYPE_STR None None 0,
     mk_rule ''status'' JSON_TYPE_BOOLEAN None None 0,
     mk_rule ''details'' JSON_TYPE_OBJECT (Some
       [mk_rule ''locktime'' JSON_TYPE_NUMBER None None 0,
        mk_rule ''minimum_amount'' JSON_TYPE_NUMBER None None 0,
        mk_rule ''reward'' JSON_TYPE_OBJECT (Some [mk_rule ''annual'' JSON_TYPE_NUMBER None None 0]) None 0]) None 0]"

text \<open>
  The destinations of a bound rule chain: for every scalar rule its offset and the bytes the parser
  may write there.
\<close>

definition dest_size :: "json_parse_rule \<Rightarrow> nat" where
  "dest_size r = (case rtype r of
     JSON_TYPE_NUMBER \<Rightarrow> UINT128_RAW_MAX_LEN | JSON_TYPE_BOOLEAN \<Rightarrow> 4 | JSON_TYPE_NUMBER32 \<Rightarrow> 4
   | JSON_TYPE_NUMBER64 \<Rightarrow> 8 | JSON_TYPE_DOUBLE \<Rightarrow> 8 | _ \<Rightarrow> rvalue_len r)"

function dests :: "json_parse_rule list \<Rightarrow> (nat option \<times> nat) list" where
  "dests [] = []"
| "dests (Rule k ty sub v n et es b c # rs) =
    (case sub of Some l \<Rightarrow> dests l | None \<Rightarrow> [(v, dest_size (Rule k ty None v n et es b c))]) @ dests rs"
  by pat_completeness auto
termination
  by (relation "measure (size_list size)") auto

text \<open>Ranges that follow one another without gap or overlap, from the first offset to the last end.\<close>

fun tiles :: "nat \<Rightarrow> (nat option \<times> nat) list \<Rightarrow> nat \<Rightarrow> bool" where
  "tiles a [] b \<longleftrightarrow> a = b"
| "tiles a ((v, n) # xs) b \<longleftrightarrow> v = Some a \<and> 0 < n \<and> tiles (a + n) xs b"


end
