(* ===== verification/CFormat.thy ===== *)
theory CFormat
  imports Prelude
begin

text \<open>
  The part of \<^verbatim>\<open>printf\<close> the sources use: \<^verbatim>\<open>%s\<close>, \<^verbatim>\<open>%u\<close>, \<^verbatim>\<open>%d\<close> and
  \<^verbatim>\<open>%%\<close> without flags, \<^verbatim>\<open>snprintf\<close> into a buffer, \<^verbatim>\<open>strchr\<close>,
  \<^verbatim>\<open>strstr\<close> and \<^verbatim>\<open>tolower\<close>.
\<close>

datatype fmt_arg = FmtS bytes | FmtU nat | FmtD int

definition int_str :: "int \<Rightarrow> bytes" where
  "int_str v = (if v < 0 then ch CHR ''-'' # dec_str (nat (- v)) else dec_str (nat v))"

text \<open>\<^term>\<open>None\<close>: an argument is missing, has the wrong type, or is an unterminated string.\<close>

fun c_format :: "bytes \<Rightarrow> fmt_arg list \<Rightarrow> bytes option" where
  "c_format [] args = Some []"
| "c_format (c # cs) args =
    (if c \<noteq> ch CHR ''%'' then map_option ((#) c) (c_format cs args)
     else (case cs of
       [] \<Rightarrow> None
     | d # ds \<Rightarrow>
         if d = ch CHR ''%'' then map_option ((#) d) (c_format ds args)
         else if d = ch CHR ''s'' then
           (case args of
             FmtS m # as \<Rightarrow> do { n \<leftarrow> strlen m; r \<leftarrow> c_format ds as; Some (take n m @ r) }
           | _ \<Rightarrow> None)
         else if d = ch CHR ''u'' then
           (case args of
             FmtU n # as \<Rightarrow> do { r \<leftarrow> c_format ds as; Some (dec_str n @ r) }
           | _ \<Rightarrow> None)
         else if d = ch CHR ''d'' then
           (case args of
             FmtD n # as \<Rightarrow> do { r \<leftarrow> c_format ds as; Some (int_str n @ r) }
           | _ \<Rightarrow> None)
         else None))"

text \<open>\<^verbatim>\<open>snprintf(buf + off, n, fmt, ...)\<close>: the untruncated length, and the buffer.\<close>

definition snprintf :: "bytes \<Rightarrow> nat \<Rightarrow> nat \<Rightarrow> bytes \<Rightarrow> fmt_arg list \<Rightarrow> (nat \<times> bytes) option" where
  "snprintf buf off n fmt args = do {
     out \<leftarrow> c_format fmt args;
     if n = 0 then Some (length out, buf)
     else do {
       buf' \<leftarrow> wr_bytes buf off (take (n - 1) out @ [0]);
       Some (length out, buf')
     }
   }"

text \<open>\<^verbatim>\<open>strchr(p, c) + 1\<close>, with \<^verbatim>\<open>p\<close> an index into the buffer.\<close>

fun find_char :: "u8 \<Rightarrow> bytes \<Rightarrow> nat option" where
  "find_char c [] = None"
| "find_char c (x # xs) = (if x = c then Some 0 else if x = 0 then None else map_option Suc (find_char c xs))"

definition after_char :: "u8 \<Rightarrow> bytes \<Rightarrow> nat \<Rightarrow> nat option" where
  "after_char c buf p = map_option (\<lambda>k. p + k + 1) (find_char c (drop p buf))"

text \<open>\<^verbatim>\<open>strstr\<close> on a terminated string: the index of the first occurrence.\<close>

fun strstr_at :: "bytes \<Rightarrow> bytes \<Rightarrow> nat \<Rightarrow> nat option" where
  "strstr_at [] pat i = None"
| "strstr_at (c # cs) pat i =
    (if take (length pat) (c # cs) = pat then Some i else strstr_at cs pat (Suc i))"

definition tolower :: "u8 \<Rightarrow> u8" where
  "tolower c = (if 65 \<le> c \<and> c \<le> 90 then c + 32 else c)"

lemma c_format_str: "0 \<notin> set s \<Longrightarrow> c_format (asc ''%s'') [FmtS (s @ 0 # r)] = Some s"
  by (simp add: strlen_append)

lemma int_str_no_nul [simp]: "0 \<notin> set (int_str v)"
  by (auto simp: int_str_def)

text \<open>What a format prints, when the strings it inserts have no NUL, has none either.\<close>

lemma c_format_no_nul: "c_format fmt args = Some out \<Longrightarrow> 0 \<notin> set fmt \<Longrightarrow> 0 \<notin> set out"
proof (induction fmt args arbitrary: out rule: c_format.induct)
  case (2 c cs args)
  have strs: "0 \<notin> set (take n m)" if "strlen m = Some n" for n m
    using that cstr_no_nul [of m] take_cstr [of m] by (auto simp: strlen_eq split: if_splits)
  show ?case
  proof (cases "c = ch CHR ''%''")
    case False
    then show ?thesis using 2 by auto
  next
    case True
    then obtain d ds where cs: "cs = d # ds" using 2 by (cases cs) auto
    then show ?thesis using 2 True strs
      by (auto split: if_splits list.splits fmt_arg.splits bind_splits dest: strs)
  qed
qed simp

lemma snprintf_text:
  assumes "c_format fmt args = Some out" "length out < n" "n = length buf"
  shows "snprintf buf 0 n fmt args = Some (length out, out @ 0 # drop (length out + 1) buf)"
  using assms by (auto simp: snprintf_def wr_bytes_def)

lemma snprintf_fits:
  assumes "c_format fmt args = Some out" "length buf = n" "0 < n"
  shows "\<exists>b. snprintf buf 0 n fmt args = Some (length out, b) \<and> length b = n"
proof -
  have fit: "0 + length (take (n - 1) out @ [0]) \<le> length buf" using assms(2,3) by auto
  show ?thesis unfolding snprintf_def using assms wr_bytes_in [OF fit] fit by auto
qed

lemma find_char_append: "c \<notin> set xs \<Longrightarrow> 0 \<notin> set xs \<Longrightarrow> find_char c (xs @ c # r) = Some (length xs)"
  by (induction xs) auto

text \<open>Skipping a field: the pointer behind the next separator.\<close>

lemma after_char_field:
  assumes "c \<notin> set xs" "0 \<notin> set xs" "p = length w"
  shows "after_char c (w @ xs @ c # r) p = Some (length (w @ xs @ [c]))"
  using assms by (simp add: after_char_def find_char_append)

lemma strstr_at_append:
  assumes "\<forall>i<length h. take (length pat) (drop i (h @ s)) \<noteq> pat" "take (length pat) s = pat" "s \<noteq> []"
  shows "strstr_at (h @ s) pat i = Some (i + length h)"
  using assms
proof (induction h arbitrary: i)
  case Nil
  then show ?case by (cases s) auto
next
  case (Cons c h)
  have "\<forall>i<length h. take (length pat) (drop i (h @ s)) \<noteq> pat"
  proof (intro allI impI)
    fix i assume "i < length h"
    then show "take (length pat) (drop i (h @ s)) \<noteq> pat" using Cons.prems(1)[rule_format, of "Suc i"] by simp
  qed
  moreover have "take (length pat) (c # h @ s) \<noteq> pat" using Cons.prems(1)[rule_format, of 0] by simp
  ultimately show ?case using Cons by simp
qed


end
