(* ===== verification/Request.thy ===== *)
theory Request
  imports CFormat
begin

text \<open>
  \<^verbatim>\<open>antenna_sdk/src/request.c\<close>: the table of requests, the composition of a URL, the parsing
  of a URL and the HTTP exchange of the nRF9160 build.  Sockets and the resolver belong to the modem
  library: what each call delivers is a script, a list of attempts.
\<close>

section \<open>The request table\<close>

datatype iotex_em_request = REQ_GET_ACCOUNT | REQ_GET_CHAINMETA | REQ_GET_TRANSFERS_BY_BLOCK
  | REQ_GET_ACTIONS_BY_HASH | REQ_GET_ACTIONS_BY_ADDR | REQ_READ_CONTRACT_BY_ADDR
  | REQ_GET_MEMBER_VALIDATORS | REQ_GET_MEMBER_DELEGATIONS | REQ_SEND_SIGNED_ACTION_BYTES
  | REQ_TAIL_NONE

record iotex_st_request_conf =
  conf_req :: iotex_em_request
  conf_paths :: "string list"
  conf_args_fmt :: "string option"

definition g_req_configs :: "iotex_st_request_conf list" where
  "g_req_configs =
    [\<lparr>conf_req = REQ_GET_ACCOUNT, conf_paths = [''accounts''], conf_args_fmt = Some ''%s''\<rparr>,
     \<lparr>conf_req = REQ_GET_CHAINMETA, conf_paths = [''chainmeta''], conf_args_fmt = None\<rparr>,
     \<lparr>conf_req = REQ_GET_ACTIONS_BY_ADDR, conf_paths = [''actions'', ''addr''],
       conf_args_fmt = Some ''%s?start=%u&count=%u''\<rparr>,
     \<lparr>conf_req = REQ_GET_ACTIONS_BY_HASH, conf_paths = [''actions'', ''hash''], conf_args_fmt = Some ''%s''\<rparr>,
     \<lparr>conf_req = REQ_READ_CONTRACT_BY_ADDR, conf_paths = [''contract'', ''addr''],
       conf_args_fmt = Some ''%s?method=%s&data=%s''\<rparr>,
     \<lparr>conf_req = REQ_GET_TRANSFERS_BY_BLOCK, conf_paths = [''transfers'', ''block''], conf_args_fmt = Some ''%s''\<rparr>,
     \<lparr>conf_req = REQ_GET_MEMBER_VALIDATORS, conf_paths = [''staking'', ''validators''], conf_args_fmt = None\<rparr>,
     \<lparr>conf_req = REQ_GET_MEMBER_DELEGATIONS, conf_paths = [''staking'', ''delegations''], conf_args_fmt = None\<rparr>,
     \<lparr>conf_req = REQ_SEND_SIGNED_ACTION_BYTES, conf_paths = [''actionbytes''], conf_args_fmt = Some ''%s''\<rparr>,
     \<lparr>conf_req = REQ_TAIL_NONE, conf_paths = [], conf_args_fmt = None\<rparr>]"

fun find_conf :: "iotex_st_request_conf list \<Rightarrow> iotex_em_request \<Rightarrow> iotex_st_request_conf option" where
  "find_conf [] r = None"
| "find_conf (c # cs) r =
    (if conf_paths c = [] then None else if conf_req c = r then Some c else find_conf cs r)"

definition IOTEX_EMB_BASE_URL :: string where
  "IOTEX_EMB_BASE_URL = ''http://ec2-52-83-24-120.cn-northwest-1.compute.amazonaws.com.cn:8192/v%d/''"

definition IOTEX_EMB_MAX_URL_LEN :: nat where "IOTEX_EMB_MAX_URL_LEN = 256"
definition IOTEX_EMB_MAX_ACB_LEN :: nat where "IOTEX_EMB_MAX_ACB_LEN = 1024"
definition IOTEX_EBM_MAX_RES_LEN :: nat where "IOTEX_EBM_MAX_RES_LEN = 3072"

section \<open>Composing a URL\<close>

text \<open>
  The outer option is undefined behaviour, the inner one a NULL result.  The loop returns the buffer
  and \<^verbatim>\<open>url_tail - url\<close>.
\<close>

fun compose_path :: "bytes \<Rightarrow> nat \<Rightarrow> nat \<Rightarrow> bytes list \<Rightarrow> (bytes \<times> nat) option option" where
  "compose_path url tail mx [] = Some (Some (url, tail))"
| "compose_path url tail mx (p # ps) =
    (if tail + length p + 1 < mx then do {
       url1 \<leftarrow> wr_bytes url tail p;
       url2 \<leftarrow> wr url1 (tail + length p) (ch CHR ''/'');
       compose_path url2 (tail + length p + 1) mx ps
     }
     else Some None)"

definition req_compose_url ::
  "bytes \<Rightarrow> nat \<Rightarrow> iotex_em_request \<Rightarrow> fmt_arg list \<Rightarrow> bytes option option" where
  "req_compose_url url url_max_size req ap =
    (case find_conf g_req_configs req of
       None \<Rightarrow> Some None
     | Some conf \<Rightarrow> do {
         url0 \<leftarrow> wr_bytes url 0 (replicate url_max_size 0);
         (_, url1) \<leftarrow> snprintf url0 0 url_max_size (asc IOTEX_EMB_BASE_URL) [FmtD 1];
         tail \<leftarrow> strlen url1;
         r \<leftarrow> compose_path url1 tail url_max_size (List.map asc (conf_paths conf));
         (case r of
            None \<Rightarrow> Some None
          | Some (url2, tail2) \<Rightarrow>
              (case conf_args_fmt conf of
                 None \<Rightarrow> do { guard (0 < tail2); url3 \<leftarrow> wr url2 (tail2 - 1) 0; Some (Some url3) }
               | Some fmt \<Rightarrow> do {
                   (_, url3) \<leftarrow> snprintf url2 tail2 (url_max_size - tail2) (asc fmt) ap;
                   Some (Some url3)
                 }))
       })"

section \<open>Parsing a URL\<close>

text \<open>The members that \<^verbatim>\<open>sscanf\<close> has not reached keep what \<^verbatim>\<open>malloc\<close> left in them: \<^term>\<open>None\<close>.\<close>

record Host_Path =
  hp_host :: "bytes option"
  hp_port :: "int option"
  hp_path :: "bytes option"

text \<open>\<^verbatim>\<open>%<n>[^c]\<close>: at most \<^verbatim>\<open>n\<close> characters other than \<^verbatim>\<open>c\<close>, at least one.\<close>

definition scan_until :: "u8 \<Rightarrow> nat \<Rightarrow> bytes \<Rightarrow> (bytes \<times> bytes) option" where
  "scan_until c n s =
    (let t = takeWhile (\<lambda>x. x \<noteq> c) (take n s) in if t = [] then None else Some (t, drop (length t) s))"

text \<open>\<^verbatim>\<open>%<n>d\<close>; a value outside the range of \<^verbatim>\<open>int\<close> leaves the member indeterminate.\<close>

definition scan_int :: "nat \<Rightarrow> bytes \<Rightarrow> (int \<times> bytes) option" where
  "scan_int n s =
    (let s1 = dropWhile (\<lambda>c. c = 32 \<or> (9 \<le> c \<and> c \<le> 13)) s;
         sgned = (s1 \<noteq> [] \<and> (hd s1 = ch CHR ''-'' \<or> hd s1 = ch CHR ''+''));
         neg = (s1 \<noteq> [] \<and> hd s1 = ch CHR ''-'');
         s2 = (if sgned then tl s1 else s1);
         d = takeWhile is_digit (take (if sgned then n - 1 else n) s2)
     in if d = [] then None
        else Some (if neg then - int (dec_val d) else int (dec_val d), drop (length d) s2))"

definition parseURL :: "bytes \<Rightarrow> Host_Path" where
  "parseURL url =
    (let s = cstr url; lit = asc ''http://''; fresh = \<lparr>hp_host = None, hp_port = None, hp_path = None\<rparr> in
     if take (length lit) s \<noteq> lit then fresh
     else (case scan_until (ch CHR '':'') 99 (drop (length lit) s) of
       None \<Rightarrow> fresh
     | Some (h, s1) \<Rightarrow>
         let p1 = fresh\<lparr>hp_host := Some h\<rparr> in
         if s1 = [] \<or> hd s1 \<noteq> ch CHR '':'' then p1
         else (case scan_int 99 (tl s1) of
           None \<Rightarrow> p1
         | Some (n, s2) \<Rightarrow>
             if n < - (2 ^ 31) \<or> 2 ^ 31 \<le> n then p1 else
             let p2 = p1\<lparr>hp_port := Some n\<rparr> in
             if s2 = [] \<or> hd s2 \<noteq> ch CHR ''/'' then p2
             else (case scan_until 10 999 (tl s2) of
               None \<Rightarrow> p2
             | Some (p, _) \<Rightarrow> p2\<lparr>hp_path := Some p\<rparr>))))"

section \<open>The HTTP exchange\<close>

text \<open>
  The result of the exchange: undefined behaviour, a call that never comes back (the script ends
  while the code still waits), or a value.
\<close>

datatype 'a outcome = Undef | Blocked | Ret 'a

text \<open>One attempt of a socket call: EAGAIN, another error, or what it delivers.\<close>

datatype 'a attempt = Again | Fail | Got 'a

fun blocking :: "'a attempt list \<Rightarrow> ('a option \<times> 'a attempt list) option" where
  "blocking [] = None"
| "blocking (Again # xs) = blocking xs"
| "blocking (Fail # xs) = Some (None, xs)"
| "blocking (Got x # xs) = Some (Some x, xs)"

record net =
  resolves :: "bytes \<Rightarrow> bool"
  socket_ok :: bool
  connects :: "unit attempt list"
  sends :: "nat attempt list"
  recvs :: "bytes attempt list"

definition MAX_MTU_SIZE :: nat where "MAX_MTU_SIZE = 1000"
definition RECV_BUF_SIZE :: nat where "RECV_BUF_SIZE = 2048"

definition crlf :: string where "crlf = [CHR 0x0D, CHR 0x0A]"

definition POST_TEMPLATE :: string where
  "POST_TEMPLATE = ''POST %s HTTP/1.1'' @ crlf @ ''Host: %s'' @ crlf @ ''Connection: close'' @ crlf @
    ''Content-type: application/x-www-form-urlencoded'' @ crlf @ ''Content-length: %d'' @ crlf @ crlf"

definition GET_TEMPLATE :: string where
  "GET_TEMPLATE = ''GET /%s HTTP/1.1'' @ crlf @ ''Host: %s:%d'' @ crlf @ ''Connection: close'' @ crlf @ crlf"

text \<open>The loop that sends until a call succeeds; an error other than EAGAIN is retried too.\<close>

fun send_loop :: "nat attempt list \<Rightarrow> bool" where
  "send_loop [] = False"
| "send_loop (Got n # xs) = True"
| "send_loop (_ # xs) = send_loop xs"

text \<open>The receive loop: the buffer and the total \<^verbatim>\<open>tot_num_bytes\<close>.\<close>

fun recv_loop :: "bytes attempt list \<Rightarrow> bytes \<Rightarrow> int \<Rightarrow> (bytes \<times> int) outcome" where
  "recv_loop [] buf tot = Blocked"
| "recv_loop (Again # xs) buf tot = recv_loop xs buf tot"
| "recv_loop (Fail # xs) buf tot = Ret (buf, tot - 1)"
| "recv_loop (Got d # xs) buf tot =
    (if d = [] then Ret (buf, tot)
     else (case wr_bytes buf 0 d of
       None \<Rightarrow> Undef
     | Some buf' \<Rightarrow> recv_loop xs buf' (tot + int (length d))))"

text \<open>The loop that moves the text at \<^verbatim>\<open>pStr\<close> to the front of the buffer.\<close>

function shift_loop :: "bytes \<Rightarrow> nat \<Rightarrow> nat \<Rightarrow> bytes option" where
  "shift_loop buf p i =
    (case rd buf (p + i) of
       None \<Rightarrow> None
     | Some c \<Rightarrow>
         if c = 0 then wr buf i 0
         else (case wr buf i c of None \<Rightarrow> None | Some buf' \<Rightarrow> shift_loop buf' p (Suc i)))"
  by pat_completeness auto
termination
  by (relation "measure (\<lambda>(buf, p, i). length buf - (p + i))") (auto simp: buf_simps dest!: wr_Some_length)

declare shift_loop.simps [simp del]

text \<open>
  After the connection is up: the request is formatted into the send buffer (whose uninitialised
  rest is a parameter), sent with the length \<^verbatim>\<open>snprintf\<close> returned, and the reply received.
  Sending more than the buffer holds reads past it.
\<close>

definition http_exchange ::
  "net \<Rightarrow> bytes \<Rightarrow> bytes \<Rightarrow> int \<Rightarrow> bytes \<Rightarrow> bytes \<Rightarrow> bool \<Rightarrow> (int \<times> bytes) outcome" where
  "http_exchange n path host port send_buf response is_post =
    (case (if is_post then snprintf send_buf 0 MAX_MTU_SIZE (asc POST_TEMPLATE)
                             [FmtS (path @ [0]), FmtS (host @ [0]), FmtD 0]
           else snprintf send_buf 0 MAX_MTU_SIZE (asc GET_TEMPLATE)
                  [FmtS (path @ [0]), FmtS (host @ [0]), FmtD port]) of
       None \<Rightarrow> Undef
     | Some (send_data_len, send_buf') \<Rightarrow>
         if send_data_len > length send_buf' then Undef
         else if \<not> send_loop (sends n) then Blocked
         else (case recv_loop (recvs n) response 0 of
           Undef \<Rightarrow> Undef
         | Blocked \<Rightarrow> Blocked
         | Ret (buf, tot) \<Rightarrow>
             (case (if tot < 0 then None else wr buf (nat tot) 0) of
                None \<Rightarrow> Undef
              | Some buf1 \<Rightarrow>
                  (case strstr_at (cstr buf1) [ch CHR ''{'', ch CHR 0x22] 0 of
                     None \<Rightarrow> Ret (0, buf1)
                   | Some p \<Rightarrow>
                       if is_post then Ret (0, buf1)
                       else (case shift_loop buf1 p 0 of None \<Rightarrow> Undef | Some buf2 \<Rightarrow> Ret (0, buf2))))))"

text \<open>
  \<^verbatim>\<open>req_basic_request\<close>.  \<^verbatim>\<open>mallocs\<close> tells whether both allocations succeed and what the
  send buffer holds.  When the name does not resolve, \<^verbatim>\<open>res\<close> and \<^verbatim>\<open>fd\<close> are freed and
  closed without having been set.
\<close>

definition req_basic_request ::
  "net \<Rightarrow> bytes option \<Rightarrow> bytes \<Rightarrow> bytes \<Rightarrow> nat \<Rightarrow> bool \<Rightarrow> (int \<times> bytes) outcome" where
  "req_basic_request n mallocs request response response_max_size is_post =
    (case mallocs of
       None \<Rightarrow> Ret (-1, response)
     | Some send_buf \<Rightarrow>
         (let hp = parseURL request in
          case hp_host hp of
            None \<Rightarrow> Undef
          | Some host \<Rightarrow>
              if \<not> resolves n host then Undef
              else (case hp_port hp of
                None \<Rightarrow> Undef
              | Some port \<Rightarrow>
                  if \<not> socket_ok n then Ret (0, response)
                  else (case blocking (connects n) of
                    None \<Rightarrow> Blocked
                  | Some (None, _) \<Rightarrow> Ret (0, response)
                  | Some (Some _, _) \<Rightarrow>
                      (case hp_path hp of
                         None \<Rightarrow> Undef
                       | Some path \<Rightarrow> http_exchange n path host port send_buf response is_post)))))"

definition req_get_request :: "net \<Rightarrow> bytes option \<Rightarrow> bytes \<Rightarrow> bytes \<Rightarrow> nat \<Rightarrow> (int \<times> bytes) outcome" where
  "req_get_request n m request response response_max_size =
    req_basic_request n m request response response_max_size False"

definition req_post_request :: "net \<Rightarrow> bytes option \<Rightarrow> bytes \<Rightarrow> bytes \<Rightarrow> nat \<Rightarrow> (int \<times> bytes) outcome" where
  "req_post_request n m request response response_max_size =
    req_basic_request n m request response response_max_size True"

section \<open>The receive callback of the host build\<close>

record iotex_st_response_data =
  res_data :: "bytes option"
  res_len :: nat

definition free_response_data :: "iotex_st_response_data option \<Rightarrow> iotex_st_response_data option" where
  "free_response_data res = (case res of
     None \<Rightarrow> None
   | Some r \<Rightarrow> if res_data r = None then Some r else Some \<lparr>res_data = None, res_len = 0\<rparr>)"

text \<open>
  \<^verbatim>\<open>malloc\<close> and \<^verbatim>\<open>realloc\<close> are parameters; the size product wraps at 32 bits, as does the
  sum handed to \<^verbatim>\<open>realloc\<close>.
\<close>

definition curl_write_callback ::
  "(nat \<Rightarrow> bytes option) \<Rightarrow> (bytes \<Rightarrow> nat \<Rightarrow> bytes option) \<Rightarrow> bytes \<Rightarrow> nat \<Rightarrow> nat \<Rightarrow> iotex_st_response_data \<Rightarrow>
   (nat \<times> iotex_st_response_data) option" where
  "curl_write_callback malloc realloc ptr sz nmemb res =
    (let new_len = sz * nmemb mod 2 ^ 32;
         store = (\<lambda>block. do {
           src \<leftarrow> rd_bytes ptr 0 new_len;
           d \<leftarrow> wr_bytes block (res_len res) src;
           Some (new_len, \<lparr>res_data = Some d, res_len = (res_len res + new_len) mod 2 ^ 32\<rparr>) })
     in case res_data res of
       None \<Rightarrow> (case malloc new_len of
           None \<Rightarrow> Some (0, res)
         | Some block \<Rightarrow> store block)
     | Some old \<Rightarrow> (case realloc old ((res_len res + new_len) mod 2 ^ 32) of
           None \<Rightarrow> Some (0, the (free_response_data (Some res)))
         | Some block \<Rightarrow> store block))"

section \<open>The composed URL\<close>

definition base_url :: bytes where
  "base_url = asc ''http://ec2-52-83-24-120.cn-northwest-1.compute.amazonaws.com.cn:8192/v1/''"

definition req_path :: "bytes list \<Rightarrow> bytes" where
  "req_path ps = concat (List.map (\<lambda>p. p @ [ch CHR ''/'']) ps)"

text \<open>The path of a request, and the text its URL should have; without arguments the last slash goes.\<close>

definition path_of :: "iotex_em_request \<Rightarrow> bytes" where
  "path_of r = (case find_conf g_req_configs r of None \<Rightarrow> [] | Some c \<Rightarrow> req_path (List.map asc (conf_paths c)))"

definition req_text :: "iotex_em_request \<Rightarrow> fmt_arg list \<Rightarrow> bytes option" where
  "req_text r ap = do {
     c \<leftarrow> find_conf g_req_configs r;
     (case conf_args_fmt c of
        None \<Rightarrow> Some (base_url @ butlast (path_of r))
      | Some fmt \<Rightarrow> map_option (\<lambda>a. base_url @ path_of r @ a) (c_format (asc fmt) ap))
   }"

lemma base_url_format: "c_format (asc IOTEX_EMB_BASE_URL) [FmtD 1] = Some base_url"
  by (simp add: IOTEX_EMB_BASE_URL_def base_url_def int_str_def dec_str.simps)

lemma base_url_no_nul: "0 \<notin> set base_url"
  by (simp add: base_url_def)

lemma find_conf_paths: "find_conf cs r = Some c \<Longrightarrow> conf_paths c \<noteq> []"
  by (induction cs) (auto split: if_splits)

lemma compose_path_run:
  "compose_path (w @ replicate k 0 @ z) (length w) (length w + k) ps =
    Some (if ps = [] \<or> length (req_path ps) < k
      then Some (w @ req_path ps @ replicate (k - length (req_path ps)) 0 @ z, length w + length (req_path ps))
      else None)"
proof (induction ps arbitrary: w k)
  case Nil
  then show ?case by (simp add: req_path_def)
next
  case (Cons p ps)
  show ?case
  proof (cases "length p + 1 < k")
    case False
    then show ?thesis by (simp add: req_path_def)
  next
    case True
    let ?r = "replicate k 0 @ z" and ?j = "k - length p - 1"
    let ?w = "w @ p @ [ch CHR ''/'']"
    have 1: "wr_bytes (w @ ?r) (length w) p = Some ((w @ p) @ drop (length p) ?r)"
      using True by (intro wr_bytes_append) auto
    have "drop (length p) ?r = replicate (k - length p) 0 @ z" using True by simp
    also have "\<dots> = 0 # replicate ?j 0 @ z"
      using True by (cases "k - length p") auto
    finally have 2: "wr ((w @ p) @ drop (length p) ?r) (length w + length p) (ch CHR ''/'') =
        Some (?w @ replicate ?j 0 @ z)"
      using wr_append [of "length w + length p" "w @ p" "0 # replicate ?j 0 @ z" "ch CHR ''/''"] by simp
    have mx: "length w + k = length ?w + ?j" using True by simp
    have fits: "length (req_path (p # ps)) = length p + 1 + length (req_path ps)" by (simp add: req_path_def)
    have "ps = [] \<Longrightarrow> length (req_path ps) < ?j" using True by (simp add: req_path_def)
    then have iff: "(ps = [] \<or> length (req_path ps) < ?j) = (length (req_path (p # ps)) < k)"
      using fits by auto
    have "compose_path (w @ ?r) (length w) (length w + k) (p # ps) =
        compose_path (?w @ replicate ?j 0 @ z) (length ?w) (length ?w + ?j) ps"
      using True 1 2 mx by simp
    also have "\<dots> = Some (if length (req_path (p # ps)) < k
        then Some (?w @ req_path ps @ replicate (?j - length (req_path ps)) 0 @ z, length ?w + length (req_path ps))
        else None)"
      unfolding Cons.IH [of ?w ?j] iff ..
    finally show ?thesis using fits by (simp add: req_path_def)
  qed
qed

text \<open>\<^verbatim>\<open>snprintf\<close> into a zeroed stretch of the buffer.\<close>

lemma snprintf_zeroed:
  assumes "c_format fmt args = Some out" "0 < k"
  shows "snprintf (w @ replicate k 0 @ z) (length w) k fmt args =
    Some (length out, w @ take (k - 1) out @ replicate (k - length (take (k - 1) out)) 0 @ z)"
proof -
  let ?s = "take (k - 1) out"
  have s: "length ?s < k" using assms(2) by simp
  have "wr_bytes (w @ replicate k 0 @ z) (length w) (?s @ [0]) =
      Some ((w @ ?s @ [0]) @ drop (length (?s @ [0])) (replicate k 0 @ z))"
    using s by (intro wr_bytes_append) auto
  also have "drop (length (?s @ [0])) (replicate k 0 @ z) = replicate (k - Suc (length ?s)) 0 @ z"
    using s by simp
  also have "(w @ ?s @ [0]) @ replicate (k - Suc (length ?s)) 0 @ z = w @ ?s @ replicate (k - length ?s) 0 @ z"
    using s by (cases "k - length ?s") (auto simp: Suc_diff_Suc [symmetric] dest: sym)
  finally show ?thesis using assms by (simp add: snprintf_def)
qed

text \<open>C14: Composing the URL of any request, from arguments of the right types, gives the base URL, the path of the
  table and the formatted arguments, cut off at one byte less than the size of the buffer and
  followed by zeros, or NULL exactly when base and path alone do not fit; it never leaves the buffer.\<close>

theorem req_compose_url_exact:
  assumes "req_text r ap = Some t" "0 < mx" "mx \<le> length url"
  shows "req_compose_url url mx r ap =
    Some (if length base_url + length (path_of r) < mx
      then Some (take (mx - 1) t @ replicate (mx - length (take (mx - 1) t)) 0 @ drop mx url)
      else None)"
proof -
  obtain c where c: "find_conf g_req_configs r = Some c" using assms(1) by (auto simp: req_text_def bind_eq_Some_conv)
  let ?ps = "List.map asc (conf_paths c)" and ?z = "drop mx url"
  have ps: "?ps \<noteq> []" "req_path ?ps \<noteq> []" "path_of r = req_path ?ps"
    using find_conf_paths [OF c] by (auto simp: req_path_def path_of_def c)
  obtain w k where w: "w = take (mx - 1) base_url" "k = mx - length w" by blast
  have k: "0 < k" "length w + k = mx" using w assms(2) by auto
  have url0: "wr_bytes url 0 (replicate mx 0) = Some (replicate mx 0 @ ?z)"
    using assms(3) by (simp add: wr_bytes_def)
  have url1: "snprintf (replicate mx 0 @ ?z) 0 mx (asc IOTEX_EMB_BASE_URL) [FmtD 1] =
      Some (length base_url, w @ replicate k 0 @ ?z)"
    using snprintf_zeroed [OF base_url_format assms(2), of "[]" ?z] w by simp
  have nn: "0 \<notin> set w" using base_url_no_nul w in_set_takeD by metis
  have len: "strlen (w @ replicate k 0 @ ?z) = Some (length w)"
    using strlen_append [OF nn] k(1) by (cases k) auto
  have iff: "length (req_path ?ps) < k \<longleftrightarrow> length base_url + length (path_of r) < mx"
  proof (cases "length base_url \<le> mx - 1")
    case True
    then show ?thesis using w ps(3) by auto
  next
    case False
    then show ?thesis using w ps(2,3) by (cases "req_path ?ps") auto
  qed
  note cp = compose_path_run [of w k ?z ?ps, unfolded k(2)]
  show ?thesis
  proof (cases "length base_url + length (path_of r) < mx")
    case False
    then show ?thesis using c url0 url1 len cp iff ps(1) by (simp add: req_compose_url_def)
  next
    case True
    then have wb: "w = base_url" using w by simp
    let ?k = "k - length (req_path ?ps)" and ?w = "base_url @ req_path ?ps"
    have k2: "0 < ?k" "length ?w + ?k = mx" using iff True wb k(2) by auto
    have loop: "compose_path (w @ replicate k 0 @ ?z) (length w) mx ?ps =
        Some (Some (?w @ replicate ?k 0 @ ?z, length ?w))"
      using cp iff True wb by simp
    show ?thesis
    proof (cases "conf_args_fmt c")
      case None
      then have t: "t = base_url @ butlast (req_path ?ps)" using assms(1) c ps(3) by (simp add: req_text_def)
      have split: "?w @ replicate ?k 0 @ ?z = t @ [last (req_path ?ps)] @ replicate ?k 0 @ ?z"
        and lt: "length ?w = Suc (length t)"
        using t ps(2) by auto
      have "wr (?w @ replicate ?k 0 @ ?z) (length ?w - 1) 0 = Some (t @ 0 # replicate ?k 0 @ ?z)"
        unfolding split lt by (simp add: wr_def list_update_append)
      moreover have "0 < length ?w" "take (mx - 1) t = t" "mx - length t = Suc ?k" using lt k2 by auto
      ultimately show ?thesis using None c url0 url1 len loop True by (simp add: req_compose_url_def)
    next
      case (Some fmt)
      then obtain a where a: "c_format (asc fmt) ap = Some a" "t = base_url @ req_path ?ps @ a"
        using assms(1) c ps(3) by (auto simp: req_text_def)
      have n: "mx - length ?w = ?k" using k2 by simp
      have "snprintf (?w @ replicate ?k 0 @ ?z) (length ?w) (mx - length ?w) (asc fmt) ap =
          Some (length a, ?w @ take (?k - 1) a @ replicate (?k - length (take (?k - 1) a)) 0 @ ?z)"
        unfolding n by (rule snprintf_zeroed [OF a(1) k2(1)])
      moreover have tk: "take (mx - 1) t = ?w @ take (?k - 1) a"
      proof -
        have "t = ?w @ a" "mx - 1 - length ?w = ?k - 1" "length ?w \<le> mx - 1" using a(2) k2 by auto
        then show ?thesis unfolding \<open>t = ?w @ a\<close> take_append [of "mx - 1" ?w] by simp
      qed
      moreover have "mx - length (take (mx - 1) t) = ?k - length (take (?k - 1) a)"
        unfolding tk using k2 by simp
      ultimately show ?thesis using Some c url0 url1 len loop True by (simp add: req_compose_url_def)
    qed
  qed
qed

text \<open>A request with all its argument kinds, in the buffer the callers pass.\<close>

lemma req_compose_url_exact_witness:
  "req_compose_url (replicate 90 7) 88 REQ_GET_ACTIONS_BY_ADDR [FmtS (asc ''io1'' @ [0]), FmtU 5, FmtU 10] =
    Some (if length base_url + length (path_of REQ_GET_ACTIONS_BY_ADDR) < 88
      then Some (take (88 - 1) (base_url @ asc ''actions/addr/io1?start=5&count=10'')
        @ replicate (88 - length (take (88 - 1) (base_url @ asc ''actions/addr/io1?start=5&count=10''))) 0
        @ drop 88 (replicate 90 7))
      else None)"
  by (rule req_compose_url_exact)
    (simp_all add: req_text_def path_of_def g_req_configs_def req_path_def dec_str.simps)

section \<open>The exchange\<close>

text \<open>The shift: what is at \<^verbatim>\<open>pStr\<close> up to its NUL ends up at the front, behind it the old contents.\<close>

lemma shift_loop_run:
  assumes "0 \<notin> set s" "buf = w @ g @ s @ 0 # z" "length w = i" "length g = p"
  shows "\<exists>r. shift_loop buf p i = Some (w @ s @ 0 # r) \<and> length (w @ s @ 0 # r) = length buf"
  using assms
proof (induction s arbitrary: buf w g i)
  case Nil
  obtain r where r: "g @ 0 # z = hd (g @ [0]) # r" by (cases g) auto
  have "rd buf (p + i) = Some 0" using Nil by (simp add: rd_def nth_append)
  moreover have "wr buf i 0 = Some (w @ 0 # r)"
    using Nil r wr_append [of i w "g @ 0 # z" 0] by (cases g) auto
  moreover have "length (w @ 0 # r) = length buf" using Nil r by (cases g) auto
  ultimately show ?case by (subst shift_loop.simps) simp
next
  case (Cons c s)
  have c: "rd buf (p + i) = Some c" "c \<noteq> 0" using Cons.prems by (auto simp: rd_def nth_append)
  let ?g = "tl (g @ [c])"
  have buf': "wr buf i c = Some ((w @ [c]) @ ?g @ s @ 0 # z)"
    using Cons.prems wr_append [of i w "g @ (c # s) @ 0 # z" c] by (cases g) auto
  have "\<exists>r. shift_loop ((w @ [c]) @ ?g @ s @ 0 # z) p (Suc i) = Some ((w @ [c]) @ s @ 0 # r) \<and>
      length ((w @ [c]) @ s @ 0 # r) = length ((w @ [c]) @ ?g @ s @ 0 # z)"
    using Cons.prems by (intro Cons.IH [where g = ?g and w = "w @ [c]"]) auto
  then show ?case using c buf' wr_Some_length [OF buf'] by (subst shift_loop.simps) auto
qed

text \<open>Parsing a URL of the shape the composer builds.\<close>

lemma takeWhile_take_append:
  "\<lbrakk>\<forall>x\<in>set h. P x; length h \<le> n; \<not> P c\<rbrakk> \<Longrightarrow> takeWhile P (take n (h @ c # r)) = h"
  by (cases "n - length h") (auto simp: takeWhile_append2)

lemma scan_until_field:
  "\<lbrakk>c \<notin> set h; length h \<le> n; h \<noteq> []\<rbrakk> \<Longrightarrow> scan_until c n (h @ c # r) = Some (h, c # r)"
proof -
  assume a: "c \<notin> set h" "length h \<le> n" "h \<noteq> []"
  have "takeWhile (\<lambda>x. x \<noteq> c) (take n (h @ c # r)) = h"
    using a by (intro takeWhile_take_append) auto
  then show ?thesis unfolding scan_until_def Let_def using a by simp
qed

lemma scan_until_end: "\<lbrakk>c \<notin> set h; length h \<le> n; h \<noteq> []\<rbrakk> \<Longrightarrow> scan_until c n h = Some (h, [])"
proof -
  assume a: "c \<notin> set h" "length h \<le> n" "h \<noteq> []"
  have t: "take n h = h" using a by simp
  have "takeWhile (\<lambda>x. x \<noteq> c) h = h" using a by (auto simp: takeWhile_eq_all_conv)
  then show ?thesis unfolding scan_until_def t Let_def by (metis a(3) append_Nil2 append_eq_conv_conj)
qed

lemma scan_int_dec:
  assumes "p < 2 ^ 31" "\<not> is_digit c"
  shows "scan_int 99 (dec_str p @ c # r) = Some (int p, c # r)"
proof -
  obtain d ds where d: "dec_str p = d # ds" by (cases "dec_str p") auto
  then have dig: "is_digit d" using dec_str_digits [of p] by simp
  then have nd: "\<not> (d = 32 \<or> (9 \<le> d \<and> d \<le> 13))" "d \<noteq> ch CHR ''-''" "d \<noteq> ch CHR ''+''"
    by (auto simp: is_digit_unat word_le_nat_alt)
  have "length (dec_str p) \<le> 99" using dec_str_length [of p 99] assms(1) by simp
  then have tw: "takeWhile is_digit (take 99 (dec_str p @ c # r)) = dec_str p"
    using dec_str_digits [of p] assms(2) by (intro takeWhile_take_append) (auto simp: list_all_iff)
  have dw: "dropWhile (\<lambda>c. c = 32 \<or> (9 \<le> c \<and> c \<le> 13)) (dec_str p @ c # r) = dec_str p @ c # r"
    unfolding d append_Cons dropWhile.simps using nd(1) by auto
  have hd: "hd (dec_str p @ c # r) = d" by (simp add: d)
  show ?thesis unfolding scan_int_def Let_def dw hd using nd tw by simp
qed

definition url_text :: "bytes \<Rightarrow> nat \<Rightarrow> bytes \<Rightarrow> bytes" where
  "url_text h p path = asc ''http://'' @ h @ ch CHR '':'' # dec_str p @ ch CHR ''/'' # path"

definition url_ok :: "bytes \<Rightarrow> nat \<Rightarrow> bytes \<Rightarrow> bool" where
  "url_ok h p path \<longleftrightarrow> ch CHR '':'' \<notin> set h \<and> 0 \<notin> set h \<and> h \<noteq> [] \<and> length h \<le> 99 \<and> p < 2 ^ 31 \<and>
    10 \<notin> set path \<and> 0 \<notin> set path \<and> path \<noteq> [] \<and> length path \<le> 999"

lemma parseURL_url:
  assumes "url_ok h p path"
  shows "parseURL (url_text h p path @ 0 # z) =
    \<lparr>hp_host = Some h, hp_port = Some (int p), hp_path = Some path\<rparr>"
proof -
  have nn: "0 \<notin> set (url_text h p path)" using assms by (auto simp: url_ok_def url_text_def)
  have 1: "scan_until (ch CHR '':'') 99 (h @ ch CHR '':'' # dec_str p @ ch CHR ''/'' # path) =
      Some (h, ch CHR '':'' # dec_str p @ ch CHR ''/'' # path)"
    using assms by (intro scan_until_field) (auto simp: url_ok_def)
  have 2: "scan_int 99 (dec_str p @ ch CHR ''/'' # path) = Some (int p, ch CHR ''/'' # path)"
    using assms by (intro scan_int_dec) (auto simp: url_ok_def is_digit_unat)
  have 3: "scan_until 10 999 path = Some (path, [])"
    using assms by (intro scan_until_end) (auto simp: url_ok_def)
  have 4: "int p < 2147483648" using assms by (simp add: url_ok_def)
  have 5: "cstr (url_text h p path @ 0 # z) = url_text h p path" using nn by (rule cstr_append)
  show ?thesis unfolding parseURL_def 5 using 1 2 3 4 by (simp add: url_text_def Let_def)
qed

text \<open>The requests that are sent.\<close>

definition get_text :: "bytes \<Rightarrow> nat \<Rightarrow> bytes \<Rightarrow> bytes" where
  "get_text h p path = asc ''GET /'' @ path @ asc ('' HTTP/1.1'' @ crlf @ ''Host: '') @ h @ ch CHR '':'' # dec_str p @
    asc (crlf @ ''Connection: close'' @ crlf @ crlf)"

definition post_text :: "bytes \<Rightarrow> bytes \<Rightarrow> bytes" where
  "post_text h path = asc ''POST '' @ path @ asc ('' HTTP/1.1'' @ crlf @ ''Host: '') @ h @
    asc (crlf @ ''Connection: close'' @ crlf @ ''Content-type: application/x-www-form-urlencoded'' @ crlf @
      ''Content-length: 0'' @ crlf @ crlf)"

lemma get_format:
  "\<lbrakk>0 \<notin> set h; 0 \<notin> set path\<rbrakk> \<Longrightarrow>
   c_format (asc GET_TEMPLATE) [FmtS (path @ [0]), FmtS (h @ [0]), FmtD (int p)] = Some (get_text h p path)"
  by (simp add: GET_TEMPLATE_def crlf_def get_text_def strlen_append int_str_def)

lemma post_format:
  "\<lbrakk>0 \<notin> set h; 0 \<notin> set path\<rbrakk> \<Longrightarrow>
   c_format (asc POST_TEMPLATE) [FmtS (path @ [0]), FmtS (h @ [0]), FmtD 0] = Some (post_text h path)"
  by (simp add: POST_TEMPLATE_def crlf_def post_text_def strlen_append int_str_def dec_str.simps)

text \<open>A connection that comes up and a request that is sent.\<close>

definition connected :: "net \<Rightarrow> bytes \<Rightarrow> bool" where
  "connected n h \<longleftrightarrow> resolves n h \<and> socket_ok n \<and>
    (\<exists>xs. blocking (connects n) = Some (Some (), xs)) \<and> send_loop (sends n)"

lemma req_basic_request_connected:
  assumes "url_ok h p path" "connected n h"
  shows "req_basic_request n (Some sb) (url_text h p path @ 0 # z) response mx is_post =
    http_exchange n path h (int p) sb response is_post"
  using assms(2) by (auto simp: req_basic_request_def parseURL_url [OF assms(1)] connected_def)

definition overlay :: "bytes \<Rightarrow> bytes \<Rightarrow> bytes" where
  "overlay b d = d @ drop (length d) b"

lemma length_overlay: "length d \<le> length b \<Longrightarrow> length (overlay b d) = length b"
  by (simp add: overlay_def)

lemma recv_loop_segments:
  "\<forall>d\<in>set ds. d \<noteq> [] \<and> length d \<le> length buf \<Longrightarrow>
   recv_loop (List.map Got ds @ [Got []]) buf tot =
     Ret (foldl overlay buf ds, tot + int (sum_list (List.map length ds))) \<and>
   length (foldl overlay buf ds) = length buf"
proof (induction ds arbitrary: buf tot)
  case (Cons d ds)
  have "wr_bytes buf 0 d = Some (overlay buf d)" "length (overlay buf d) = length buf"
    using Cons.prems by (auto simp: overlay_def)
  then show ?case using Cons.IH [of "overlay buf d" "tot + int (length d)"] Cons.prems by simp
qed simp


text \<open>C21: A GET request to a server whose reply arrives in one segment leaves in the response buffer exactly
  the JSON text of the reply, from its first opening brace with a quote on, NUL-terminated, without
  leaving the buffer, whatever number of EAGAINs the calls go through.\<close>

theorem req_get_single_segment:
  assumes "url_ok h p path" "connected n h" "recvs n = [Got (hdr @ js), Got []]"
    "length sb = MAX_MTU_SIZE" "length (get_text h p path) \<le> MAX_MTU_SIZE"
    "0 \<notin> set (hdr @ js)" "take 2 js = asc [CHR ''{'', CHR 0x22]"
    "\<forall>i<length hdr. take 2 (drop i (hdr @ js)) \<noteq> asc [CHR ''{'', CHR 0x22]"
    "length (hdr @ js) < length response"
  shows "\<exists>r. req_get_request n (Some sb) (url_text h p path @ 0 # z) response mx = Ret (0, js @ 0 # r) \<and>
    length (js @ 0 # r) = length response"
proof -
  let ?d = "hdr @ js"
  have js: "js \<noteq> []" using assms(7) by auto
  have h: "0 \<notin> set h" "0 \<notin> set path" using assms(1) by (auto simp: url_ok_def)
  obtain b where b: "snprintf sb 0 MAX_MTU_SIZE (asc GET_TEMPLATE) [FmtS (path @ [0]), FmtS (h @ [0]), FmtD (int p)]
      = Some (length (get_text h p path), b)" "length b = MAX_MTU_SIZE"
    using snprintf_fits [OF get_format [OF h, of p] assms(4)] by (auto simp: MAX_MTU_SIZE_def)
  have "recv_loop [Got ?d, Got []] response 0 = Ret (overlay response ?d, int (length ?d))"
    using recv_loop_segments [of "[?d]" response 0] assms(9) js by simp
  moreover obtain c r where r: "drop (length ?d) response = c # r"
    using assms(9) by (cases "drop (length ?d) response") auto
  moreover have w: "wr (overlay response ?d) (nat (int (length ?d))) 0 = Some (?d @ 0 # r)"
    unfolding overlay_def r nat_int using wr_append [of "length ?d" ?d "c # r" 0] by simp
  moreover have "cstr (?d @ 0 # r) = ?d" using assms(6) by (rule cstr_append)
  moreover have "strstr_at ?d [ch CHR ''{'', ch CHR 0x22] 0 = Some (length hdr)"
    using strstr_at_append [of hdr "[ch CHR ''{'', ch CHR 0x22]" js 0] assms(7,8) js by (simp add: numeral_2_eq_2)
  moreover obtain r2 where r2: "shift_loop (?d @ 0 # r) (length hdr) 0 = Some (js @ 0 # r2)"
      "length (js @ 0 # r2) = length (?d @ 0 # r)"
    using shift_loop_run [of js "?d @ 0 # r" "[]" hdr r 0 "length hdr"] assms(6) by auto
  moreover have "length (?d @ 0 # r) = length response"
    using wr_Some_length [OF w] assms(9) by (simp add: length_overlay)
  moreover have "send_loop (sends n)" using assms(2) by (simp add: connected_def)
  ultimately show ?thesis using b assms(3,5)
    by (simp add: req_get_request_def req_basic_request_connected [OF assms(1,2)] http_exchange_def)
qed

definition demo_net :: "bytes attempt list \<Rightarrow> net" where
  "demo_net rs = \<lparr>resolves = (\<lambda>h. True), socket_ok = True, connects = [Again, Got ()], sends = [Again, Got 9], recvs = rs\<rparr>"

lemma demo_net_connected: "connected (demo_net rs) h"
  by (simp add: demo_net_def connected_def)

lemma req_get_single_segment_witness:
  "\<exists>r. req_get_request (demo_net [Got (asc ''H{'' @ asc [CHR ''{'', CHR 0x22, CHR ''}'']), Got []])
      (Some (replicate MAX_MTU_SIZE 0)) (url_text (asc ''a.b'') 80 (asc ''v1/x'') @ 0 # []) (replicate 9 1) 9
     = Ret (0, asc [CHR ''{'', CHR 0x22, CHR ''}''] @ 0 # r) \<and>
    length (asc [CHR ''{'', CHR 0x22, CHR ''}''] @ 0 # r) = length (replicate 9 (1 :: u8))"
  by (rule req_get_single_segment [OF _ demo_net_connected, where hdr = "asc ''H{''" and
        js = "asc [CHR ''{'', CHR 0x22, CHR ''}'']"])
    (simp_all add: url_ok_def demo_net_def get_text_def crlf_def MAX_MTU_SIZE_def dec_str.simps less_Suc_eq)

text \<open>A request whose socket cannot be opened, or whose connection is refused, is reported as a success: the
  result is 0 and the response buffer is left as it was, although the function is documented to
  return a negative code.\<close>

theorem req_failure_returns_success:
  assumes "url_ok h p path" "resolves n h"
    "\<not> socket_ok n \<or> (\<exists>xs. blocking (connects n) = Some (None, xs))"
  shows "req_basic_request n (Some sb) (url_text h p path @ 0 # z) response mx is_post = Ret (0, response)"
  using assms by (auto simp: req_basic_request_def parseURL_url)

lemma req_failure_returns_success_witness:
  "req_basic_request \<lparr>resolves = (\<lambda>h. True), socket_ok = True, connects = [Again, Fail], sends = [], recvs = []\<rparr>
     (Some []) (url_text (asc ''a.b'') 80 (asc ''v1/x'') @ 0 # []) (asc ''stale'') 5 False = Ret (0, asc ''stale'')"
  by (rule req_failure_returns_success) (simp_all add: url_ok_def)

text \<open>A reply that arrives in several segments is not assembled: each is received at the start of the buffer, so
  the response begins with the last segment and not with the first.\<close>

theorem req_segments_overwrite:
  assumes "url_ok h p path" "connected n h" "recvs n = List.map Got (ds @ [d]) @ [Got []]"
    "\<forall>x\<in>set (ds @ [d]). x \<noteq> []" "sum_list (List.map length (ds @ [d])) < length response"
    "ds \<noteq> []" "length sb = MAX_MTU_SIZE" "length (post_text h path) \<le> MAX_MTU_SIZE"
  shows "\<exists>b. req_post_request n (Some sb) (url_text h p path @ 0 # z) response mx = Ret (0, b) \<and>
    take (length d) b = d \<and> length b = length response"
proof -
  let ?all = "ds @ [d]" and ?sum = "sum_list (List.map length (ds @ [d]))"
  have h: "0 \<notin> set h" "0 \<notin> set path" using assms(1) by (auto simp: url_ok_def)
  obtain b where b: "snprintf sb 0 MAX_MTU_SIZE (asc POST_TEMPLATE) [FmtS (path @ [0]), FmtS (h @ [0]), FmtD 0]
      = Some (length (post_text h path), b)" "length b = MAX_MTU_SIZE"
    using snprintf_fits [OF post_format assms(7)] h by (auto simp: MAX_MTU_SIZE_def)
  have le: "length x \<le> ?sum" if "x \<in> set ?all" for x
    using member_le_sum_list [of "length x" "List.map length ?all"] that by auto
  then have "\<forall>x\<in>set ?all. x \<noteq> [] \<and> length x \<le> length response" using assms(4,5) by fastforce
  note rl = recv_loop_segments [OF this, of 0]
  let ?buf = "foldl overlay response ?all"
  have "length d \<le> ?sum" using le by simp
  then have dl: "length d \<le> ?sum" "?sum < length ?buf" using assms(5) rl by auto
  have "take (length d) ?buf = d" by (simp add: overlay_def)
  then have "take (length d) (?buf[?sum := 0]) = d" using dl(1) by (simp add: take_update_cancel)
  moreover have "wr ?buf ?sum 0 = Some (?buf[?sum := 0])" using dl(2) by simp
  moreover have "length (?buf[?sum := 0]) = length response" using rl by simp
  moreover have "send_loop (sends n)" using assms(2) by (simp add: connected_def)
  ultimately show ?thesis using b assms(3,8) rl
    by (auto simp: req_post_request_def req_basic_request_connected [OF assms(1,2)] http_exchange_def
        simp del: foldl_append map_append split: option.split)
qed

lemma req_segments_overwrite_witness:
  "\<exists>b. req_post_request (demo_net (List.map Got ([asc ''HTTP''] @ [asc ''{}'']) @ [Got []]))
      (Some (replicate MAX_MTU_SIZE 0)) (url_text (asc ''a.b'') 80 (asc ''v1/x'') @ 0 # []) (replicate 9 1) 9
     = Ret (0, b) \<and> take (length (asc ''{}'')) b = asc ''{}'' \<and> length b = length (replicate 9 (1 :: u8))"
  by (rule req_segments_overwrite [OF _ demo_net_connected, where ds = "[asc ''HTTP'']" and d = "asc ''{}''"])
    (simp_all add: url_ok_def demo_net_def post_text_def crlf_def MAX_MTU_SIZE_def)

text \<open>A POST request longer than the send buffer is sent with its full length: the send reads past the
  buffer of 1000 bytes.\<close>

theorem req_post_overread:
  assumes "url_ok h p path" "connected n h" "length sb = MAX_MTU_SIZE" "MAX_MTU_SIZE < length (post_text h path)"
  shows "req_post_request n (Some sb) (url_text h p path @ 0 # z) response mx = Undef"
proof -
  have h: "0 \<notin> set h" "0 \<notin> set path" using assms(1) by (auto simp: url_ok_def)
  obtain b where b: "snprintf sb 0 MAX_MTU_SIZE (asc POST_TEMPLATE) [FmtS (path @ [0]), FmtS (h @ [0]), FmtD 0]
      = Some (length (post_text h path), b)" "length b = MAX_MTU_SIZE"
    using snprintf_fits [OF post_format assms(3)] h by (auto simp: MAX_MTU_SIZE_def)
  then show ?thesis using assms(4)
    by (simp add: req_post_request_def req_basic_request_connected [OF assms(1,2)] http_exchange_def)
qed

lemma req_post_overread_witness:
  "req_post_request (demo_net []) (Some (replicate MAX_MTU_SIZE 0))
     (url_text (asc ''a.b'') 80 (replicate 960 (ch CHR ''a'')) @ 0 # []) [] 0 = Undef"
  by (rule req_post_overread [OF _ demo_net_connected])
    (simp_all add: url_ok_def post_text_def crlf_def MAX_MTU_SIZE_def)

end
