(* ===== verification/EmbApi.thy ===== *)
theory EmbApi
  imports Request JsonParse PbProto
begin

text \<open>
  \<^verbatim>\<open>antenna_sdk/src/response.c\<close> and \<^verbatim>\<open>iotex_emb.c\<close>: the client's API.  A call makes
  one HTTP exchange; the environment gives the outcome of that exchange, the contents of fresh heap
  and stack memory and the operations of the crypto library.  The memory the response is stored
  into is one block, pointers are offsets in it.
\<close>

section \<open>Errors and environment\<close>

datatype iotex_em_error = IOTEX_E_NOERR | IOTEX_E_VER | IOTEX_E_CERT | IOTEX_E_URL | IOTEX_E_PRVKEY
  | IOTEX_E_MEM | IOTEX_E_REQUEST | IOTEX_E_PARSE | IOTEX_E_RESPONSE | IOTEX_E_UNSUPPORT
  | IOTEX_E_PBPACK | IOTEX_E_HEX2STR

primrec err_code :: "iotex_em_error \<Rightarrow> int" where
  "err_code IOTEX_E_NOERR = 0"
| "err_code IOTEX_E_VER = 1"
| "err_code IOTEX_E_CERT = 2"
| "err_code IOTEX_E_URL = 3"
| "err_code IOTEX_E_PRVKEY = 4"
| "err_code IOTEX_E_MEM = 5"
| "err_code IOTEX_E_REQUEST = 6"
| "err_code IOTEX_E_PARSE = 7"
| "err_code IOTEX_E_RESPONSE = 8"
| "err_code IOTEX_E_UNSUPPORT = 9"
| "err_code IOTEX_E_PBPACK = 10"
| "err_code IOTEX_E_HEX2STR = 11"

record sdk_env =
  env_be :: bool
  env_stk :: bytes
  env_atof :: "bytes \<Rightarrow> bytes"
  env_pubkey :: "bytes \<Rightarrow> bytes"
  env_keccak :: "bytes \<Rightarrow> bytes"
  env_sign :: "bytes \<Rightarrow> bytes \<Rightarrow> bytes option"
  env_stack :: "nat \<Rightarrow> bytes"
  env_response :: "bytes option"
  env_mallocs :: "bytes option"
  env_calloc :: bool
  env_net :: net

definition iotex_emb_init :: "unit \<Rightarrow> int" where "iotex_emb_init config = 0"
definition iotex_emb_exit :: "unit \<Rightarrow> unit" where "iotex_emb_exit s = s"

section \<open>Responses\<close>

definition res_get_data ::
  "sdk_env \<Rightarrow> bytes \<Rightarrow> json_parse_rule list \<Rightarrow> bytes \<Rightarrow> (int \<times> bytes) outcome" where
  "res_get_data env request rules mem =
    (case env_response env of
       None \<Rightarrow> Ret (- err_code IOTEX_E_MEM, mem)
     | Some block \<Rightarrow>
         (case req_get_request (env_net env) (env_mallocs env) request block IOTEX_EBM_MAX_RES_LEN of
            Undef \<Rightarrow> Undef
          | Blocked \<Rightarrow> Blocked
          | Ret (r, response) \<Rightarrow>
              if r \<noteq> 0 then Ret (- err_code IOTEX_E_REQUEST, mem)
              else (case json_parse_response (env_be env) (env_atof env) (env_calloc env) response rules mem of
                 None \<Rightarrow> Undef
               | Some (s, mem') \<Rightarrow> if s \<noteq> 0 then Ret (- err_code IOTEX_E_PARSE, mem') else Ret (0, mem'))))"

text \<open>
  The action a caller passes as an untyped pointer with an id.  \<^verbatim>\<open>error_desc\<close> is NULL (outer
  \<^term>\<open>None\<close>) or the pointer it points to; reading the action as the wrong type is undefined.
\<close>

datatype action_ptr = ActTransfer iotex_st_transfer | ActExecution iotex_st_execution

definition SET_ERROR_DESC :: "string \<Rightarrow> bytes option option \<Rightarrow> bytes option option" where
  "SET_ERROR_DESC msg desc = (case desc of None \<Rightarrow> None | Some _ \<Rightarrow> Some (Some (asc msg @ [0])))"

definition CLR_ERROR_DESC :: "bytes option option \<Rightarrow> bytes option option" where
  "CLR_ERROR_DESC desc = (case desc of None \<Rightarrow> None | Some _ \<Rightarrow> Some None)"

definition gen_action_bytes :: "sdk_env \<Rightarrow> action_ptr \<Rightarrow> u8 \<Rightarrow> (int \<times> bytes) option" where
  "gen_action_bytes env action action_id =
    (case action of
       ActTransfer tx \<Rightarrow> (if action_id \<noteq> ACT_TRANSFER then None else
         proto_gen_tx_action (env_be env) (env_stk env) (env_pubkey env) (env_keccak env) (env_sign env) tx
           (env_stack env IOTEX_EMB_MAX_ACB_LEN) (of_nat IOTEX_EMB_MAX_ACB_LEN))
     | ActExecution ex \<Rightarrow> (if action_id \<noteq> ACT_EXECUTION then None else
         proto_gen_ex_action (env_be env) (env_stk env) (env_pubkey env) (env_keccak env) (env_sign env) ex
           (env_stack env IOTEX_EMB_MAX_ACB_LEN) (of_nat IOTEX_EMB_MAX_ACB_LEN)))"

definition hash_rule :: "nat \<Rightarrow> json_parse_rule list" where
  "hash_rule hash_max = [mk_rule ''actionHash'' JSON_TYPE_STR None (Some 0) hash_max]"

text \<open>The part of \<^verbatim>\<open>res_get_hash\<close> behind the generated action bytes: the result, the hash buffer
  and the error description.\<close>

definition post_action ::
  "sdk_env \<Rightarrow> bytes \<Rightarrow> nat \<Rightarrow> bytes \<Rightarrow> nat \<Rightarrow> bytes option option \<Rightarrow>
   (int \<times> bytes \<times> bytes option option) outcome" where
  "post_action env action_bytes action_bytes_len hash hash_max error_desc =
    (case signer_hex2str action_bytes action_bytes_len (replicate (IOTEX_EMB_MAX_ACB_LEN * 2) 0)
            (IOTEX_EMB_MAX_ACB_LEN * 2) of
       None \<Rightarrow> Undef
     | Some (r, action_bytes_str) \<Rightarrow>
         if r < 0 then Ret (- err_code IOTEX_E_HEX2STR, hash, error_desc)
         else
           (let n = IOTEX_EMB_MAX_URL_LEN + IOTEX_EMB_MAX_ACB_LEN * 2 in
            case req_compose_url (env_stack env n) n REQ_SEND_SIGNED_ACTION_BYTES [FmtS action_bytes_str] of
              None \<Rightarrow> Undef
            | Some None \<Rightarrow> Ret (- err_code IOTEX_E_URL, hash, error_desc)
            | Some (Some request) \<Rightarrow>
                (case env_response env of
                   None \<Rightarrow> Ret (- err_code IOTEX_E_MEM, hash, error_desc)
                 | Some block \<Rightarrow>
                     (case req_post_request (env_net env) (env_mallocs env) request block IOTEX_EBM_MAX_RES_LEN of
                        Undef \<Rightarrow> Undef
                      | Blocked \<Rightarrow> Blocked
                      | Ret (q, response) \<Rightarrow>
                          if q \<noteq> 0 then Ret (- err_code IOTEX_E_REQUEST, hash, error_desc)
                          else
                            (case json_parse_response (env_be env) (env_atof env) (env_calloc env) response
                                    (hash_rule hash_max) hash of
                               None \<Rightarrow> Undef
                             | Some (s, hash') \<Rightarrow>
                                 if s \<noteq> 0 then Ret (- err_code IOTEX_E_RESPONSE, hash', CLR_ERROR_DESC error_desc)
                                 else Ret (0, hash', CLR_ERROR_DESC error_desc))))))"

definition res_get_hash ::
  "sdk_env \<Rightarrow> action_ptr \<Rightarrow> u8 \<Rightarrow> bytes \<Rightarrow> nat \<Rightarrow> bytes option option \<Rightarrow>
   (int \<times> bytes \<times> bytes option option) outcome" where
  "res_get_hash env action action_id hash hash_max error_desc =
    (if action_id \<noteq> ACT_TRANSFER \<and> action_id \<noteq> ACT_EXECUTION
     then Ret (- err_code IOTEX_E_UNSUPPORT, hash, SET_ERROR_DESC ''Unsupported action'' error_desc)
     else (case gen_action_bytes env action action_id of
        None \<Rightarrow> Undef
      | Some (action_bytes_len, action_bytes) \<Rightarrow>
          if action_bytes_len \<le> 0 then Ret (- err_code IOTEX_E_PBPACK, hash, error_desc)
          else post_action env action_bytes (nat action_bytes_len) hash hash_max error_desc))"

text \<open>
  The parsed memory is the caller's array followed by the local \<^verbatim>\<open>actual_size\<close>; the rule of the
  array elements is bound to the array.
\<close>

definition actions_rule :: "nat \<Rightarrow> nat \<Rightarrow> json_parse_rule list" where
  "actions_rule actual_size_at max_size =
    [mk_rule ''total'' JSON_TYPE_NUMBER32 None (Some actual_size_at) 0,
     Rule (Some (asc ''actionInfo'')) JSON_TYPE_ARRAY (Some action_info_rule) (Some 0) max_size JSON_TYPE_OBJECT
       SIZEOF_ACTION_INFO (Some Rule_action_info_bind) None]"

definition res_get_actions :: "sdk_env \<Rightarrow> bytes \<Rightarrow> bytes \<Rightarrow> nat \<Rightarrow> (int \<times> bytes) outcome" where
  "res_get_actions env request actions max_size =
    (case res_get_data env request (actions_rule (length actions) max_size)
            (actions @ mem_store (env_be env) 4 (0 :: u32)) of
       Undef \<Rightarrow> Undef
     | Blocked \<Rightarrow> Blocked
     | Ret (ret, mem) \<Rightarrow>
         (let actions' = take (length actions) mem in
          if ret \<noteq> 0 then Ret (ret, actions')
          else Ret (sint (mem_load (env_be env) (drop (length actions) mem) :: u32), actions')))"

definition SIZEOF_CONTRACT_DATA :: nat where "SIZEOF_CONTRACT_DATA = 2048"

definition res_get_contract_data :: "sdk_env \<Rightarrow> bytes \<Rightarrow> bytes \<Rightarrow> (int \<times> bytes) outcome" where
  "res_get_contract_data env request contract_data =
    res_get_data env request [mk_rule ''data'' JSON_TYPE_STR None (Some 0) SIZEOF_CONTRACT_DATA] contract_data"

section \<open>The API\<close>

text \<open>Composing the URL of a call into a local buffer, with the early return on NULL.\<close>

definition with_url ::
  "sdk_env \<Rightarrow> iotex_em_request \<Rightarrow> fmt_arg list \<Rightarrow> 'a \<Rightarrow> (bytes \<Rightarrow> (int \<times> 'a) outcome) \<Rightarrow> (int \<times> 'a) outcome" where
  "with_url env req ap s k =
    (case req_compose_url (env_stack env IOTEX_EMB_MAX_URL_LEN) IOTEX_EMB_MAX_URL_LEN req ap of
       None \<Rightarrow> Undef
     | Some None \<Rightarrow> Ret (- err_code IOTEX_E_URL, s)
     | Some (Some url) \<Rightarrow> k url)"

text \<open>The members of \<^verbatim>\<open>iotex_st_chain_meta\<close>: three counters, the epoch's three, the double.\<close>

definition chain_meta_rules :: "json_parse_rule list" where
  "chain_meta_rules =
    [mk_rule ''height'' JSON_TYPE_NUMBER64 None (Some 0) 0,
     mk_rule ''numActions'' JSON_TYPE_NUMBER64 None (Some 8) 0,
     mk_rule ''tps'' JSON_TYPE_NUMBER64 None (Some 16) 0,
     mk_rule ''epoch'' JSON_TYPE_OBJECT (Some
       [mk_rule ''num'' JSON_TYPE_NUMBER64 None (Some 24) 0,
        mk_rule ''height'' JSON_TYPE_NUMBER64 None (Some 32) 0,
        mk_rule ''gravityChainStartHeight'' JSON_TYPE_NUMBER64 None (Some 40) 0]) None 0,
     mk_rule ''tpsFloat'' JSON_TYPE_DOUBLE None (Some 48) 0]"

definition iotex_emb_get_chain_meta :: "sdk_env \<Rightarrow> bytes \<Rightarrow> (int \<times> bytes) outcome" where
  "iotex_emb_get_chain_meta env chain =
    with_url env REQ_GET_CHAINMETA [] chain (\<lambda>url. res_get_data env url chain_meta_rules chain)"

definition account_rules :: "json_parse_rule list" where
  "account_rules =
    [mk_rule ''accountMeta'' JSON_TYPE_OBJECT (Some
       [mk_rule ''address'' JSON_TYPE_STR None (Some 0) 42,
        mk_rule ''balance'' JSON_TYPE_NUMBER None (Some 42) 0,
        mk_rule ''nonce'' JSON_TYPE_NUMBER None (Some 82) 0,
        mk_rule ''pendingNonce'' JSON_TYPE_NUMBER None (Some 122) 0,
        mk_rule ''numActions'' JSON_TYPE_NUMBER None (Some 162) 0]) None 0]"

definition iotex_emb_get_account_meta :: "sdk_env \<Rightarrow> bytes \<Rightarrow> bytes \<Rightarrow> (int \<times> bytes) outcome" where
  "iotex_emb_get_account_meta env account meta =
    with_url env REQ_GET_ACCOUNT [FmtS account] meta (\<lambda>url. res_get_data env url account_rules meta)"

text \<open>A NULL result of \<^verbatim>\<open>u1282str\<close> is handed to \<^verbatim>\<open>vsnprintf\<close>: undefined.\<close>

definition iotex_emb_get_transfer_block :: "sdk_env \<Rightarrow> uint128_t \<Rightarrow> bytes \<Rightarrow> (int \<times> bytes) outcome" where
  "iotex_emb_get_transfer_block env block action =
    (case u1282str block (env_stack env UINT128_RAW_MAX_LEN) UINT128_RAW_MAX_LEN of
       Some (Some block_str) \<Rightarrow>
         with_url env REQ_GET_TRANSFERS_BY_BLOCK [FmtS block_str] action
           (\<lambda>url. case res_get_actions env url action 1 of
              Undef \<Rightarrow> Undef
            | Blocked \<Rightarrow> Blocked
            | Ret (ret, action') \<Rightarrow> if ret \<noteq> 1 then Ret (ret, action') else Ret (0, action'))
     | _ \<Rightarrow> Undef)"

definition iotex_emb_get_action_by_hash :: "sdk_env \<Rightarrow> bytes \<Rightarrow> bytes \<Rightarrow> (int \<times> bytes) outcome" where
  "iotex_emb_get_action_by_hash env hash action =
    with_url env REQ_GET_ACTIONS_BY_HASH [FmtS hash] action
      (\<lambda>url. case res_get_actions env url action 1 of
         Undef \<Rightarrow> Undef
       | Blocked \<Rightarrow> Blocked
       | Ret (ret, action') \<Rightarrow> if ret \<noteq> 1 then Ret (ret, action') else Ret (0, action'))"

text \<open>\<^verbatim>\<open>actual_size\<close> is NULL or points to a number.\<close>

definition iotex_emb_get_action_by_addr ::
  "sdk_env \<Rightarrow> bytes \<Rightarrow> u32 \<Rightarrow> u32 \<Rightarrow> bytes \<Rightarrow> nat \<Rightarrow> u32 option \<Rightarrow> (int \<times> bytes \<times> u32 option) outcome" where
  "iotex_emb_get_action_by_addr env addr start_idx count actions max_size actual_size =
    with_url env REQ_GET_ACTIONS_BY_ADDR [FmtS addr, FmtU (unat start_idx), FmtU (unat count)] (actions, actual_size)
      (\<lambda>url. case res_get_actions env url actions max_size of
         Undef \<Rightarrow> Undef
       | Blocked \<Rightarrow> Blocked
       | Ret (ret, actions') \<Rightarrow>
           if ret < 0 then Ret (ret, actions', actual_size)
           else Ret (0, actions', map_option (\<lambda>_. of_int ret) actual_size))"

text \<open>
  The contract data is the 2048 characters of \<^verbatim>\<open>data\<close> and, behind them, the four bytes of
  \<^verbatim>\<open>size\<close>.  The data is decoded in place.
\<close>

definition contract_decode :: "bool \<Rightarrow> bytes \<Rightarrow> (int \<times> bytes) option" where
  "contract_decode be contract_data = do {
     n \<leftarrow> strlen contract_data;
     let sz = n div 2;
     (ret, mem) \<leftarrow> signer_str2hex_alias contract_data sz;
     if ret < 0 then Some (ret, mem)
     else do {
       mem' \<leftarrow> wr_bytes mem SIZEOF_CONTRACT_DATA (mem_store be 4 (of_nat sz :: u32));
       Some (0, mem')
     }
   }"

definition iotex_emb_read_contract_by_addr ::
  "sdk_env \<Rightarrow> bytes \<Rightarrow> bytes \<Rightarrow> bytes \<Rightarrow> bytes \<Rightarrow> (int \<times> bytes) outcome" where
  "iotex_emb_read_contract_by_addr env addr meth data contract_data =
    with_url env REQ_READ_CONTRACT_BY_ADDR [FmtS addr, FmtS meth, FmtS data] contract_data
      (\<lambda>url. case res_get_contract_data env url contract_data of
         Undef \<Rightarrow> Undef
       | Blocked \<Rightarrow> Blocked
       | Ret (ret, mem) \<Rightarrow>
           if ret < 0 then Ret (ret, mem)
           else (case contract_decode (env_be env) mem of None \<Rightarrow> Undef | Some r \<Rightarrow> Ret r))"

text \<open>The validators are at offset 0 of the block, \<^verbatim>\<open>actual_size\<close>, unless NULL, at the given offset.\<close>

definition iotex_emb_get_validators :: "sdk_env \<Rightarrow> bytes \<Rightarrow> nat \<Rightarrow> nat option \<Rightarrow> (int \<times> bytes) outcome" where
  "iotex_emb_get_validators env mem max_size actual_size =
    with_url env REQ_GET_MEMBER_VALIDATORS [] mem
      (\<lambda>url. res_get_data env url
         [Rule None JSON_TYPE_ARRAY (Some validator_rule) (Some 0) max_size JSON_TYPE_OBJECT SIZEOF_VALIDATOR
            (Some Rule_validator_bind) actual_size] mem)"

definition iotex_emb_transfer ::
  "sdk_env \<Rightarrow> iotex_st_transfer \<Rightarrow> bytes \<Rightarrow> bytes option option \<Rightarrow> (int \<times> bytes \<times> bytes option option) outcome" where
  "iotex_emb_transfer env tx hash error_desc =
    (if privateKey (tx_core tx) = None then Ret (- err_code IOTEX_E_PRVKEY, hash, error_desc)
     else res_get_hash env (ActTransfer tx) ACT_TRANSFER hash 65 error_desc)"

definition iotex_emb_execution ::
  "sdk_env \<Rightarrow> iotex_st_execution \<Rightarrow> bytes \<Rightarrow> bytes option option \<Rightarrow> (int \<times> bytes \<times> bytes option option) outcome" where
  "iotex_emb_execution env ex hash error_desc =
    (if privateKey (ex_core ex) = None then Ret (- err_code IOTEX_E_PRVKEY, hash, error_desc)
     else res_get_hash env (ActExecution ex) ACT_EXECUTION hash 65 error_desc)"

end
