(* ===== verification/LocalStorage.thy ===== *)
theory LocalStorage
  imports Prelude
begin

text \<open>
  \<^verbatim>\<open>nvs/local_storage.c\<close>: the wrappers of the non-volatile storage.  The file system itself
  (Zephyr's NVS) is not part of the repository: its operations are a parameter, a record of
  functions on a state of any type, and what its documentation promises is the locale
  \<^verbatim>\<open>nvs_spec\<close>.  What the firmware's other parts rely on is the locale \<^verbatim>\<open>storage\<close>, which the
  wrappers satisfy for every NVS that keeps its promises.
\<close>

section \<open>The wrappers\<close>

text \<open>
  Return values are \<^verbatim>\<open>ssize_t\<close>; reads return the bytes they put into the caller's buffer.
\<close>

record 's nvs_ops =
  nvs_write :: "'s \<Rightarrow> nat \<Rightarrow> bytes \<Rightarrow> int \<times> 's"
  nvs_delete :: "'s \<Rightarrow> nat \<Rightarrow> int \<times> 's"
  nvs_read :: "'s \<Rightarrow> nat \<Rightarrow> nat \<Rightarrow> int \<times> bytes"
  nvs_read_hist :: "'s \<Rightarrow> nat \<Rightarrow> nat \<Rightarrow> nat \<Rightarrow> int \<times> bytes"

definition SID_MQTT_BULK_UPLOAD_DATA :: nat where "SID_MQTT_BULK_UPLOAD_DATA = 0x1000"
definition SID_MQTT_DATA_CHANNEL_CONFIG :: nat where "SID_MQTT_DATA_CHANNEL_CONFIG = 0x1001"
definition SID_ECC_KEY :: nat where "SID_ECC_KEY = 0x1002"

lemma sid_distinct [simp]:
  "SID_MQTT_BULK_UPLOAD_DATA \<noteq> SID_MQTT_DATA_CHANNEL_CONFIG"
  "SID_MQTT_DATA_CHANNEL_CONFIG \<noteq> SID_MQTT_BULK_UPLOAD_DATA"
  by (simp_all add: SID_MQTT_BULK_UPLOAD_DATA_def SID_MQTT_DATA_CHANNEL_CONFIG_def)

definition iotex_local_storage_del :: "'s nvs_ops \<Rightarrow> 's \<Rightarrow> nat \<Rightarrow> int \<times> 's" where
  "iotex_local_storage_del nvs s i = (let (r, s') = nvs_delete nvs s i in (if r \<noteq> 0 then -1 else 0, s'))"

text \<open>The comparisons with \<^verbatim>\<open>len\<close>, a \<^verbatim>\<open>size_t\<close>, convert the signed result.\<close>

definition iotex_local_storage_save :: "'s nvs_ops \<Rightarrow> 's \<Rightarrow> nat \<Rightarrow> bytes \<Rightarrow> int \<times> 's" where
  "iotex_local_storage_save nvs s i data =
    (let (r, s') = nvs_write nvs s i data in
     (if (of_int r :: u32) = of_nat (length data) then 0 else -1, s'))"

text \<open>The buffer is the caller's, of which the read bytes replace the beginning.\<close>

definition into :: "bytes \<Rightarrow> bytes \<Rightarrow> bytes" where
  "into buf d = d @ drop (length d) buf"

definition iotex_local_storage_load :: "'s nvs_ops \<Rightarrow> 's \<Rightarrow> nat \<Rightarrow> bytes \<Rightarrow> nat \<Rightarrow> int \<times> bytes" where
  "iotex_local_storage_load nvs s i data len =
    (let (r, d) = nvs_read nvs s i len in
     (if (of_int r :: u32) \<ge> of_nat len then 0 else -1, into data d))"

definition iotex_local_storage_hist :: "'s nvs_ops \<Rightarrow> 's \<Rightarrow> nat \<Rightarrow> bytes \<Rightarrow> nat \<Rightarrow> nat \<Rightarrow> int \<times> bytes" where
  "iotex_local_storage_hist nvs s i data len cnt =
    (let (r, d) = nvs_read_hist nvs s i len cnt in (if r < 0 then -1 else 0, into data d))"

text \<open>
  The loop of \<^verbatim>\<open>iotex_local_storage_readall\<close>: offset, the 16-bit count and what has been read.  It
  need not end when the item length is 0.
\<close>

partial_function (option) readall_loop ::
  "'s nvs_ops \<Rightarrow> 's \<Rightarrow> nat \<Rightarrow> nat \<Rightarrow> nat \<Rightarrow> nat \<Rightarrow> u16 \<Rightarrow> bytes \<Rightarrow> (u16 \<times> bytes) option" where
  "readall_loop nvs s i sz item_len off cnt buf =
    (if off + item_len \<le> sz then
       (let (r, d) = iotex_local_storage_hist nvs s i (drop off buf) item_len (unat cnt);
            buf' = take off buf @ d in
        if r \<noteq> 0 then Some (cnt, buf')
        else readall_loop nvs s i sz item_len (off + item_len) (cnt + 1) buf')
     else Some (cnt, buf))"

definition iotex_local_storage_readall ::
  "'s nvs_ops \<Rightarrow> 's \<Rightarrow> nat \<Rightarrow> bytes \<Rightarrow> nat \<Rightarrow> nat \<Rightarrow> (u16 \<times> bytes) option" where
  "iotex_local_storage_readall nvs s i data sz item_len = readall_loop nvs s i sz item_len 0 0 data"

text \<open>
  The set-up: the page information and \<^verbatim>\<open>nvs_init\<close> are calls of the flash driver and the file
  system (an error code, the page size).
\<close>

record nvs_fs =
  fs_offset :: nat
  fs_sector_size :: nat
  fs_sector_count :: nat

definition iotex_local_storage_init ::
  "(nat \<Rightarrow> int \<times> nat) \<Rightarrow> (nvs_fs \<Rightarrow> int) \<Rightarrow> nat \<Rightarrow> nat \<Rightarrow> nvs_fs \<Rightarrow> int \<times> nvs_fs" where
  "iotex_local_storage_init page_info nvs_init area_offset sector_count fs =
    (let fs1 = fs\<lparr>fs_offset := area_offset\<rparr>; (r, sz) = page_info area_offset in
     if r \<noteq> 0 then (-1, fs1)
     else (let fs2 = fs1\<lparr>fs_sector_size := sz, fs_sector_count := sector_count\<rparr> in
           if nvs_init fs2 \<noteq> 0 then (-1, fs2) else (0, fs2)))"

definition iotex_local_storage_clear :: "('s \<Rightarrow> int \<times> 's) \<Rightarrow> 's \<Rightarrow> int \<times> 's" where
  "iotex_local_storage_clear nvs_clear s = nvs_clear s"

section \<open>The promises of the file system\<close>

text \<open>
  \<^verbatim>\<open>hist s i\<close> is the history of entry \<^verbatim>\<open>i\<close> since it was last deleted, newest first.  A write of
  the data already stored writes nothing and returns 0.  Collecting garbage may drop old entries,
  but at least the newest \<^verbatim>\<open>cap\<close> of every id survive.
\<close>

definition keeps :: "nat \<Rightarrow> bytes list \<Rightarrow> bytes list \<Rightarrow> bool" where
  "keeps cap h h' \<longleftrightarrow> (\<exists>n\<ge>cap. h' = take n h)"

lemma keeps_refl [simp]: "keeps cap h h"
  by (auto simp: keeps_def intro!: exI [of _ "max cap (length h)"])

lemma keeps_prefix: "\<lbrakk>keeps cap h h'; take (length xs) h = xs; length xs \<le> cap\<rbrakk> \<Longrightarrow> take (length xs) h' = xs"
  by (auto simp: keeps_def min_def)

locale nvs_spec =
  fixes nvs :: "'s nvs_ops"
    and hist :: "'s \<Rightarrow> nat \<Rightarrow> bytes list"
    and cap :: nat
  assumes cap_pos: "0 < cap"
    and write_bounds: "nvs_write nvs s i d = (r, s') \<Longrightarrow> - (2 ^ 16) \<le> r \<and> r \<le> int (length d)"
    and write_new: "\<lbrakk>nvs_write nvs s i d = (r, s'); r = int (length d); d \<noteq> []\<rbrakk> \<Longrightarrow>
      keeps cap (d # hist s i) (hist s' i) \<and> (\<forall>j. j \<noteq> i \<longrightarrow> keeps cap (hist s j) (hist s' j))"
    and write_same: "\<lbrakk>nvs_write nvs s i d = (r, s'); r \<noteq> int (length d) \<or> d = []\<rbrakk> \<Longrightarrow>
      (\<forall>j. keeps cap (hist s j) (hist s' j)) \<and> (r = 0 \<longrightarrow> d \<noteq> [] \<longrightarrow> (\<exists>h. hist s i = d # h))"
    and delete_ok: "nvs_delete nvs s i = (0, s') \<Longrightarrow>
      hist s' i = [] \<and> (\<forall>j. j \<noteq> i \<longrightarrow> keeps cap (hist s j) (hist s' j))"
    and delete_err: "\<lbrakk>nvs_delete nvs s i = (r, s'); r \<noteq> 0\<rbrakk> \<Longrightarrow> \<forall>j. keeps cap (hist s j) (hist s' j)"
    and read_hist: "k < length (hist s i) \<Longrightarrow>
      nvs_read_hist nvs s i n k = (int (length (hist s i ! k)), take n (hist s i ! k))"
    and read_some: "hist s i = d # h \<Longrightarrow> nvs_read nvs s i n = (int (length d), take n d)"
    and read_none: "hist s i = [] \<Longrightarrow> \<exists>r. nvs_read nvs s i n = (r, []) \<and> - (2 ^ 16) \<le> r \<and> r < 0"

section \<open>What the firmware relies on\<close>

text \<open>
  \<^verbatim>\<open>newest s i xs\<close>: the newest entries of id \<^verbatim>\<open>i\<close> are \<^verbatim>\<open>xs\<close>, in this order.  The interface of the
  storage: saving puts an entry in front, deleting empties one id, reading finds the entry at its
  place; a call that reports a failure keeps what was there.
\<close>

locale storage =
  fixes save :: "'s \<Rightarrow> nat \<Rightarrow> bytes \<Rightarrow> int \<times> 's"
    and del :: "'s \<Rightarrow> nat \<Rightarrow> int \<times> 's"
    and load :: "'s \<Rightarrow> nat \<Rightarrow> bytes \<Rightarrow> nat \<Rightarrow> int \<times> bytes"
    and read_at :: "'s \<Rightarrow> nat \<Rightarrow> bytes \<Rightarrow> nat \<Rightarrow> nat \<Rightarrow> int \<times> bytes"
    and newest :: "'s \<Rightarrow> nat \<Rightarrow> bytes list \<Rightarrow> bool"
    and cap :: nat
  assumes newest_Nil: "newest s i []"
    and save_ok: "\<lbrakk>save s i d = (0, s'); newest s i xs; d \<noteq> []; length d < 2 ^ 16; length xs < cap\<rbrakk> \<Longrightarrow>
      newest s' i (d # xs)"
    and save_other: "\<lbrakk>save s i d = (r, s'); newest s j xs; j \<noteq> i \<or> r \<noteq> 0; length d < 2 ^ 16; length xs \<le> cap\<rbrakk> \<Longrightarrow>
      newest s' j xs"
    and del_other: "\<lbrakk>del s i = (r, s'); newest s j xs; j \<noteq> i; length xs \<le> cap\<rbrakk> \<Longrightarrow> newest s' j xs"
    and read_newest: "\<lbrakk>newest s i xs; k < length xs; length (xs ! k) \<le> n\<rbrakk> \<Longrightarrow> read_at s i buf n k = (0, into buf (xs ! k))"
    and load_newest: "\<lbrakk>newest s i (d # xs); n \<le> length d; length d < 2 ^ 16\<rbrakk> \<Longrightarrow>
      load s i buf n = (0, into buf (take n d))"
begin

text \<open>What is read back after a successful save.\<close>

lemma save_load:
  assumes "save s i d = (0, s')" "d \<noteq> []" "length d < 2 ^ 16" "0 < cap"
  shows "load s' i buf (length d) = (0, into buf d)"
  using load_newest [OF save_ok [OF assms(1) newest_Nil], of "length d"] assms by auto

text \<open>Deleting first, as the configuration does, changes nothing for the other entries.\<close>

lemma replace_other:
  assumes "del s i = (r, s1)" "save s1 i d = (q, s2)" "newest s j xs" "j \<noteq> i" "length d < 2 ^ 16" "length xs \<le> cap"
  shows "newest s2 j xs"
  using save_other [OF assms(2) del_other [OF assms(1,3,4,6)]] assms by simp

end

definition newest_of :: "('s \<Rightarrow> nat \<Rightarrow> bytes list) \<Rightarrow> 's \<Rightarrow> nat \<Rightarrow> bytes list \<Rightarrow> bool" where
  "newest_of hist s i xs \<longleftrightarrow> take (length xs) (hist s i) = xs"

lemma of_int_eq_of_nat_small:
  assumes "- (2 ^ 16) \<le> r" "r \<le> int n" "n < 2 ^ 16"
  shows "(of_int r :: u32) = of_nat n \<longleftrightarrow> r = int n"
proof
  assume a: "(of_int r :: u32) = of_nat n"
  have "sint (of_int r :: u32) = r" using assms by (simp add: signed_of_int signed_take_bit_int_eq_self)
  moreover have "sint (of_nat n :: u32) = int n" using assms by (simp add: signed_of_nat signed_take_bit_int_eq_self)
  ultimately show "r = int n" using a by simp
qed simp

context nvs_spec
begin

lemma newest_keeps: "\<lbrakk>keeps cap (hist s i) (hist s' i); newest_of hist s i xs; length xs \<le> cap\<rbrakk> \<Longrightarrow> newest_of hist s' i xs"
  by (auto simp: newest_of_def dest: keeps_prefix)

lemma nvs_save_cases:
  assumes "iotex_local_storage_save nvs s i d = (r, s')" "length d < 2 ^ 16"
  obtains "r = 0" "d \<noteq> []" "keeps cap (d # hist s i) (hist s' i)" "\<forall>j. j \<noteq> i \<longrightarrow> keeps cap (hist s j) (hist s' j)"
  | "r = 0 \<longrightarrow> d = []" "\<forall>j. keeps cap (hist s j) (hist s' j)"
proof -
  obtain q where w: "nvs_write nvs s i d = (q, s')" "r = (if (of_int q :: u32) = of_nat (length d) then 0 else -1)"
    using assms(1) by (auto simp: iotex_local_storage_save_def Let_def split: prod.splits)
  have iff: "((of_int q :: u32) = of_nat (length d)) = (q = int (length d))"
    using write_bounds [OF w(1)] assms(2) by (intro of_int_eq_of_nat_small) auto
  show ?thesis
  proof (cases "q = int (length d) \<and> d \<noteq> []")
    case True
    then show ?thesis using write_new [OF w(1)] w(2) iff that(1) by simp
  next
    case False
    then show ?thesis using write_same [OF w(1)] w(2) iff that(2) by (auto split: if_splits)
  qed
qed

lemma nvs_del_other:
  assumes "iotex_local_storage_del nvs s i = (r, s')" "j \<noteq> i"
  shows "keeps cap (hist s j) (hist s' j)"
proof -
  obtain q where "nvs_delete nvs s i = (q, s')"
    using assms(1) by (auto simp: iotex_local_storage_del_def Let_def split: prod.splits)
  then show ?thesis using delete_ok delete_err assms(2) by (cases "q = 0") auto
qed

end

sublocale nvs_spec \<subseteq> storage "iotex_local_storage_save nvs" "iotex_local_storage_del nvs"
    "iotex_local_storage_load nvs" "iotex_local_storage_hist nvs" "newest_of hist" cap
proof
  fix s s' :: 's and i j n k :: nat and r :: int and d :: bytes and xs :: "bytes list" and buf :: bytes
  show "newest_of hist s i []" by (simp add: newest_of_def)
  show "\<lbrakk>iotex_local_storage_save nvs s i d = (0, s'); newest_of hist s i xs; d \<noteq> []; length d < 2 ^ 16;
      length xs < cap\<rbrakk> \<Longrightarrow> newest_of hist s' i (d # xs)"
    using keeps_prefix [of cap "d # hist s i" "hist s' i" "d # xs"]
    by (elim nvs_save_cases) (auto simp: newest_of_def)
  show "\<lbrakk>iotex_local_storage_save nvs s i d = (r, s'); newest_of hist s j xs; j \<noteq> i \<or> r \<noteq> 0; length d < 2 ^ 16;
      length xs \<le> cap\<rbrakk> \<Longrightarrow> newest_of hist s' j xs"
    by (elim nvs_save_cases) (auto intro: newest_keeps)
  show "\<lbrakk>iotex_local_storage_del nvs s i = (r, s'); newest_of hist s j xs; j \<noteq> i; length xs \<le> cap\<rbrakk> \<Longrightarrow>
      newest_of hist s' j xs"
    by (auto intro: newest_keeps nvs_del_other)
  show "\<lbrakk>newest_of hist s i xs; k < length xs; length (xs ! k) \<le> n\<rbrakk> \<Longrightarrow>
      iotex_local_storage_hist nvs s i buf n k = (0, into buf (xs ! k))"
  proof -
    assume a: "newest_of hist s i xs" "k < length xs" "length (xs ! k) \<le> n"
    then have "length xs \<le> length (hist s i)" unfolding newest_of_def
      by (metis length_take min.absorb_iff2 min.commute)
    moreover have "hist s i ! k = xs ! k" using a unfolding newest_of_def by (metis nth_take)
    ultimately show ?thesis using read_hist [of k s i n] a by (simp add: iotex_local_storage_hist_def)
  qed
  show "\<lbrakk>newest_of hist s i (d # xs); n \<le> length d; length d < 2 ^ 16\<rbrakk> \<Longrightarrow>
      iotex_local_storage_load nvs s i buf n = (0, into buf (take n d))"
  proof -
    assume a: "newest_of hist s i (d # xs)" "n \<le> length d" "length d < 2 ^ 16"
    then obtain h where "hist s i = d # h" unfolding newest_of_def by (cases "hist s i") auto
    then show ?thesis using read_some [of s i d h n] a
      by (simp add: iotex_local_storage_load_def word_le_nat_alt unat_of_nat_id)
  qed
qed

section \<open>A file system that keeps the promises\<close>

definition ref_nvs :: "(nat \<Rightarrow> bytes list) nvs_ops" where
  "ref_nvs = \<lparr>
    nvs_write = (\<lambda>s i d. if d = [] \<or> (s i \<noteq> [] \<and> hd (s i) = d) then (0, s) else (int (length d), s(i := d # s i))),
    nvs_delete = (\<lambda>s i. (0, s(i := []))),
    nvs_read = (\<lambda>s i n. case s i of [] \<Rightarrow> (-2, []) | d # _ \<Rightarrow> (int (length d), take n d)),
    nvs_read_hist = (\<lambda>s i n k. if k < length (s i) then (int (length (s i ! k)), take n (s i ! k)) else (-2, []))\<rparr>"

interpretation flash: nvs_spec ref_nvs "\<lambda>s. s" 100
  by unfold_locales (auto simp: ref_nvs_def neq_Nil_conv split: if_splits list.splits)

section \<open>Properties of the wrappers\<close>

context nvs_spec
begin

lemma saved_is_loaded:
  assumes "iotex_local_storage_save nvs s i d = (0, s')" "d \<noteq> []" "length d < 2 ^ 16"
  shows "iotex_local_storage_load nvs s' i buf (length d) = (0, into buf d)"
  by (rule save_load [OF assms cap_pos])

lemma other_entries_kept:
  assumes "iotex_local_storage_save nvs s i d = (r, s')" "length d < 2 ^ 16" "j \<noteq> i"
    "k < cap" "k < length (hist s j)" "length (hist s j ! k) \<le> n"
  shows "iotex_local_storage_hist nvs s' j buf n k = (0, into buf (hist s j ! k))"
proof -
  have "newest_of hist s j (take (Suc k) (hist s j))" using assms(5) by (simp add: newest_of_def)
  then have "newest_of hist s' j (take (Suc k) (hist s j))"
    using assms by (intro save_other [OF assms(1)]) auto
  then show ?thesis using read_newest [of s' j "take (Suc k) (hist s j)" k n buf] assms(5,6) by simp
qed

lemma missing_entry_loads:
  assumes "hist s i = []" "n < 2 ^ 16"
  shows "iotex_local_storage_load nvs s i buf n = (0, buf)"
proof -
  obtain r where r: "nvs_read nvs s i n = (r, [])" "- (2 ^ 16) \<le> r" "r < 0" using read_none [OF assms(1)] by blast
  have "r mod 2 ^ 32 = r + 2 ^ 32" using r(2,3) mod_pos_pos_trivial [of "r + 2 ^ 32" "2 ^ 32"] by simp
  then have "unat (of_int r :: u32) = nat (r + 2 ^ 32)"
    by (simp add: unat_eq_nat_uint uint_word_of_int)
  then show ?thesis using r assms(2)
    by (simp add: iotex_local_storage_load_def into_def word_le_nat_alt unat_of_nat_id)
qed

end

text \<open>C31: For every file system that keeps its promises: what was saved last under an id is what is loaded, and
  saving leaves what can be read of every other id.\<close>

theorem storage_save_load:
  assumes "nvs_spec nvs hist cap" "iotex_local_storage_save nvs s i d = (0, s')" "d \<noteq> []" "length d < 2 ^ 16"
    "j \<noteq> i" "k < cap" "k < length (hist s j)" "length (hist s j ! k) \<le> n"
  shows "iotex_local_storage_load nvs s' i buf (length d) = (0, into buf d) \<and>
    iotex_local_storage_hist nvs s' j buf' n k = (0, into buf' (hist s j ! k))"
  using nvs_spec.saved_is_loaded [OF assms(1-4)] nvs_spec.other_entries_kept [OF assms(1,2,4-8)] by blast

lemma storage_save_load_witness:
  "iotex_local_storage_load ref_nvs ((\<lambda>i. [[7]])(2 := [[1, 2], [7]])) 2 [0, 0, 0] (length [1, 2 :: u8]) =
     (0, into [0, 0, 0] [1, 2]) \<and>
   iotex_local_storage_hist ref_nvs ((\<lambda>i. [[7]])(2 := [[1, 2], [7]])) 3 [9] 1 0 = (0, into [9] ((\<lambda>i. [[7]]) (3 :: nat) ! 0))"
  by (rule storage_save_load [OF flash.nvs_spec_axioms, where s = "\<lambda>i. [[7]]"])
    (simp_all add: iotex_local_storage_save_def ref_nvs_def)

text \<open>Loading an id that was never saved reports success and leaves the caller's buffer as it was: the error code
  is negative, and the comparison converts it to unsigned.\<close>

theorem load_missing_succeeds:
  assumes "nvs_spec nvs hist cap" "hist s i = []" "len < 2 ^ 16"
  shows "iotex_local_storage_load nvs s i buf len = (0, buf)"
  by (rule nvs_spec.missing_entry_loads [OF assms])

lemma load_missing_succeeds_witness: "iotex_local_storage_load ref_nvs (\<lambda>i. []) 5 [1, 2] 2 = (0, [1, 2])"
  by (rule load_missing_succeeds [OF flash.nvs_spec_axioms]) simp_all

end
