(* ===== verification/SecureServices.thy ===== *)
theory SecureServices
  imports Errno Signer Endian
begin

text \<open>
  The secure image: \<^verbatim>\<open>samples/spm/src/CryptoCell.c\<close> (random numbers, keys, signatures) and the
  services of \<^verbatim>\<open>subsys/spm/secure_services.c\<close> the tracker uses.  Mbed TLS and the CC3xx platform
  library are parameters: the generator, SHA-256, the ECDSA operations and AES.
\<close>

section \<open>Hexadecimal\<close>

definition hexmap_cc :: bytes where
  "hexmap_cc = asc ''0123456789abcdef''"

fun hex2str_cc_loop :: "bytes \<Rightarrow> nat \<Rightarrow> bytes \<Rightarrow> nat \<Rightarrow> (bytes \<times> nat) option" where
  "hex2str_cc_loop buf_hex 0 str j = Some (str, j)"
| "hex2str_cc_loop buf_hex (Suc n) str j = do {
     b \<leftarrow> rd buf_hex (j div 2);
     h \<leftarrow> rd hexmap_cc (unat (drop_bit 4 b));
     str1 \<leftarrow> wr str j h;
     l \<leftarrow> rd hexmap_cc (unat (b AND 0x0F));
     str2 \<leftarrow> wr str1 (j + 1) l;
     hex2str_cc_loop buf_hex n str2 (j + 2)
   }"

definition hex2str_cc :: "bytes \<Rightarrow> nat \<Rightarrow> bytes \<Rightarrow> bytes option" where
  "hex2str_cc buf_hex len str = do {
     (str', j) \<leftarrow> hex2str_cc_loop buf_hex len str 0;
     wr str' j 0
   }"

definition str2Hex :: "u8 \<Rightarrow> u8" where
  "str2Hex c =
    (if ch CHR ''0'' \<le> c \<and> c \<le> ch CHR ''9'' then c - ch CHR ''0''
     else if ch CHR ''a'' \<le> c \<and> c \<le> ch CHR ''z'' then c - ch CHR ''a'' + 10
     else if ch CHR ''A'' \<le> c \<and> c \<le> ch CHR ''Z'' then c - ch CHR ''A'' + 10
     else c)"

text \<open>The loop runs over half the length of the string, which it does not change.\<close>

fun hexStr2Bin_loop :: "bytes \<Rightarrow> nat \<Rightarrow> nat \<Rightarrow> bytes \<Rightarrow> bytes option" where
  "hexStr2Bin_loop str 0 j bin = Some bin"
| "hexStr2Bin_loop str (Suc n) j bin = do {
     c \<leftarrow> rd str (2 * j);
     d \<leftarrow> rd str (2 * j + 1);
     bin1 \<leftarrow> wr bin j (push_bit 4 (str2Hex c) OR str2Hex d);
     hexStr2Bin_loop str n (Suc j) bin1
   }"

definition hexStr2Bin :: "bytes \<Rightarrow> bytes \<Rightarrow> (nat \<times> bytes) option" where
  "hexStr2Bin str bin = do {
     n \<leftarrow> strlen str;
     bin' \<leftarrow> hexStr2Bin_loop str (n div 2) 0 bin;
     Some (n div 2, bin')
   }"

section \<open>State and random numbers\<close>

text \<open>
  The state of the generator, that of the key management unit, and what \<^verbatim>\<open>SetEccPrivKey\<close> stored.
\<close>

record ('g, 'k) secure =
  drbg :: 'g
  init_ok :: bool
  kmu :: 'k
  ecc_x :: "bytes option"
  ecc_qx :: "bytes option"
  ecc_qy :: "bytes option"

type_synonym 'g rng = "'g \<Rightarrow> nat \<Rightarrow> bytes \<times> 'g"

definition GenRandom :: "'g rng \<Rightarrow> ('g, 'k) secure \<Rightarrow> bytes \<Rightarrow> (bytes \<times> ('g, 'k) secure) option" where
  "GenRandom rng st out =
    (let (buf, g) = rng (drbg st) 8 in
     do { out' \<leftarrow> hex2str_cc buf 8 out; Some (out', st\<lparr>drbg := g\<rparr>) })"

definition iotex_random :: "bool \<Rightarrow> 'g rng \<Rightarrow> ('g, 'k) secure \<Rightarrow> u32 \<times> ('g, 'k) secure" where
  "iotex_random be rng st = (let (buf, g) = rng (drbg st) 4 in (mem_load be buf, st\<lparr>drbg := g\<rparr>))"

text \<open>\<^verbatim>\<open>sizeof(key)\<close> is the size of a pointer, whatever \<^verbatim>\<open>len\<close> says.\<close>

definition SIZEOF_POINTER :: nat where "SIZEOF_POINTER = 4"

definition genAESKey :: "'g rng \<Rightarrow> ('g, 'k) secure \<Rightarrow> bytes \<Rightarrow> nat \<Rightarrow> (bytes \<times> ('g, 'k) secure) option" where
  "genAESKey rng st key len =
    (let (d, g) = rng (drbg st) SIZEOF_POINTER in
     do { key' \<leftarrow> wr_bytes key 0 d; Some (key', st\<lparr>drbg := g\<rparr>) })"

definition Initcc3xx :: "int \<Rightarrow> int" where
  "Initcc3xx platform_init = (if platform_init \<noteq> 0 then -1 else 0)"

definition initECDSA_sep256r :: "int \<Rightarrow> (unit \<Rightarrow> int \<times> 'g) \<Rightarrow> ('g, 'k) secure \<Rightarrow> int \<times> ('g, 'k) secure" where
  "initECDSA_sep256r platform_init init_drbg st =
    (if Initcc3xx platform_init \<noteq> 0 then (-1, st)
     else (let (r, g) = init_drbg () in
       if r \<noteq> 0 then (1, st\<lparr>drbg := g, init_ok := False\<rparr>) else (0, st\<lparr>drbg := g, init_ok := True\<rparr>)))"

section \<open>Signatures\<close>

text \<open>The bytes of a multi-precision number without leading zeros, as \<^verbatim>\<open>mbedtls_mpi_write_binary\<close>
  writes it when it is given exactly \<^verbatim>\<open>mbedtls_mpi_size\<close> bytes.\<close>

function mpi_bytes :: "nat \<Rightarrow> bytes" where
  "mpi_bytes n = (if n = 0 then [] else mpi_bytes (n div 256) @ [of_nat (n mod 256)])"
  by pat_completeness auto
termination
  by (relation "measure id") auto

declare mpi_bytes.simps [simp del]

lemma mpi_bytes_0 [simp]: "mpi_bytes 0 = []"
  by (simp add: mpi_bytes.simps)

text \<open>
  \<^verbatim>\<open>doESDA_sep256r_Sign\<close> with the function it calls: the two numbers of the signature go one behind
  the other into the buffer, with the sum of their lengths; the result is that of the verification.
\<close>

definition doESDA_sep256r_Sign ::
  "(bytes \<Rightarrow> bytes) \<Rightarrow> (bytes option \<Rightarrow> bytes \<Rightarrow> nat \<times> nat) \<Rightarrow>
   (bytes option \<Rightarrow> bytes option \<Rightarrow> bytes \<Rightarrow> nat \<Rightarrow> nat \<Rightarrow> int) \<Rightarrow>
   ('g, 'k) secure \<Rightarrow> bytes \<Rightarrow> nat \<Rightarrow> bytes \<Rightarrow> nat \<Rightarrow> (int \<times> bytes \<times> nat) option" where
  "doESDA_sep256r_Sign sha256 ecdsa_sign ecdsa_verify st inbuf len buf sinlen =
    (if \<not> init_ok st then Some (-1, buf, sinlen)
     else do {
       msg \<leftarrow> rd_bytes inbuf 0 len;
       let hash = sha256 msg;
       let (r, s) = ecdsa_sign (ecc_x st) hash;
       let len_r = length (mpi_bytes r);
       let len_s = length (mpi_bytes s);
       buf1 \<leftarrow> wr_bytes buf 0 (mpi_bytes r);
       buf2 \<leftarrow> wr_bytes buf1 len_r (mpi_bytes s);
       Some (ecdsa_verify (ecc_qx st) (ecc_qy st) hash r s, buf2, len_r + len_s)
     })"

section \<open>Keys\<close>

definition SetEccPrivKey :: "('g, 'k) secure \<Rightarrow> bytes \<Rightarrow> bytes \<Rightarrow> ('g, 'k) secure option" where
  "SetEccPrivKey st key key_p = do {
     x \<leftarrow> rd_bytes key 0 64;
     qx \<leftarrow> rd_bytes key_p 0 64;
     qy \<leftarrow> rd_bytes key_p 64 64;
     Some (st\<lparr>ecc_x := Some (x @ [0]), ecc_qx := Some (qx @ [0]), ecc_qy := Some (qy @ [0])\<rparr>)
   }"

text \<open>
  The CC3xx platform library and its AES: writing a key slot or the root key, pushing the root key,
  setting a key for encryption or decryption from a slot or derived from it with a label (an error
  code and the key schedule), and the block operations under a key schedule.
\<close>

record 'k cc3xx_ops =
  kmu_write_key_slot :: "'k \<Rightarrow> nat \<Rightarrow> bytes \<Rightarrow> int \<times> 'k"
  kmu_write_kdr_slot :: "'k \<Rightarrow> bytes \<Rightarrow> int \<times> 'k"
  kmu_push_kdr_slot :: "'k \<Rightarrow> int \<times> 'k"
  setkey_enc_shadow_key :: "'k \<Rightarrow> nat \<Rightarrow> int \<times> bytes"
  setkey_enc_shadow_key_derived :: "'k \<Rightarrow> nat \<Rightarrow> bytes \<Rightarrow> bytes \<Rightarrow> int \<times> bytes"
  setkey_dec_shadow_key :: "'k \<Rightarrow> nat \<Rightarrow> int \<times> bytes"
  setkey_dec_shadow_key_derived :: "'k \<Rightarrow> nat \<Rightarrow> bytes \<Rightarrow> bytes \<Rightarrow> int \<times> bytes"
  aes_encrypt :: "bytes \<Rightarrow> bytes \<Rightarrow> bytes"
  aes_decrypt :: "bytes \<Rightarrow> bytes \<Rightarrow> bytes"

definition KMU_ALREADY_FILLED :: int where "KMU_ALREADY_FILLED = - 0x701b"

definition store_key_in_kmu ::
  "'k cc3xx_ops \<Rightarrow> ('g, 'k) secure \<Rightarrow> nat \<Rightarrow> bytes \<Rightarrow> int \<times> ('g, 'k) secure" where
  "store_key_in_kmu ops st slot_id key =
    (if 2 \<le> slot_id then
       (let (ret, k) = kmu_write_key_slot ops (kmu st) slot_id key in
        (if ret \<noteq> 0 \<and> ret \<noteq> KMU_ALREADY_FILLED then ret else 0, st\<lparr>kmu := k\<rparr>))
     else
       (let (ret, k) = kmu_write_kdr_slot ops (kmu st) key in
        if ret \<noteq> 0 \<and> ret \<noteq> KMU_ALREADY_FILLED then (ret, st\<lparr>kmu := k\<rparr>)
        else (let (ret', k') = kmu_push_kdr_slot ops k in (if ret' \<noteq> 0 then ret' else 0, st\<lparr>kmu := k'\<rparr>))))"

definition cc3xx_label :: bytes where "cc3xx_label = asc ''Sealing Key''"

definition cc3xx_encrypt :: "'k cc3xx_ops \<Rightarrow> ('g, 'k) secure \<Rightarrow> nat \<Rightarrow> bytes \<Rightarrow> int \<times> bytes" where
  "cc3xx_encrypt ops st slot_id plain_text =
    (let (ret, ctx) = (if 2 \<le> slot_id then setkey_enc_shadow_key ops (kmu st) slot_id
       else setkey_enc_shadow_key_derived ops (kmu st) slot_id cc3xx_label []) in
     if ret \<noteq> 0 then (ret, []) else (0, aes_encrypt ops ctx plain_text))"

definition cc3xx_decrypt :: "'k cc3xx_ops \<Rightarrow> ('g, 'k) secure \<Rightarrow> nat \<Rightarrow> bytes \<Rightarrow> int \<times> bytes" where
  "cc3xx_decrypt ops st slot_id cipher_text =
    (let (ret, ctx) = (if 2 \<le> slot_id then setkey_dec_shadow_key ops (kmu st) slot_id
       else setkey_dec_shadow_key_derived ops (kmu st) slot_id cc3xx_label []) in
     if ret \<noteq> 0 then (ret, []) else (0, aes_decrypt ops ctx cipher_text))"

text \<open>The loop over four blocks that occurs at every encryption and decryption of a key.\<close>

fun crypt_blocks ::
  "(bytes \<Rightarrow> int \<times> bytes) \<Rightarrow> bytes \<Rightarrow> nat \<Rightarrow> nat \<Rightarrow> bytes \<Rightarrow> (int \<times> bytes) option" where
  "crypt_blocks f src 0 i dst = Some (0, dst)"
| "crypt_blocks f src (Suc n) i dst = do {
     b \<leftarrow> rd_bytes src (16 * i) 16;
     let (ret, d) = f b;
     if ret \<noteq> 0 then Some (ret, dst)
     else do { dst' \<leftarrow> wr_bytes dst (16 * i) d; crypt_blocks f src n (Suc i) dst' }
   }"

definition AES_KMU_SLOT :: nat where "AES_KMU_SLOT = 2"
definition PRIV_STR_BUF_SIZE :: nat where "PRIV_STR_BUF_SIZE = 133"
definition PRIV_STR_LEN :: nat where "PRIV_STR_LEN = PRIV_STR_BUF_SIZE - 1"

text \<open>
  \<^verbatim>\<open>updateKey\<close>: the imported record is the hex string of the encrypted private key (with its
  checksum) and, behind it, the uncompressed public key, whose first byte is skipped.
\<close>

definition updateKey :: "'k cc3xx_ops \<Rightarrow> ('g, 'k) secure \<Rightarrow> bytes \<Rightarrow> bytes \<Rightarrow> (int \<times> ('g, 'k) secure) option" where
  "updateKey ops st binBuf key = do {
     s \<leftarrow> rd_bytes key 0 PRIV_STR_LEN;
     let decrypted_buf = s @ [0];
     (_, binBuf1) \<leftarrow> hexStr2Bin decrypted_buf binBuf;
     (ret, buf1) \<leftarrow> crypt_blocks (cc3xx_decrypt ops st AES_KMU_SLOT) binBuf1 4 0 decrypted_buf;
     if ret \<noteq> 0 then Some (-1, st)
     else do {
       buf2 \<leftarrow> wr buf1 64 0;
       pub \<leftarrow> rd_bytes key (PRIV_STR_LEN + 2) 128;
       st' \<leftarrow> SetEccPrivKey st buf2 (pub @ [0]);
       Some (0, st')
     }
   }"

section \<open>Reading memory for the non-secure side\<close>

text \<open>
  \<^verbatim>\<open>spm_request_read_nse\<close>: the ranges are pairs of start and size, all arithmetic is that of 32-bit
  words; the result is the error code and, on success, the range of addresses that is copied.
\<close>

fun find_range :: "(u32 \<times> u32) list \<Rightarrow> u32 \<Rightarrow> u32 \<Rightarrow> bool" where
  "find_range [] addr len = False"
| "find_range ((start, sz) # rs) addr len =
    (if start \<le> addr \<and> addr + len \<le> start + sz then True else find_range rs addr len)"

definition spm_request_read_nse ::
  "(u32 \<times> u32) list \<Rightarrow> bool \<Rightarrow> u32 \<Rightarrow> u32 \<Rightarrow> int \<times> (u32 \<times> u32) option" where
  "spm_request_read_nse ranges destination_null addr len =
    (if destination_null \<or> len = 0 then (- EINVAL, None)
     else if find_range ranges addr len then (0, Some (addr, len)) else (- EPERM, None))"

text \<open>The readable ranges: the metadata of the bootloader, where it is configured, and two parts of the FICR.\<close>

definition FICR_BASE :: u32 where "FICR_BASE = 0x00FF0000"

definition read_ranges :: "(u32 \<times> u32) option \<Rightarrow> (u32 \<times> u32) list" where
  "read_ranges mcuboot_pad = (case mcuboot_pad of None \<Rightarrow> [] | Some r \<Rightarrow> [r]) @
     [(FICR_BASE + 0x204, 0xA1C), (FICR_BASE + 0x130, 0x8)]"

section \<open>Conversions are inverse\<close>

lemma hexmap_cc_eq: "hexmap_cc = hexmap"
  by (simp add: hexmap_cc_def hexmap_def)

lemma str2Hex_hexmap: "n < 16 \<Longrightarrow> str2Hex (hexmap ! n) = of_nat n"
proof -
  have "\<forall>n\<in>set [0..<16]. str2Hex (hexmap ! n) = of_nat n" by code_simp
  then show "n < 16 \<Longrightarrow> ?thesis" by simp
qed

lemma hex2str_cc_loop_run:
  assumes "length W = 2 * i" "i + n \<le> length hex" "2 * n \<le> length R"
  shows "hex2str_cc_loop hex n (W @ R) (2 * i) =
    Some (W @ hex_digits (take n (drop i hex)) @ drop (2 * n) R, 2 * (i + n))"
  using assms
proof (induction n arbitrary: i W R)
  case (Suc n)
  let ?b = "hex ! i"
  let ?h = "hexmap ! unat (drop_bit 4 ?b)" and ?l = "hexmap ! unat (?b AND 0xf)"
  have b: "rd hex i = Some ?b" "rd hexmap (unat (drop_bit 4 ?b)) = Some ?h" "rd hexmap (unat (?b AND 0xf)) = Some ?l"
    using Suc.prems nibble_bounds [of ?b] by (simp_all add: rd_def hexmap_def)
  have t: "take (Suc n) (drop i hex) = ?b # take n (drop (Suc i) hex)"
    using Suc.prems by (simp add: Cons_nth_drop_Suc [symmetric])
  obtain x y R' where R: "R = x # y # R'" using Suc.prems by (cases R; cases "tl R") auto
  have w: "wr (W @ R) (2 * i) ?h = Some ((W @ [?h]) @ y # R')"
    "wr ((W @ [?h]) @ y # R') (2 * i + 1) ?l = Some ((W @ [?h, ?l]) @ R')"
    using wr_append [of "2 * i" W R ?h] wr_append [of "2 * i + 1" "W @ [?h]" "y # R'" ?l] Suc.prems
    by (simp_all add: R)
  show ?case using Suc.IH [of "W @ [?h, ?l]" "Suc i" R'] Suc.prems b w t R
    by (simp add: hexmap_cc_eq del: wr_in)
qed simp

lemma hex2str_cc_eq:
  assumes "n \<le> length hex" "2 * n < length str"
  shows "hex2str_cc hex n str = Some (hex_digits (take n hex) @ 0 # drop (Suc (2 * n)) str)"
proof -
  obtain c r where r: "drop (2 * n) str = c # r" using assms(2) by (cases "drop (2 * n) str") auto
  then have r': "r = drop (Suc (2 * n)) str" by (metis drop_Suc list.sel(3) tl_drop)
  have "wr (hex_digits (take n hex) @ c # r) (2 * n) 0 = Some ((hex_digits (take n hex) @ [0]) @ r)"
    using wr_append [of "2 * n" "hex_digits (take n hex)" "c # r" 0] assms(1) by simp
  then show ?thesis using hex2str_cc_loop_run [of "[]" 0 n hex str] assms r r'
    by (simp add: hex2str_cc_def)
qed

text \<open>Decoding any text of pairs of digits.\<close>

definition pair_value :: "u8 \<times> u8 \<Rightarrow> u8" where
  "pair_value p = push_bit 4 (str2Hex (fst p)) OR str2Hex (snd p)"

definition pair_text :: "(u8 \<times> u8) list \<Rightarrow> bytes" where
  "pair_text ps = concat (map (\<lambda>p. [fst p, snd p]) ps)"

lemma pair_text_simps [simp]: "pair_text [] = []" "pair_text (p # ps) = fst p # snd p # pair_text ps"
  by (simp_all add: pair_text_def)

lemma length_pair_text [simp]: "length (pair_text ps) = 2 * length ps"
  by (induction ps) auto

lemma hexStr2Bin_loop_run:
  assumes "length P = 2 * j" "length W = j" "length ps \<le> length R"
  shows "hexStr2Bin_loop (P @ pair_text ps @ z) (length ps) j (W @ R) =
    Some (W @ map pair_value ps @ drop (length ps) R)"
  using assms
proof (induction ps arbitrary: P j W R)
  case (Cons p ps)
  let ?s = "P @ pair_text (p # ps) @ z"
  have rd: "rd ?s (2 * j) = Some (fst p)" "rd ?s (2 * j + 1) = Some (snd p)"
    using Cons.prems by (simp_all add: rd_def nth_append)
  have w: "wr (W @ R) j (pair_value p) = Some ((W @ [pair_value p]) @ tl R)" using Cons.prems by (intro wr_append) auto
  have "hexStr2Bin_loop ?s (length (p # ps)) j (W @ R) =
      hexStr2Bin_loop ?s (length ps) (Suc j) ((W @ [pair_value p]) @ tl R)"
    using rd w by (simp add: pair_value_def del: wr_in)
  also have "?s = (P @ [fst p, snd p]) @ pair_text ps @ z" by simp
  also have "hexStr2Bin_loop ((P @ [fst p, snd p]) @ pair_text ps @ z) (length ps) (Suc j) ((W @ [pair_value p]) @ tl R) =
      Some ((W @ [pair_value p]) @ map pair_value ps @ drop (length ps) (tl R))"
    using Cons.prems by (intro Cons.IH) auto
  finally show ?case by (simp add: drop_Suc)
qed simp

lemma hexStr2Bin_pairs:
  assumes "length ps \<le> length bin" "0 \<notin> set (pair_text ps)"
  shows "hexStr2Bin (pair_text ps @ 0 # z) bin = Some (length ps, map pair_value ps @ drop (length ps) bin)"
  using hexStr2Bin_loop_run [of "[]" 0 "[]" ps bin "0 # z"] assms strlen_append [OF assms(2), of z]
  by (simp add: hexStr2Bin_def)

lemma hexStr2Bin_eq:
  assumes "length bs \<le> length bin"
  shows "hexStr2Bin (hex_digits bs @ 0 # z) bin = Some (length bs, bs @ drop (length bs) bin)"
proof -
  let ?p = "\<lambda>b. (hexmap ! unat (drop_bit 4 b), hexmap ! unat (b AND 0xf))"
  have t: "pair_text (map ?p bs) = hex_digits bs" by (induction bs) auto
  have v: "pair_value (?p b) = b" for b
    using str2Hex_hexmap [OF nibble_bounds(1), of b] str2Hex_hexmap [OF nibble_bounds(2), of b]
    by (simp add: pair_value_def nibbles_join)
  have "map pair_value (map ?p bs) = bs" by (induction bs) (simp_all only: list.map v)
  then show ?thesis using hexStr2Bin_pairs [of "map ?p bs" bin z] assms hex_digits_nz [of bs]
    by (simp only: t length_map simp_thms not_False_eq_True)
qed

section \<open>Encrypted keys\<close>

text \<open>Block encryption and decryption of one slot that are total, keep the length and are inverse.\<close>

definition aes_ok :: "(bytes \<Rightarrow> int \<times> bytes) \<Rightarrow> (bytes \<Rightarrow> int \<times> bytes) \<Rightarrow> bool" where
  "aes_ok enc dec \<longleftrightarrow> (\<forall>b. length b = 16 \<longrightarrow> (\<exists>e. enc b = (0, e) \<and> length e = 16 \<and> dec e = (0, b)))"

fun enc_blocks :: "(bytes \<Rightarrow> int \<times> bytes) \<Rightarrow> bytes \<Rightarrow> nat \<Rightarrow> bytes" where
  "enc_blocks enc src 0 = []"
| "enc_blocks enc src (Suc n) = snd (enc (take 16 src)) @ enc_blocks enc (drop 16 src) n"

lemma aes_okE:
  assumes "aes_ok enc dec" "16 \<le> length src"
  obtains e where "enc (take 16 src) = (0, e)" "length e = 16" "dec e = (0, take 16 src)"
  using assms unfolding aes_ok_def by (metis length_take min.absorb2)

lemma length_enc_blocks:
  assumes "aes_ok enc dec" shows "16 * n \<le> length src \<Longrightarrow> length (enc_blocks enc src n) = 16 * n"
proof (induction n arbitrary: src)
  case (Suc n)
  then obtain e where "enc (take 16 src) = (0, e)" "length e = 16" using aes_okE [OF assms, of src] by auto
  then show ?case using Suc by simp
qed simp

text \<open>What holds for one direction of \<^verbatim>\<open>crypt_blocks\<close>, with the blocks given as a list.\<close>

lemma crypt_blocks_run:
  assumes "list_all2 (\<lambda>b d. length b = 16 \<and> f b = (0, d) \<and> length d = 16) bs ds"
    "length P = 16 * i" "length W = 16 * i" "16 * length bs \<le> length R"
  shows "crypt_blocks f (P @ concat bs @ z) (length bs) i (W @ R) = Some (0, W @ concat ds @ drop (16 * length bs) R)"
  using assms
proof (induction bs ds arbitrary: i P W R rule: list_all2_induct)
  case (Cons b bs d ds)
  have rd: "rd_bytes (P @ b @ concat bs @ z) (16 * i) 16 = Some b" using Cons by (simp add: rd_bytes_def)
  have w: "wr_bytes (W @ R) (16 * i) d = Some ((W @ d) @ drop 16 R)"
    using wr_bytes_append [of "16 * i" W d R] Cons by simp
  have "crypt_blocks f (P @ concat (b # bs) @ z) (length (b # bs)) i (W @ R) =
      crypt_blocks f ((P @ b) @ concat bs @ z) (length bs) (Suc i) ((W @ d) @ drop 16 R)"
    using rd w Cons by simp
  also have "\<dots> = Some (0, (W @ d) @ concat ds @ drop (16 * length bs) (drop 16 R))"
    using Cons by (intro Cons.IH) auto
  finally show ?case by (simp add: add.commute)
qed simp

fun blocks :: "bytes \<Rightarrow> nat \<Rightarrow> bytes list" where
  "blocks src 0 = []"
| "blocks src (Suc n) = take 16 src # blocks (drop 16 src) n"

lemma length_blocks [simp]: "length (blocks src n) = n"
  by (induction n arbitrary: src) auto

lemma concat_blocks: "concat (blocks src n) = take (16 * n) src"
  by (induction n arbitrary: src) (auto simp: take_add)

lemma enc_blocks_concat: "enc_blocks enc src n = concat (map (\<lambda>b. snd (enc b)) (blocks src n))"
  by (induction n arbitrary: src) auto

lemma crypt_blocks_decrypt:
  assumes "aes_ok enc dec" "16 * n \<le> length src" "16 * n \<le> length R"
  shows "crypt_blocks dec (enc_blocks enc src n @ z) n 0 R = Some (0, take (16 * n) src @ drop (16 * n) R)"
proof -
  have "list_all2 (\<lambda>b d. length b = 16 \<and> dec b = (0, d) \<and> length d = 16)
      (map (\<lambda>b. snd (enc b)) (blocks src n)) (blocks src n)"
    using assms(2)
  proof (induction n arbitrary: src)
    case (Suc n)
    then obtain e where "enc (take 16 src) = (0, e)" "length e = 16" "dec e = (0, take 16 src)"
      using aes_okE [OF assms(1), of src] by auto
    then show ?case using Suc by simp
  qed simp
  then show ?thesis using crypt_blocks_run [of dec _ _ "[]" 0 "[]" R z] assms(3)
    by (force simp: enc_blocks_concat concat_blocks)
qed

lemma crypt_blocks_encrypt:
  assumes "aes_ok enc dec" "16 * n \<le> length src" "16 * n \<le> length R"
  shows "crypt_blocks enc src n 0 R = Some (0, enc_blocks enc src n @ drop (16 * n) R)"
proof -
  have "list_all2 (\<lambda>b d. length b = 16 \<and> enc b = (0, d) \<and> length d = 16)
      (blocks src n) (map (\<lambda>b. snd (enc b)) (blocks src n))"
    using assms(2)
  proof (induction n arbitrary: src)
    case (Suc n)
    then obtain e where "enc (take 16 src) = (0, e)" "length e = 16"
      using aes_okE [OF assms(1), of src] by auto
    then show ?case using Suc by simp
  qed simp
  then show ?thesis using crypt_blocks_run [of enc _ _ "[]" 0 "[]" R "drop (16 * n) src"] assms(3)
    by (force simp: enc_blocks_concat concat_blocks)
qed

text \<open>C15: Importing a key restores it: from the hexadecimal text of the encrypted 64-digit private key, its two
  bytes of checksum and the uncompressed public key, \<^verbatim>\<open>updateKey\<close> sets exactly the private key and the
  two coordinates, for every block cipher that decrypts what it encrypted.\<close>

theorem updateKey_restores_key:
  assumes "aes_ok (cc3xx_encrypt ops st AES_KMU_SLOT) (cc3xx_decrypt ops st AES_KMU_SLOT)"
    "length priv = 64" "length crc = 2" "length pre = 2"
    "length qx = 64" "length qy = 64" "length binBuf = PRIV_STR_BUF_SIZE"
    "key = hex_digits (enc_blocks (cc3xx_encrypt ops st AES_KMU_SLOT) priv 4 @ crc) @ pre @ qx @ qy @ rest"
  shows "updateKey ops st binBuf key =
    Some (0, st\<lparr>ecc_x := Some (priv @ [0]), ecc_qx := Some (qx @ [0]), ecc_qy := Some (qy @ [0])\<rparr>)"
proof -
  let ?e = "enc_blocks (cc3xx_encrypt ops st AES_KMU_SLOT) priv 4 @ crc"
  have le: "length ?e = 66" using length_enc_blocks [OF assms(1), of 4 priv] assms(2,3) by simp
  have pl: "PRIV_STR_LEN = 132" "PRIV_STR_BUF_SIZE = 133" by (simp_all add: PRIV_STR_LEN_def PRIV_STR_BUF_SIZE_def)
  have k1: "rd_bytes key 0 132 = Some (hex_digits ?e)" using le assms(8) by (simp add: rd_bytes_def)
  have k2: "rd_bytes key 134 128 = Some (qx @ qy)" using le assms by (simp add: rd_bytes_def)
  have b1: "hexStr2Bin (hex_digits ?e @ [0]) binBuf = Some (66, ?e @ drop 66 binBuf)"
    using hexStr2Bin_eq [of ?e binBuf "[]"] le assms(7) pl by simp
  obtain R where R: "R = hex_digits ?e @ [0]" "length R = 133" using le by simp
  have b2: "crypt_blocks (cc3xx_decrypt ops st AES_KMU_SLOT) (?e @ drop 66 binBuf) 4 0 R = Some (0, priv @ drop 64 R)"
    using crypt_blocks_decrypt [OF assms(1), of 4 priv R "crc @ drop 66 binBuf"] assms(2) R(2) by simp
  obtain c r where "drop 64 R = c # r" using R(2) by (cases "drop 64 R") auto
  then have b3: "wr (priv @ drop 64 R) 64 0 = Some (priv @ 0 # r)"
    using wr_append [of 64 priv "drop 64 R" 0] assms(2) by simp
  show ?thesis unfolding updateKey_def pl using k1 k2 b1 b2 b3 R(1) assms(2,5,6)
    by (simp add: SetEccPrivKey_def)
qed

text \<open>A platform for examples: the key schedule is the slot's key, whose first byte every byte is combined with.\<close>

definition xor_cc3xx :: "(nat \<Rightarrow> bytes) cc3xx_ops" where
  "xor_cc3xx = \<lparr>kmu_write_key_slot = (\<lambda>k i key. (0, k(i := key))), kmu_write_kdr_slot = (\<lambda>k key. (0, k(0 := key))),
    kmu_push_kdr_slot = (\<lambda>k. (0, k)), setkey_enc_shadow_key = (\<lambda>k i. (0, k i)),
    setkey_enc_shadow_key_derived = (\<lambda>k i l c. (0, k i)), setkey_dec_shadow_key = (\<lambda>k i. (0, k i)),
    setkey_dec_shadow_key_derived = (\<lambda>k i l c. (0, k i)),
    aes_encrypt = (\<lambda>ctx. map (\<lambda>b. b XOR hd (ctx @ [1]))), aes_decrypt = (\<lambda>ctx. map (\<lambda>b. b XOR hd (ctx @ [1])))\<rparr>"

lemma xor_cc3xx_ok: "aes_ok (cc3xx_encrypt xor_cc3xx st slot) (cc3xx_decrypt xor_cc3xx st slot)"
  by (simp add: aes_ok_def xor_cc3xx_def cc3xx_encrypt_def cc3xx_decrypt_def comp_def xor.assoc)

definition secure0 :: "(unit, nat \<Rightarrow> bytes) secure" where
  "secure0 = \<lparr>drbg = (), init_ok = True, kmu = (\<lambda>i. replicate 16 7), ecc_x = None, ecc_qx = None, ecc_qy = None\<rparr>"

lemma updateKey_restores_key_witness:
  "updateKey xor_cc3xx secure0 (replicate PRIV_STR_BUF_SIZE 0)
     (hex_digits (enc_blocks (cc3xx_encrypt xor_cc3xx secure0 AES_KMU_SLOT) (replicate 64 0x61) 4 @ [1, 2]) @ asc ''04'' @
       replicate 64 0x31 @ replicate 64 0x32 @ []) =
   Some (0, secure0\<lparr>ecc_x := Some (replicate 64 0x61 @ [0]), ecc_qx := Some (replicate 64 0x31 @ [0]),
     ecc_qy := Some (replicate 64 0x32 @ [0])\<rparr>)"
  by (rule updateKey_restores_key [OF xor_cc3xx_ok _ _ _ _ _ _ refl]) simp_all

text \<open>The AES key is mostly not random: whatever length the caller asks for, four bytes of the key buffer are
  drawn from the generator (the size of the pointer); the other bytes stay what the caller's
  uninitialised buffer held.\<close>

theorem genAESKey_four_bytes:
  assumes "\<And>g n. length (fst (rng g n)) = n" "4 \<le> length key"
  shows "genAESKey rng st key len =
    Some (fst (rng (drbg st) 4) @ drop 4 key, st\<lparr>drbg := snd (rng (drbg st) 4)\<rparr>)"
  using assms by (simp add: genAESKey_def SIZEOF_POINTER_def wr_bytes_def Let_def split_beta)

lemma genAESKey_four_bytes_witness:
  "genAESKey (\<lambda>g n. (replicate n 0xAB, g)) secure0 (replicate 16 0) 16 =
    Some (fst ((\<lambda>g n. (replicate n 0xAB, g)) (drbg secure0) 4) @ drop 4 (replicate 16 0),
      secure0\<lparr>drbg := snd ((\<lambda>g n. (replicate n (0xAB :: u8), g)) (drbg secure0) 4)\<rparr>)"
  by (rule genAESKey_four_bytes) simp_all

section \<open>The lengths of a signature\<close>

lemma mpi_bytes_length:
  assumes "256 ^ k \<le> n" "n < 256 ^ Suc k"
  shows "length (mpi_bytes n) = Suc k"
  using assms
proof (induction k arbitrary: n)
  case 0
  then show ?case by (subst mpi_bytes.simps) simp
next
  case (Suc k)
  have n: "n \<noteq> 0" using Suc.prems(1) by (metis le_zero_eq power_not_zero zero_neq_numeral)
  have "256 ^ k \<le> n div 256" using div_le_mono [OF Suc.prems(1), of 256] by simp
  moreover have "n div 256 < 256 ^ Suc k" using Suc.prems(2) by (simp add: less_mult_imp_div_less mult.commute)
  ultimately have "length (mpi_bytes (n div 256)) = Suc k" by (rule Suc.IH)
  then show ?case using n by (subst mpi_bytes.simps) simp
qed

section \<open>What the non-secure side can read\<close>

lemma find_range_exact:
  assumes "unat addr + unat len < 2 ^ 32" "\<forall>(start, sz)\<in>set rs. unat start + unat sz < 2 ^ 32"
  shows "find_range rs addr len \<longleftrightarrow>
    (\<exists>(start, sz)\<in>set rs. unat start \<le> unat addr \<and> unat addr + unat len \<le> unat start + unat sz)"
  using assms(2)
proof (induction rs)
  case (Cons r rs)
  obtain start sz where r: "r = (start, sz)" by (cases r)
  have "unat (addr + len) = unat addr + unat len" "unat (start + sz) = unat start + unat sz"
    using assms(1) Cons.prems r by (auto simp: unat_word_ariths)
  then show ?case using Cons r by (auto simp: word_le_nat_alt)
qed simp

text \<open>A read request whose end does not exceed the address space is granted exactly when it has a destination
  and a length and lies, as a whole, inside the bootloader's metadata or one of the two parts of the FICR.\<close>

theorem spm_read_exact:
  assumes "unat addr + unat len < 2 ^ 32" "unat b + unat n < 2 ^ 32"
  shows "fst (spm_request_read_nse (read_ranges (Some (b, n))) dest_null addr len) = 0 \<longleftrightarrow>
    \<not> dest_null \<and> len \<noteq> 0 \<and> (\<exists>(start, sz)\<in>{(unat b, unat n), (0xFF0204, 0xA1C), (0xFF0130, 8)}.
      start \<le> unat addr \<and> unat addr + unat len \<le> start + sz)"
  using assms find_range_exact [OF assms(1), of "read_ranges (Some (b, n))"]
  by (auto simp: spm_request_read_nse_def read_ranges_def FICR_BASE_def EINVAL_def EPERM_def)

lemma spm_read_exact_witness:
  "fst (spm_request_read_nse (read_ranges (Some (0x8000, 0x200))) False 0x8010 0x20) = 0 \<longleftrightarrow>
    \<not> False \<and> (0x20 :: u32) \<noteq> 0 \<and> (\<exists>(start, sz)\<in>{(unat (0x8000 :: u32), unat (0x200 :: u32)), (0xFF0204, 0xA1C), (0xFF0130, 8)}.
      start \<le> unat (0x8010 :: u32) \<and> unat (0x8010 :: u32) + unat (0x20 :: u32) \<le> start + sz)"
  by (rule spm_read_exact) simp_all

text \<open>The check of the range wraps around: a request from the first readable address for nearly the whole address
  space passes, so the secure side copies all its memory.\<close>

theorem spm_read_wraps:
  "spm_request_read_nse (read_ranges None) False 0x00FF0204 0xFFFFFFFF = (0, Some (0x00FF0204, 0xFFFFFFFF))"
  by (simp add: spm_request_read_nse_def read_ranges_def FICR_BASE_def)

end
