(* ===== verification/Ecdsa.thy ===== *)
theory Ecdsa
  imports SecureServices LocalStorage
begin

text \<open>
  \<^verbatim>\<open>sign/ecdsa.c\<close>: the device key of the tracker.  The private key is generated in the secure
  image, encrypted block by block, protected by a checksum and kept in the local storage; at every
  start it is read back and handed to the secure image.  What the file calls there is an
  interface, a record of functions on the state of the secure side.
\<close>

section \<open>The checksum\<close>

definition crc_step :: "u16 \<Rightarrow> u16" where
  "crc_step crc = (if crc AND 0x8000 \<noteq> 0 then push_bit 1 crc XOR 0x8005 else push_bit 1 crc)"

definition crc_byte :: "u8 \<Rightarrow> u16 \<Rightarrow> u16" where
  "crc_byte b crc = (crc_step ^^ 8) (crc XOR push_bit 8 (ucast b))"

definition CRC16 :: "bytes \<Rightarrow> nat \<Rightarrow> u16 option" where
  "CRC16 data len = map_option (\<lambda>d. fold crc_byte d 0) (rd_bytes data 0 len)"

section \<open>Hexadecimal\<close>

text \<open>The digit of the low half of a byte, and that of its high half, which is compared in place.\<close>

definition lo_digit :: "u8 \<Rightarrow> u8" where
  "lo_digit b = (if b AND 0x0F > 9 then (b AND 0x0F) - 10 + ch CHR ''A'' else (b AND 0x0F) + ch CHR ''0'')"

definition hi_digit :: "u8 \<Rightarrow> u8" where
  "hi_digit b = (if b AND 0xF0 > 0x90 then drop_bit 4 (b AND 0xF0) - 10 + ch CHR ''A''
     else drop_bit 4 (b AND 0xF0) + ch CHR ''0'')"

fun hex2str_loop :: "bytes \<Rightarrow> nat \<Rightarrow> nat \<Rightarrow> bytes \<Rightarrow> nat \<Rightarrow> (bytes \<times> nat) option" where
  "hex2str_loop buf_hex i 0 str j = Some (str, j)"
| "hex2str_loop buf_hex i (Suc n) str j = do {
     b \<leftarrow> rd buf_hex i;
     str1 \<leftarrow> wr str j (lo_digit b);
     str2 \<leftarrow> wr str1 (j + 1) (hi_digit b);
     hex2str_loop buf_hex (i + 1) n str2 (j + 2)
   }"

definition hex2str :: "bytes \<Rightarrow> nat \<Rightarrow> bytes \<Rightarrow> bytes option" where
  "hex2str buf_hex len str = do {
     (str', j) \<leftarrow> hex2str_loop buf_hex 0 len str 0;
     wr str' j 0
   }"

section \<open>The secure side as the tracker sees it\<close>

record 'k secure_api =
  api_gen_ecc_key :: "'k \<Rightarrow> int \<times> bytes \<times> bytes \<times> 'k"
  api_genAESKey :: "'k \<Rightarrow> bytes \<times> 'k"
  api_store_key :: "'k \<Rightarrow> nat \<Rightarrow> bytes \<Rightarrow> int \<times> 'k"
  api_encrypt :: "'k \<Rightarrow> nat \<Rightarrow> bytes \<Rightarrow> int \<times> bytes"
  api_decrypt :: "'k \<Rightarrow> nat \<Rightarrow> bytes \<Rightarrow> int \<times> bytes"
  api_SetEccPrivKey :: "'k \<Rightarrow> bytes \<Rightarrow> 'k"

definition KEY_BUF_SIZE :: nat where "KEY_BUF_SIZE = 160"
definition ENC_BUF_SIZE :: nat where "ENC_BUF_SIZE = 66"

text \<open>\<^verbatim>\<open>PUBKEY_BUF_ADDRESS\<close> and \<^verbatim>\<open>PUBKEY_STRIP_HEAD\<close> as offsets into the buffer.\<close>

definition PUBKEY_BUF_ADDRESS :: nat where "PUBKEY_BUF_ADDRESS = 80"
definition PUBKEY_STRIP_HEAD :: nat where "PUBKEY_STRIP_HEAD = 81"

definition load_key :: "'s nvs_ops \<Rightarrow> 's \<Rightarrow> bytes \<Rightarrow> nat \<Rightarrow> bytes" where
  "load_key nvs s buf n = snd (iotex_local_storage_load nvs s SID_ECC_KEY buf n)"

text \<open>The buffers on the stack start with unspecified contents, which are arguments.\<close>

definition get_ecc_key ::
  "'k secure_api \<Rightarrow> 's nvs_ops \<Rightarrow> 's \<Rightarrow> 'k \<Rightarrow> bytes \<Rightarrow> bytes \<Rightarrow> (int \<times> 'k) option" where
  "get_ecc_key api nvs s k buf decrypted_buf = do {
     let buf1 = load_key nvs s buf KEY_BUF_SIZE;
     (ret, dec) \<leftarrow> crypt_blocks (api_decrypt api k AES_KMU_SLOT) buf1 4 0 decrypted_buf;
     if ret \<noteq> 0 then Some (-1, k)
     else do { dec1 \<leftarrow> wr dec 64 0; Some (0, api_SetEccPrivKey api k dec1) }
   }"

text \<open>
  \<^verbatim>\<open>get_ecc_public_key\<close> with its static counter: asked without a buffer it says whether it would
  still answer.
\<close>

definition get_ecc_public_key ::
  "'s nvs_ops \<Rightarrow> 's \<Rightarrow> u8 \<Rightarrow> bytes \<Rightarrow> bytes option \<Rightarrow> (int \<times> bytes option \<times> u8) option" where
  "get_ecc_public_key nvs s trans_key buf pub =
    (case pub of
       None \<Rightarrow> Some (uint trans_key, None, trans_key)
     | Some p \<Rightarrow>
         if trans_key > 0 then do {
           p' \<leftarrow> hex2str (drop PUBKEY_STRIP_HEAD (load_key nvs s buf KEY_BUF_SIZE)) 64 p;
           Some (1, Some p', trans_key - 1)
         } else Some (0, Some p, trans_key))"

definition readECCPubKey :: "'s nvs_ops \<Rightarrow> 's \<Rightarrow> bytes \<Rightarrow> bytes \<Rightarrow> bytes option" where
  "readECCPubKey nvs s buf pub =
     hex2str (drop PUBKEY_STRIP_HEAD (load_key nvs s buf KEY_BUF_SIZE)) 64 pub"

text \<open>
  A new key: generated into the two halves of the buffer, encrypted under a fresh AES key, with
  the checksum behind the four blocks, and saved.
\<close>

definition new_ecc_key ::
  "'k secure_api \<Rightarrow> 's nvs_ops \<Rightarrow> 's \<Rightarrow> 'k \<Rightarrow> bytes \<Rightarrow> bytes \<Rightarrow> (int \<times> 's \<times> 'k) option" where
  "new_ecc_key api nvs s k buf encrypted_buf =
    (let (ret, priv, pub, k1) = api_gen_ecc_key api k in
     if ret \<noteq> 0 then Some (-3, s, k1)
     else do {
       buf1 \<leftarrow> wr_bytes buf 0 priv;
       buf2 \<leftarrow> wr_bytes buf1 PUBKEY_BUF_ADDRESS pub;
       let (key, k2) = api_genAESKey api k1;
       let (sret, k3) = api_store_key api k2 AES_KMU_SLOT key;
       if sret \<noteq> 0 then Some (-1, s, k3)
       else do {
         (eret, enc) \<leftarrow> crypt_blocks (api_encrypt api k3 AES_KMU_SLOT) buf2 4 0 encrypted_buf;
         if eret \<noteq> 0 then Some (-2, s, k3)
         else do {
           crc \<leftarrow> CRC16 enc 64;
           enc1 \<leftarrow> wr_bytes enc 64 (mem_store False 2 crc);
           buf3 \<leftarrow> wr_bytes buf2 0 enc1;
           Some (0, snd (iotex_local_storage_save nvs s SID_ECC_KEY buf3), k3)
         }
       }
     })"

definition startup_check_ecc_key ::
  "'k secure_api \<Rightarrow> 's nvs_ops \<Rightarrow> 's \<Rightarrow> 'k \<Rightarrow> bytes \<Rightarrow> bytes \<Rightarrow> bytes \<Rightarrow> (int \<times> 's \<times> 'k) option" where
  "startup_check_ecc_key api nvs s k encrypted_buf stack_buf decrypted_buf = do {
     let buf = load_key nvs s (replicate KEY_BUF_SIZE 0) ENC_BUF_SIZE;
     b \<leftarrow> rd_bytes buf 64 2;
     let crc = (mem_load False b :: u16);
     c \<leftarrow> CRC16 buf 64;
     (ret, s1, k1) \<leftarrow> (if c \<noteq> crc \<or> crc = 0 then new_ecc_key api nvs s k buf encrypted_buf else Some (0, s, k));
     if ret \<noteq> 0 then Some (ret, s1, k1)
     else do {
       (r, k2) \<leftarrow> get_ecc_key api nvs s1 k1 stack_buf decrypted_buf;
       Some (if r \<noteq> 0 then -4 else 0, s1, k2)
     }
   }"

section \<open>What the checksum detects\<close>

lemma crc_step_linear: "crc_step (x XOR y) = crc_step x XOR crc_step y"
  by (rule bit_word_eqI) (auto simp: crc_step_def bit_simps and_exp_eq_0_iff_not_bit [of _ 15, simplified])

lemma bit_push1: "bit (push_bit 1 x) n \<longleftrightarrow> 0 < n \<and> n < 16 \<and> bit (x :: u16) (n - 1)"
  by (subst bit_push_bit_iff) auto

lemma crc_step_top: "\<not> bit x 15 \<Longrightarrow> crc_step x = push_bit 1 x"
  using and_exp_eq_0_iff_not_bit [of x 15] by (simp add: crc_step_def)

lemma crc_step_bit0: "bit (crc_step x) 0 \<longleftrightarrow> bit x 15"
proof (cases "bit x 15")
  case True
  then have "crc_step x = push_bit 1 x XOR 0x8005"
    using and_exp_eq_0_iff_not_bit [of x 15] by (auto simp: crc_step_def)
  moreover have "bit (0x8005 :: u16) 0" by simp
  ultimately show ?thesis using True by (simp only: bit_simps) simp
next
  case False
  then show ?thesis unfolding crc_step_top [OF False] bit_push1 by simp
qed

text \<open>If the checksum's low bits are zero after as many steps, nothing was ever carried out.\<close>

lemma crc_steps_low:
  assumes "n \<le> 15" "\<And>i. i < n \<Longrightarrow> \<not> bit ((crc_step ^^ n) x) i"
  shows "(crc_step ^^ n) x = push_bit n x \<and> (\<forall>i<n. \<not> bit x (15 - i))"
  using assms
proof (induction n)
  case (Suc n)
  let ?y = "(crc_step ^^ n) x"
  have top: "\<not> bit ?y 15" using Suc.prems(2) [of 0] crc_step_bit0 [of ?y] by simp
  then have sh: "(crc_step ^^ Suc n) x = push_bit 1 ?y" by (simp add: crc_step_top)
  have "\<not> bit ?y i" if "i < n" for i
    using Suc.prems(2) [of "Suc i"] that Suc.prems(1) unfolding sh bit_push1 by simp
  then have IH: "?y = push_bit n x" "\<forall>i<n. \<not> bit x (15 - i)" using Suc.IH Suc.prems(1) by auto
  have "\<not> bit x (15 - n)" using top IH(1) Suc.prems(1) by (simp add: bit_push_bit_iff)
  then have "\<forall>i<Suc n. \<not> bit x (15 - i)" using IH(2) less_Suc_eq by auto
  then show ?case using sh IH(1) by (simp add: push_bit_push_bit)
qed simp

lemma crc_step_zero: "crc_step x = 0 \<longleftrightarrow> x = 0"
proof
  assume z: "crc_step x = 0"
  then have top: "\<not> bit x 15" using crc_step_bit0 [of x] by simp
  then have sh: "push_bit 1 x = 0" using z by (simp add: crc_step_top)
  have "\<not> bit x n" if "n < 16" for n
  proof (cases "n = 15")
    case False
    then have "bit (push_bit 1 x) (Suc n) = bit x n" using that unfolding bit_push1 by simp
    then show ?thesis using sh by simp
  qed (use top in simp)
  then show "x = 0" by (intro bit_word_eqI) auto
qed (simp add: crc_step_def)

lemma crc_steps_linear: "(crc_step ^^ n) (x XOR y) = (crc_step ^^ n) x XOR (crc_step ^^ n) y"
  by (induction n) (simp_all add: crc_step_linear)

lemma xor_eq_0_iff: "x XOR y = 0 \<longleftrightarrow> x = (y :: 'a::len word)"
  by (metis word_bw_lcs(3) xor.right_neutral xor_self_eq)

lemma xor_swap: "p XOR q = r XOR s \<Longrightarrow> p XOR r = q XOR (s :: 'a::len word)"
  by (metis xor.assoc xor.commute xor_self_eq xor.right_neutral)

lemma xor_cancel_left: "(x XOR p) XOR (x XOR q) = p XOR (q :: 'a::len word)"
  by (metis xor.assoc xor.commute xor_self_eq xor.right_neutral)

lemma xor_cancel_right: "x XOR a = y XOR a \<longleftrightarrow> x = (y :: 'a::len word)"
  by (metis xor.assoc xor.right_neutral xor_self_eq)

lemma crc_steps_0: "(crc_step ^^ n) 0 = 0"
  by (induction n) (simp_all add: crc_step_zero)

lemma crc_steps_inj: "(crc_step ^^ n) x = (crc_step ^^ n) y \<longleftrightarrow> x = y"
proof -
  have "(crc_step ^^ n) z = 0 \<longleftrightarrow> z = 0" for z by (induction n) (simp_all add: crc_step_zero)
  then show ?thesis using crc_steps_linear [of n x y] by (metis xor_eq_0_iff)
qed

lemma crc_fold_inj: "fold crc_byte d x = fold crc_byte d y \<longleftrightarrow> x = y"
  by (induction d arbitrary: x y) (simp_all add: crc_byte_def crc_steps_inj xor_cancel_right)

text \<open>One byte, shifted through, reaches the low half of the checksum.\<close>

lemma crc_low_half:
  assumes "(crc_step ^^ 8) (push_bit 8 (ucast d)) = push_bit 8 (ucast (e :: u8))"
  shows "d = (0 :: u8)"
proof -
  let ?x = "push_bit 8 (ucast d) :: u16"
  have "\<not> bit ((crc_step ^^ 8) ?x) i" if "i < 8" for i using that unfolding assms by (simp add: bit_push_bit_iff)
  then have x: "\<forall>i<8. \<not> bit ?x (15 - i)" using crc_steps_low [of 8 ?x] by auto
  have "\<not> bit d n" if "n < 8" for n
    using x [rule_format, of "7 - n"] that by (simp add: bit_push_bit_iff bit_ucast_iff)
  then show ?thesis by (intro bit_word_eqI) auto
qed

lemma crc_two_bytes:
  assumes "crc_byte b (crc_byte a x) = crc_byte b' (crc_byte a' x)"
  shows "a = a' \<and> b = b'"
proof -
  let ?u = "\<lambda>c :: u8. push_bit 8 (ucast c) :: u16"
  have lin: "?u c XOR ?u c' = ?u (c XOR c')" for c c'
    by (rule bit_word_eqI) (auto simp: bit_simps)
  have "(crc_step ^^ 8) (x XOR ?u a) XOR ?u b = (crc_step ^^ 8) (x XOR ?u a') XOR ?u b'"
    using assms by (simp add: crc_byte_def crc_steps_inj)
  then have "(crc_step ^^ 8) (x XOR ?u a) XOR (crc_step ^^ 8) (x XOR ?u a') = ?u b XOR ?u b'"
    by (rule xor_swap)
  moreover have "(x XOR ?u a) XOR (x XOR ?u a') = ?u (a XOR a')"
    unfolding lin [symmetric] by (rule xor_cancel_left)
  ultimately have "(crc_step ^^ 8) (?u (a XOR a')) = ?u (b XOR b')"
    unfolding crc_steps_linear [symmetric] by (simp add: lin)
  moreover from this have "a XOR a' = 0" by (rule crc_low_half)
  ultimately have u: "?u (b XOR b') = 0" by (simp add: crc_steps_0)
  have "b XOR b' = 0" by (rule crc_low_half [of _ 0]) (simp add: u crc_steps_0)
  then show ?thesis using \<open>a XOR a' = 0\<close> by (simp add: xor_eq_0_iff)
qed

text \<open>C30: The checksum of a stored key detects every change of up to two neighbouring bytes, wherever they are.\<close>

theorem crc16_detects_two_bytes:
  assumes "mid \<noteq> mid'" "length mid = length mid'" "length mid \<le> 2" "n = length (pre @ mid @ post)"
  shows "CRC16 (pre @ mid @ post) n \<noteq> CRC16 (pre @ mid' @ post) n"
proof -
  have "fold crc_byte mid x \<noteq> fold crc_byte mid' x" for x
  proof (cases mid)
    case Nil
    then show ?thesis using assms(1,2) by simp
  next
    case (Cons a r)
    then obtain a' r' where m': "mid' = a' # r'" using assms(2) by (cases mid') auto
    show ?thesis
    proof (cases r)
      case Nil
      then have "crc_byte a x \<noteq> crc_byte a' x" using crc_two_bytes [of 0 a x 0 a'] Cons m' assms(1,2) by auto
      then show ?thesis using Cons Nil m' assms(2) by simp
    next
      case C: (Cons b r2)
      then show ?thesis using Cons m' assms(1-3) crc_two_bytes [of b a x] by (cases r') auto
    qed
  qed
  then show ?thesis using assms(2,4) by (simp add: CRC16_def crc_fold_inj)
qed

lemma crc16_detects_two_bytes_witness:
  "CRC16 ([1, 2] @ [3, 4] @ [5]) 5 \<noteq> CRC16 ([1, 2] @ [7, 0] @ [5]) 5"
  by (rule crc16_detects_two_bytes) simp_all

section \<open>The text of a byte\<close>

definition swap_text :: "bytes \<Rightarrow> bytes" where
  "swap_text bs = pair_text (map (\<lambda>b. (lo_digit b, hi_digit b)) bs)"

lemma swap_text_simps [simp]: "swap_text [] = []" "swap_text (b # bs) = lo_digit b # hi_digit b # swap_text bs"
  by (simp_all add: swap_text_def)

lemma length_swap_text [simp]: "length (swap_text bs) = 2 * length bs"
  by (simp add: swap_text_def)

lemma swap_text_append: "swap_text (a @ b) = swap_text a @ swap_text b"
  by (induction a) auto

lemma hex2str_loop_run:
  assumes "length W = j" "i + n \<le> length hex" "2 * n \<le> length R"
  shows "hex2str_loop hex i n (W @ R) j = Some (W @ swap_text (take n (drop i hex)) @ drop (2 * n) R, j + 2 * n)"
  using assms
proof (induction n arbitrary: i j W R)
  case (Suc n)
  let ?b = "hex ! i"
  have t: "take (Suc n) (drop i hex) = ?b # take n (drop (Suc i) hex)"
    using Suc.prems by (simp add: Cons_nth_drop_Suc [symmetric])
  obtain x y R' where R: "R = x # y # R'" using Suc.prems by (cases R; cases "tl R") auto
  have w: "wr (W @ R) j (lo_digit ?b) = Some ((W @ [lo_digit ?b]) @ y # R')"
    "wr ((W @ [lo_digit ?b]) @ y # R') (j + 1) (hi_digit ?b) = Some ((W @ [lo_digit ?b, hi_digit ?b]) @ R')"
    using wr_append [of j W R "lo_digit ?b"] wr_append [of "j + 1" "W @ [lo_digit ?b]" "y # R'" "hi_digit ?b"] Suc.prems
    by (simp_all add: R)
  show ?case using Suc.IH [of "W @ [lo_digit ?b, hi_digit ?b]" "j + 2" "i + 1" R'] Suc.prems w t R
    by (simp add: add.commute del: wr_in)
qed simp

lemma hex2str_eq:
  assumes "n \<le> length hex" "2 * n < length str"
  shows "hex2str hex n str = Some (swap_text (take n hex) @ 0 # drop (Suc (2 * n)) str)"
proof -
  obtain c r where r: "drop (2 * n) str = c # r" using assms(2) by (cases "drop (2 * n) str") auto
  then have r': "r = drop (Suc (2 * n)) str" by (metis drop_Suc list.sel(3) tl_drop)
  have "wr (swap_text (take n hex) @ c # r) (2 * n) 0 = Some ((swap_text (take n hex) @ [0]) @ r)"
    using wr_append [of "2 * n" "swap_text (take n hex)" "c # r" 0] assms(1) by simp
  then show ?thesis using hex2str_loop_run [of "[]" 0 0 n hex str] assms r r' by (simp add: hex2str_def)
qed

text \<open>The digits as values: checked for the sixteen values of either half.\<close>

definition nib_swap :: "u8 \<Rightarrow> u8" where
  "nib_swap b = push_bit 4 (b AND 0x0F) OR drop_bit 4 b"

lemma high_nibble: "b AND 0xF0 = push_bit 4 (drop_bit 4 b)" for b :: u8
proof -
  have m: "(0xF0 :: u8) = NOT (mask 4)" by (simp add: mask_eq_decr_exp)
  show ?thesis unfolding m by (rule bit_word_eqI) (auto simp: bit_simps)
qed

lemma digit_values: "str2Hex (lo_digit b) = b AND 0x0F" "str2Hex (hi_digit b) = drop_bit 4 b"
  "lo_digit b \<noteq> 0" "hi_digit b \<noteq> 0"
proof -
  define lo :: "u8 \<Rightarrow> u8" where "lo n = (if n > 9 then n - 10 + ch CHR ''A'' else n + ch CHR ''0'')" for n
  define hi :: "u8 \<Rightarrow> u8" where "hi n = (if push_bit 4 n > 0x90 then drop_bit 4 (push_bit 4 n) - 10 + ch CHR ''A''
    else drop_bit 4 (push_bit 4 n) + ch CHR ''0'')" for n
  have "\<forall>n\<in>set [0..<16]. str2Hex (lo (of_nat n)) = of_nat n \<and> lo (of_nat n) \<noteq> 0 \<and>
      str2Hex (hi (of_nat n)) = of_nat n \<and> hi (of_nat n) \<noteq> 0"
    unfolding lo_def hi_def by code_simp
  then have q: "str2Hex (lo n) = n \<and> lo n \<noteq> 0 \<and> str2Hex (hi n) = n \<and> hi n \<noteq> 0" if "unat n < 16" for n
    using that by (auto dest: bspec [of _ _ "unat n"])
  have "hi_digit b = hi (drop_bit 4 b)" unfolding hi_digit_def hi_def high_nibble ..
  then show "str2Hex (hi_digit b) = drop_bit 4 b" "hi_digit b \<noteq> 0"
    using q [of "drop_bit 4 b"] nibble_bounds [of b] by auto
  have "lo_digit b = lo (b AND 0x0F)" unfolding lo_digit_def lo_def ..
  then show "str2Hex (lo_digit b) = b AND 0x0F" "lo_digit b \<noteq> 0"
    using q [of "b AND 0x0F"] nibble_bounds [of b] by auto
qed

lemma swap_text_nz: "0 \<notin> set (swap_text bs)"
  by (induction bs) (auto simp: digit_values)

text \<open>The two sides of the device disagree on hexadecimal: what the tracker writes for bytes reads, in the secure
  image, as those bytes with their halves exchanged.\<close>

theorem hex2str_swaps_nibbles:
  assumes "length str = 2 * length bs + 1" "length bs \<le> length bin"
  shows "\<exists>t. hex2str bs (length bs) str = Some t \<and>
    hexStr2Bin t bin = Some (length bs, map nib_swap bs @ drop (length bs) bin)"
proof (intro exI conjI)
  show "hex2str bs (length bs) str = Some (swap_text bs @ 0 # [])"
    using hex2str_eq [of "length bs" bs str] assms by simp
  have v: "pair_value (lo_digit b, hi_digit b) = nib_swap b" for b
    by (simp add: pair_value_def nib_swap_def digit_values)
  show "hexStr2Bin (swap_text bs @ 0 # []) bin = Some (length bs, map nib_swap bs @ drop (length bs) bin)"
    using hexStr2Bin_pairs [of "map (\<lambda>b. (lo_digit b, hi_digit b)) bs" bin "[]"] assms swap_text_nz [of bs]
    by (simp add: swap_text_def comp_def v)
qed

lemma hex2str_swaps_nibbles_witness:
  "\<exists>t. hex2str [0x1F, 0xA0] (length [0x1F, 0xA0 :: u8]) (replicate 5 9) = Some t \<and>
    hexStr2Bin t [7, 7, 7] = Some (length [0x1F, 0xA0 :: u8], map nib_swap [0x1F, 0xA0] @ drop (length [0x1F, 0xA0 :: u8]) [7, 7, 7])"
  by (rule hex2str_swaps_nibbles) simp_all

section \<open>The key over restarts\<close>

context nvs_spec
begin

lemma load_stored:
  assumes "newest_of hist s SID_ECC_KEY (d # xs)" "n \<le> length d" "length d < 2 ^ 16"
  shows "load_key nvs s buf n = into buf (take n d)"
  using load_newest [OF assms] by (simp add: load_key_def)

lemma get_ecc_key_stored:
  assumes "newest_of hist s SID_ECC_KEY (d # xs)" "length d = KEY_BUF_SIZE" "d = enc_blocks enc priv 4 @ z"
    "aes_ok enc (api_decrypt api k AES_KMU_SLOT)" "64 \<le> length priv"
    "length buf = KEY_BUF_SIZE" "length dbuf = ENC_BUF_SIZE"
  shows "get_ecc_key api nvs s k buf dbuf = Some (0, api_SetEccPrivKey api k (take 64 priv @ 0 # drop 65 dbuf))"
proof -
  have l: "load_key nvs s buf KEY_BUF_SIZE = d"
    using load_newest [OF assms(1), of KEY_BUF_SIZE buf] assms(2,6)
    by (simp add: load_key_def into_def KEY_BUF_SIZE_def)
  have c: "crypt_blocks (api_decrypt api k AES_KMU_SLOT) d 4 0 dbuf = Some (0, take 64 priv @ drop 64 dbuf)"
    using crypt_blocks_decrypt [OF assms(4), of 4 priv dbuf z] assms(3,5,7) by (simp add: ENC_BUF_SIZE_def)
  obtain x r where r: "drop 64 dbuf = x # r" using assms(7) by (cases "drop 64 dbuf") (auto simp: ENC_BUF_SIZE_def)
  then have "r = drop 65 dbuf" using drop_Suc [of 64 dbuf] tl_drop [of 64 dbuf] by (metis Suc_numeral list.sel(3) semiring_norm(5) drop_drop)
  then have "wr (take 64 priv @ drop 64 dbuf) 64 0 = Some (take 64 priv @ 0 # drop 65 dbuf)"
    using wr_append [of 64 "take 64 priv" "drop 64 dbuf" 0] assms(5) r by simp
  then show ?thesis by (simp add: get_ecc_key_def l c)
qed

text \<open>What a start without a usable key stores.\<close>

lemma new_ecc_key_stores:
  assumes "api_gen_ecc_key api k = (0, priv, pub, k1)" "length priv \<le> 80" "64 \<le> length priv" "length pub \<le> 80"
    "api_genAESKey api k1 = (key, k2)" "api_store_key api k2 AES_KMU_SLOT key = (0, k3)"
    "aes_ok (api_encrypt api k3 AES_KMU_SLOT) (api_decrypt api k3 AES_KMU_SLOT)"
    "length buf = KEY_BUF_SIZE" "length ebuf = ENC_BUF_SIZE"
    "\<forall>d. length d = KEY_BUF_SIZE \<longrightarrow> fst (iotex_local_storage_save nvs s SID_ECC_KEY d) = 0"
  shows "\<exists>s1 d z src c. new_ecc_key api nvs s k buf ebuf = Some (0, s1, k3) \<and> newest_of hist s1 SID_ECC_KEY [d] \<and>
    length d = KEY_BUF_SIZE \<and> take 64 src = take 64 priv \<and> 64 \<le> length src \<and>
    d = enc_blocks (api_encrypt api k3 AES_KMU_SLOT) src 4 @ mem_store False 2 c @ z \<and> CRC16 d 64 = Some c"
proof -
  let ?enc = "api_encrypt api k3 AES_KMU_SLOT"
  note sz = KEY_BUF_SIZE_def ENC_BUF_SIZE_def PUBKEY_BUF_ADDRESS_def
  define buf2 where "buf2 = priv @ take (80 - length priv) (drop (length priv) buf) @ pub @ drop (80 + length pub) buf"
  have b: "wr_bytes buf 0 priv = Some (priv @ drop (length priv) buf)"
    "wr_bytes (priv @ drop (length priv) buf) PUBKEY_BUF_ADDRESS pub = Some buf2"
    using assms(2,4,8) by (simp_all add: sz buf2_def wr_bytes_def)
  have src: "length buf2 = 160" "take 64 buf2 = take 64 priv" "64 \<le> length buf2"
    using assms(2-4,8) by (simp_all add: buf2_def sz)
  define e where "e = enc_blocks ?enc buf2 4"
  have le: "length e = 64" using length_enc_blocks [OF assms(7), of 4 buf2] src by (simp add: e_def)
  have enc: "crypt_blocks ?enc buf2 4 0 ebuf = Some (0, e @ drop 64 ebuf)"
    using crypt_blocks_encrypt [OF assms(7), of 4 buf2 ebuf] src assms(9) by (simp add: sz e_def)
  define c where "c = fold crc_byte e 0"
  have crc: "CRC16 (e @ r) 64 = Some c" for r using le by (simp add: CRC16_def c_def)
  define d where "d = e @ mem_store False 2 c @ drop 66 buf2"
  have w: "wr_bytes (e @ drop 64 ebuf) 64 (mem_store False 2 c) = Some (e @ mem_store False 2 c)"
    using le assms(9) by (simp add: wr_bytes_def sz)
  have w2: "wr_bytes buf2 0 (e @ mem_store False 2 c) = Some d" using le src by (simp add: wr_bytes_def d_def)
  have ld: "length d = KEY_BUF_SIZE" using le src by (simp add: d_def sz)
  obtain s1 where s1: "iotex_local_storage_save nvs s SID_ECC_KEY d = (0, s1)" using assms(10) ld by (metis prod.collapse)
  have "newest_of hist s1 SID_ECC_KEY [d]" using save_ok [OF s1 newest_Nil] ld cap_pos
    by (cases d) (auto simp: sz)
  moreover have "new_ecc_key api nvs s k buf ebuf = Some (0, s1, k3)"
    using assms(1,5,6) b enc crc w w2 s1 by (simp add: new_ecc_key_def)
  ultimately show ?thesis using ld src crc unfolding d_def e_def by blast
qed

end


text \<open>A secure side for examples: the slot holds the AES key, with which every byte is combined.\<close>

definition xor_api :: "(bytes \<times> bytes) secure_api" where
  "xor_api = \<lparr>api_gen_ecc_key = (\<lambda>k. (0, replicate 64 0x61, replicate 65 4, k)), api_genAESKey = (\<lambda>k. (replicate 16 9, k)),
    api_store_key = (\<lambda>k i key. (0, (key, snd k))), api_encrypt = (\<lambda>k i b. (0, map ((XOR) (hd (fst k @ [1]))) b)),
    api_decrypt = (\<lambda>k i b. (0, map ((XOR) (hd (fst k @ [1]))) b)), api_SetEccPrivKey = (\<lambda>k key. (fst k, key))\<rparr>"


end
