(* ===== verification/MqttConfig.thy ===== *)
theory MqttConfig
  imports LocalStorage JsonParse Endian
begin

text \<open>
  \<^verbatim>\<open>mqtt/config.c\<close>: the configuration of the data channel and of the bulk upload, with its
  counters, how it is changed by messages of the server, and how it is kept in the local storage.
  The JSON library and the work queue are not part of the sources: a parsed document is its lookup
  function, and what the parser triggers outside of the configuration is a list of effects.
\<close>

section \<open>The configuration in memory\<close>

record iotex_mqtt_config =
  bulk_upload :: u32
  data_channel :: u16
  upload_period :: u16
  bulk_upload_sampling_cnt :: u16
  bulk_upload_sampling_freq :: u16
  current_upload_cnt :: u16
  current_sampling_cnt :: u16
  size_of_block :: u32

text \<open>The object as the bytes the storage keeps: the target is little-endian and there is no padding.\<close>

definition SIZEOF_CONFIG :: nat where "SIZEOF_CONFIG = 20"

definition cfg_bytes :: "iotex_mqtt_config \<Rightarrow> bytes" where
  "cfg_bytes c = mem_store False 4 (bulk_upload c) @ mem_store False 2 (data_channel c) @
     mem_store False 2 (upload_period c) @ mem_store False 2 (bulk_upload_sampling_cnt c) @
     mem_store False 2 (bulk_upload_sampling_freq c) @ mem_store False 2 (current_upload_cnt c) @
     mem_store False 2 (current_sampling_cnt c) @ mem_store False 4 (size_of_block c)"

definition slice :: "nat \<Rightarrow> nat \<Rightarrow> 'a list \<Rightarrow> 'a list" where
  "slice off n b = take n (drop off b)"

definition cfg_of :: "bytes \<Rightarrow> iotex_mqtt_config" where
  "cfg_of b = \<lparr>bulk_upload = mem_load False (slice 0 4 b), data_channel = mem_load False (slice 4 2 b),
     upload_period = mem_load False (slice 6 2 b), bulk_upload_sampling_cnt = mem_load False (slice 8 2 b),
     bulk_upload_sampling_freq = mem_load False (slice 10 2 b), current_upload_cnt = mem_load False (slice 12 2 b),
     current_sampling_cnt = mem_load False (slice 14 2 b), size_of_block = mem_load False (slice 16 4 b)\<rparr>"

definition initial_config :: "u16 \<Rightarrow> u16 \<Rightarrow> iotex_mqtt_config" where
  "initial_config channel period = \<lparr>bulk_upload = 0, data_channel = channel, upload_period = period,
     bulk_upload_sampling_cnt = 0, bulk_upload_sampling_freq = 0, current_upload_cnt = 0,
     current_sampling_cnt = 0, size_of_block = 0\<rparr>"

section \<open>Queries\<close>

definition iotex_mqtt_is_bulk_upload :: "iotex_mqtt_config \<Rightarrow> bool" where
  "iotex_mqtt_is_bulk_upload c \<longleftrightarrow> bulk_upload c \<noteq> 0"

definition iotex_mqtt_get_upload_period :: "iotex_mqtt_config \<Rightarrow> u16" where
  "iotex_mqtt_get_upload_period c =
    (if bulk_upload c \<noteq> 0 then 0 else if upload_period c = 0 then 30 else upload_period c)"

definition iotex_mqtt_is_need_sampling :: "iotex_mqtt_config \<Rightarrow> bool" where
  "iotex_mqtt_is_need_sampling c \<longleftrightarrow> current_sampling_cnt c < bulk_upload_sampling_cnt c"

definition iotex_mqtt_is_bulk_upload_over :: "iotex_mqtt_config \<Rightarrow> bool" where
  "iotex_mqtt_is_bulk_upload_over c \<longleftrightarrow> current_upload_cnt c \<ge> bulk_upload_sampling_cnt c"

definition set_block_size :: "u32 \<Rightarrow> iotex_mqtt_config \<Rightarrow> iotex_mqtt_config" where
  "set_block_size n c = c\<lparr>size_of_block := n\<rparr>"

definition get_his_block :: "iotex_mqtt_config \<Rightarrow> u16" where
  "get_his_block c = (if current_upload_cnt c < bulk_upload_sampling_cnt c
     then bulk_upload_sampling_cnt c - current_upload_cnt c - 1 else 0)"

section \<open>Saving, loading and counting\<close>

definition save_mqtt_config :: "'s nvs_ops \<Rightarrow> iotex_mqtt_config \<Rightarrow> 's \<Rightarrow> bool \<times> 's" where
  "save_mqtt_config nvs c s =
    (let (r, s1) = iotex_local_storage_del nvs s SID_MQTT_DATA_CHANNEL_CONFIG in
     if r \<noteq> 0 then (False, s1)
     else (let (q, s2) = iotex_local_storage_save nvs s1 SID_MQTT_DATA_CHANNEL_CONFIG (cfg_bytes c) in (q = 0, s2)))"

definition iotex_mqtt_load_config :: "'s nvs_ops \<Rightarrow> iotex_mqtt_config \<Rightarrow> 's \<Rightarrow> iotex_mqtt_config" where
  "iotex_mqtt_load_config nvs c s =
    cfg_of (snd (iotex_local_storage_load nvs s SID_MQTT_DATA_CHANNEL_CONFIG (cfg_bytes c) SIZEOF_CONFIG))"

definition iotex_mqtt_inc_current_upload_count ::
  "'s nvs_ops \<Rightarrow> iotex_mqtt_config \<Rightarrow> 's \<Rightarrow> bool \<times> iotex_mqtt_config \<times> 's" where
  "iotex_mqtt_inc_current_upload_count nvs c s =
    (let c1 = c\<lparr>current_upload_cnt := current_upload_cnt c + 1\<rparr> in
     if current_upload_cnt c1 \<ge> bulk_upload_sampling_cnt c1 then
       (let c2 = c1\<lparr>current_upload_cnt := 0, current_sampling_cnt := 0\<rparr> in (True, c2, snd (save_mqtt_config nvs c2 s)))
     else (False, c1, snd (save_mqtt_config nvs c1 s)))"

definition iotex_mqtt_inc_current_sampling_count ::
  "'s nvs_ops \<Rightarrow> iotex_mqtt_config \<Rightarrow> 's \<Rightarrow> bool \<times> iotex_mqtt_config \<times> 's" where
  "iotex_mqtt_inc_current_sampling_count nvs c s =
    (let c1 = c\<lparr>current_sampling_cnt := current_sampling_cnt c + 1\<rparr> in
     if current_sampling_cnt c1 \<ge> bulk_upload_sampling_cnt c1 then
       (let c2 = c1\<lparr>current_upload_cnt := 0\<rparr> in (True, c2, snd (save_mqtt_config nvs c2 s)))
     else (False, c1, snd (save_mqtt_config nvs c1 s)))"

section \<open>Messages that change the configuration\<close>

text \<open>An item of a document is a string or something else; a document finds its items by name.\<close>

datatype cjson = CJString bytes | CJOther

type_synonym cjson_doc = "string \<Rightarrow> cjson option"

datatype cfg_effect = RestartEnvWork u32 | OnBeepMePressed u32

definition CONFIG_MQTT_PAYLOAD_BUFFER_SIZE :: nat where "CONFIG_MQTT_PAYLOAD_BUFFER_SIZE = 256"

text \<open>\<^verbatim>\<open>with_string\<close>: what an item does when it is there and is a string; its number is \<^verbatim>\<open>atoi\<close>'s.\<close>

definition with_string :: "cjson option \<Rightarrow> (u32 \<Rightarrow> 'a \<Rightarrow> 'a) \<Rightarrow> 'a \<Rightarrow> 'a option" where
  "with_string item f x = (case item of
     Some (CJString s) \<Rightarrow> map_option (\<lambda>n. f n x) (c_atoi s)
   | _ \<Rightarrow> Some x)"

type_synonym parse_state = "int \<times> iotex_mqtt_config \<times> cfg_effect list"

definition set_bulk_upload :: "u32 \<Rightarrow> parse_state \<Rightarrow> parse_state" where
  "set_bulk_upload n = (\<lambda>(ret, c, es).
    (let dat = bulk_upload c;
         c1 = c\<lparr>bulk_upload := n, bulk_upload_sampling_freq := 10, bulk_upload_sampling_cnt := 10\<rparr> in
     (if dat \<noteq> bulk_upload c1 then 2 else ret, c1, es)))"

definition set_data_channel :: "u32 \<Rightarrow> parse_state \<Rightarrow> parse_state" where
  "set_data_channel n = (\<lambda>(ret, c, es). (ret, c\<lparr>data_channel := ucast n\<rparr>, es))"

definition set_upload_period :: "u32 \<Rightarrow> parse_state \<Rightarrow> parse_state" where
  "set_upload_period n = (\<lambda>(ret, c, es).
    (let c1 = c\<lparr>upload_period := ucast n\<rparr> in
     (ret, c1, if bulk_upload c1 = 0 then es @ [RestartEnvWork (ucast (upload_period c1))] else es)))"

definition set_sampling_cnt :: "u32 \<Rightarrow> parse_state \<Rightarrow> parse_state" where
  "set_sampling_cnt n = (\<lambda>(ret, c, es).
    (let dat = bulk_upload_sampling_cnt c; c1 = c\<lparr>bulk_upload_sampling_cnt := ucast n\<rparr> in
     (if bulk_upload c1 \<noteq> 0 \<and> dat \<noteq> bulk_upload_sampling_cnt c1 then 2 else ret, c1, es)))"

definition set_sampling_freq :: "u32 \<Rightarrow> parse_state \<Rightarrow> parse_state" where
  "set_sampling_freq n = (\<lambda>(ret, c, es).
    (let c1 = c\<lparr>bulk_upload_sampling_freq := ucast n\<rparr> in
     (ret, c1, if bulk_upload c1 \<noteq> 0 then es @ [RestartEnvWork (ucast (bulk_upload_sampling_freq c1))] else es)))"

definition server_beep :: "u32 \<Rightarrow> parse_state \<Rightarrow> parse_state" where
  "server_beep n = (\<lambda>(ret, c, es). (ret, c, es @ [OnBeepMePressed n]))"

definition iotex_mqtt_parse_config ::
  "(bytes \<Rightarrow> cjson_doc option) \<Rightarrow> bytes \<Rightarrow> nat \<Rightarrow> iotex_mqtt_config \<Rightarrow> parse_state option" where
  "iotex_mqtt_parse_config cJSON_Parse payload len c =
    (if len \<ge> CONFIG_MQTT_PAYLOAD_BUFFER_SIZE then Some (0, c, [])
     else do {
       text \<leftarrow> rd_bytes payload 0 len;
       (case cJSON_Parse (text @ [0]) of
          None \<Rightarrow> Some (0, c, [])
        | Some item \<Rightarrow> do {
            s1 \<leftarrow> with_string (item ''bulk_upload'') set_bulk_upload (1, c, []);
            s2 \<leftarrow> with_string (item ''data_channel'') set_data_channel s1;
            s3 \<leftarrow> with_string (item ''upload_period'') set_upload_period s2;
            s4 \<leftarrow> with_string (item ''bulk_upload_sampling_cnt'') set_sampling_cnt s3;
            s5 \<leftarrow> with_string (item ''bulk_upload_sampling_freq'') set_sampling_freq s4;
            with_string (item ''beep'') server_beep s5
          })
     })"

definition iotex_mqtt_update_config ::
  "(bytes \<Rightarrow> cjson_doc option) \<Rightarrow> 's nvs_ops \<Rightarrow> bytes \<Rightarrow> nat \<Rightarrow> iotex_mqtt_config \<Rightarrow> 's \<Rightarrow>
   (iotex_mqtt_config \<times> 's \<times> cfg_effect list) option" where
  "iotex_mqtt_update_config cJSON_Parse nvs payload len c s = do {
     (ret, c1, es) \<leftarrow> iotex_mqtt_parse_config cJSON_Parse payload len c;
     if ret = 0 then Some (c1, s, es)
     else if ret = 2 then
       (let c2 = c1\<lparr>current_sampling_cnt := 0, current_upload_cnt := 0\<rparr>;
            s1 = snd (iotex_local_storage_del nvs s SID_MQTT_BULK_UPLOAD_DATA) in
        Some (c2, snd (save_mqtt_config nvs c2 s1), es))
     else Some (c1, snd (save_mqtt_config nvs c1 s), es)
   }"

section \<open>The stored configuration\<close>

lemma length_cfg_bytes [simp]: "length (cfg_bytes c) = SIZEOF_CONFIG"
  by (simp add: cfg_bytes_def SIZEOF_CONFIG_def)

lemma cfg_bytes_ne [simp]: "cfg_bytes c \<noteq> []"
  using length_cfg_bytes [of c] by (auto simp: SIZEOF_CONFIG_def simp del: length_cfg_bytes)

text \<open>Reading the fields of a concatenation of fields.\<close>

lemma slice_here: "length a = n \<Longrightarrow> slice 0 n (a @ r) = a"
  by (simp add: slice_def)

lemma slice_skip: "length a \<le> off \<Longrightarrow> slice off n (a @ r) = slice (off - length a) n r"
  by (simp add: slice_def)

lemma slice_all: "length a = n \<Longrightarrow> slice 0 n a = a"
  by (simp add: slice_def)

lemmas slice_simps = slice_here slice_skip slice_all

lemma cfg_of_bytes [simp]: "cfg_of (cfg_bytes c) = c"
  by (simp add: cfg_of_def cfg_bytes_def slice_simps mem_load_store)

lemma into_full: "length d = length buf \<Longrightarrow> into buf d = d"
  by (simp add: into_def)

context nvs_spec
begin

lemma save_mqtt_config_stores:
  assumes "save_mqtt_config nvs c s = (True, s')"
  shows "newest_of hist s' SID_MQTT_DATA_CHANNEL_CONFIG [cfg_bytes c]"
proof -
  obtain s1 where "iotex_local_storage_save nvs s1 SID_MQTT_DATA_CHANNEL_CONFIG (cfg_bytes c) = (0, s')"
    using assms by (auto simp: save_mqtt_config_def split: prod.splits if_splits)
  then show ?thesis using save_ok [OF _ newest_Nil] cap_pos by (simp add: SIZEOF_CONFIG_def)
qed

lemma save_mqtt_config_other:
  assumes "save_mqtt_config nvs c s = (ok, s')" "newest_of hist s i xs" "i \<noteq> SID_MQTT_DATA_CHANNEL_CONFIG" "length xs \<le> cap"
  shows "newest_of hist s' i xs"
proof -
  obtain r s1 where d: "iotex_local_storage_del nvs s SID_MQTT_DATA_CHANNEL_CONFIG = (r, s1)" by fastforce
  then have n: "newest_of hist s1 i xs" using assms by (intro del_other [OF d]) auto
  show ?thesis
  proof (cases "r = 0")
    case True
    then obtain q where w: "iotex_local_storage_save nvs s1 SID_MQTT_DATA_CHANNEL_CONFIG (cfg_bytes c) = (q, s')"
      using assms(1) d by (auto simp: save_mqtt_config_def split: prod.splits)
    show ?thesis using assms(3,4) n by (intro save_other [OF w]) (auto simp: SIZEOF_CONFIG_def)
  next
    case False
    then show ?thesis using assms(1) d n by (simp add: save_mqtt_config_def)
  qed
qed

lemma load_stored_config:
  assumes "newest_of hist s SID_MQTT_DATA_CHANNEL_CONFIG (cfg_bytes c # xs)"
  shows "iotex_mqtt_load_config nvs c0 s = c"
  using load_newest [OF assms, of SIZEOF_CONFIG "cfg_bytes c0"]
  by (simp add: iotex_mqtt_load_config_def into_full SIZEOF_CONFIG_def)

lemma saved_config_is_loaded:
  assumes "save_mqtt_config nvs c s = (True, s')"
  shows "iotex_mqtt_load_config nvs c0 s' = c"
  by (rule load_stored_config [OF save_mqtt_config_stores [OF assms]])

end

text \<open>C11: After every change of the configuration that could be saved -- a counter of samples or of uploads, or a
  message of the server -- a restart finds exactly the configuration the device had, whatever it was
  compiled with.\<close>

theorem mqtt_config_survives_restart:
  assumes "nvs_spec nvs hist cap" "\<And>c s. fst (save_mqtt_config nvs c s)"
    "iotex_mqtt_parse_config parse payload len c = Some (ret, c', es)" "ret \<noteq> 0"
  shows "(let (b, c1, s1) = iotex_mqtt_inc_current_sampling_count nvs c s in iotex_mqtt_load_config nvs c0 s1 = c1) \<and>
    (let (b, c1, s1) = iotex_mqtt_inc_current_upload_count nvs c s in iotex_mqtt_load_config nvs c0 s1 = c1) \<and>
    (\<exists>c1 s1. iotex_mqtt_update_config parse nvs payload len c s = Some (c1, s1, es) \<and>
       iotex_mqtt_load_config nvs c0 s1 = c1)"
proof -
  have L: "iotex_mqtt_load_config nvs c0 (snd (save_mqtt_config nvs c s)) = c" for c s
    using nvs_spec.saved_config_is_loaded [OF assms(1), of c s] assms(2) [of c s] by (metis prod.collapse)
  have "iotex_mqtt_load_config nvs c0 (snd (snd (iotex_mqtt_inc_current_sampling_count nvs c s))) =
      fst (snd (iotex_mqtt_inc_current_sampling_count nvs c s))"
    unfolding iotex_mqtt_inc_current_sampling_count_def Let_def by (simp only: L fst_conv snd_conv split: if_split) simp
  moreover have "iotex_mqtt_load_config nvs c0 (snd (snd (iotex_mqtt_inc_current_upload_count nvs c s))) =
      fst (snd (iotex_mqtt_inc_current_upload_count nvs c s))"
    unfolding iotex_mqtt_inc_current_upload_count_def Let_def by (simp only: L fst_conv snd_conv split: if_split) simp
  moreover have "\<exists>c1 s1. iotex_mqtt_update_config parse nvs payload len c s = Some (c1, s1, es) \<and>
      iotex_mqtt_load_config nvs c0 s1 = c1"
    unfolding iotex_mqtt_update_config_def Let_def assms(3) using assms(4) L by (cases "ret = 2") auto
  ultimately show ?thesis by (simp add: split_beta Let_def)
qed

definition doc_channel :: cjson_doc where
  "doc_channel = [''data_channel'' \<mapsto> CJString (asc ''38'' @ [0])]"

lemma parse_doc_channel:
  "iotex_mqtt_parse_config (\<lambda>_. Some doc_channel) [] 0 (initial_config 1 5) =
    Some (1, (initial_config 1 5)\<lparr>data_channel := 38\<rparr>, [])"
  by code_simp

lemma ref_nvs_saves: "fst (save_mqtt_config ref_nvs c s)"
  by (simp add: save_mqtt_config_def iotex_local_storage_del_def iotex_local_storage_save_def ref_nvs_def)

lemma mqtt_config_survives_restart_witness:
  "(let (b, c1, s1) = iotex_mqtt_inc_current_sampling_count ref_nvs (initial_config 1 5) (\<lambda>i. []) in
      iotex_mqtt_load_config ref_nvs (initial_config 7 7) s1 = c1) \<and>
   (let (b, c1, s1) = iotex_mqtt_inc_current_upload_count ref_nvs (initial_config 1 5) (\<lambda>i. []) in
      iotex_mqtt_load_config ref_nvs (initial_config 7 7) s1 = c1) \<and>
   (\<exists>c1 s1. iotex_mqtt_update_config (\<lambda>_. Some doc_channel) ref_nvs [] 0 (initial_config 1 5) (\<lambda>i. []) =
        Some (c1, s1, []) \<and> iotex_mqtt_load_config ref_nvs (initial_config 7 7) s1 = c1)"
  by (rule mqtt_config_survives_restart [OF flash.nvs_spec_axioms ref_nvs_saves parse_doc_channel]) simp

section \<open>What messages change\<close>

text \<open>A configuration whose values are JSON numbers, as the header of the component documents it, is accepted and
  ignored: the parser succeeds and changes nothing.\<close>

theorem mqtt_config_ignores_numbers:
  assumes "len < CONFIG_MQTT_PAYLOAD_BUFFER_SIZE" "len \<le> length payload"
    "parse (take len payload @ [0]) = Some item" "\<And>k s. item k \<noteq> Some (CJString s)"
  shows "iotex_mqtt_parse_config parse payload len c = Some (1, c, [])"
proof -
  have "with_string (item k) f x = Some x" for k f and x :: parse_state
    using assms(4) [of k] by (auto simp: with_string_def split: option.splits cjson.splits)
  then show ?thesis using assms(1-3) by (simp add: iotex_mqtt_parse_config_def)
qed

lemma mqtt_config_ignores_numbers_witness:
  "iotex_mqtt_parse_config (\<lambda>_. Some [''bulk_upload'' \<mapsto> CJOther, ''data_channel'' \<mapsto> CJOther])
     (asc ''{\"bulk_upload\": 1, \"data_channel\": 38}'') 38 (initial_config 1 5) = Some (1, initial_config 1 5, [])"
  by (rule mqtt_config_ignores_numbers [where item = "[''bulk_upload'' \<mapsto> CJOther, ''data_channel'' \<mapsto> CJOther]"])
    (simp_all add: CONFIG_MQTT_PAYLOAD_BUFFER_SIZE_def)

text \<open>A message that only confirms that bulk upload is on sets the batch size back to 10 without a new batch: the
  counters stay, so a device that had taken 30 of 60 samples is at the end of its batch, and only the
  newest 10 samples will ever be read.\<close>

theorem mqtt_confirm_bulk_upload_shrinks_batch:
  assumes "bulk_upload c = 1" "bulk_upload_sampling_cnt c = 60" "current_sampling_cnt c = 30" "current_upload_cnt c = 0"
  shows "\<exists>c1 s1. iotex_mqtt_update_config (\<lambda>_. Some [''bulk_upload'' \<mapsto> CJString (asc ''1'' @ [0])]) nvs [] 0 c s =
      Some (c1, s1, []) \<and> current_sampling_cnt c1 = 30 \<and> \<not> iotex_mqtt_is_need_sampling c1 \<and>
      \<not> iotex_mqtt_is_bulk_upload_over c1 \<and> get_his_block c1 = 9"
proof -
  let ?parse = "\<lambda>_. Some [''bulk_upload'' \<mapsto> CJString (asc ''1'' @ [0])] :: cjson_doc option"
  let ?c1 = "c\<lparr>bulk_upload := 1, bulk_upload_sampling_freq := 10, bulk_upload_sampling_cnt := 10\<rparr>"
  have a: "c_atoi (asc ''1'' @ [0]) = Some 1" by code_simp
  have "iotex_mqtt_parse_config ?parse [] 0 c = Some (1, ?c1, [])"
    unfolding iotex_mqtt_parse_config_def using assms a
    by (simp add: with_string_def set_bulk_upload_def CONFIG_MQTT_PAYLOAD_BUFFER_SIZE_def del: asc_Cons)
  then show ?thesis using assms
    by (intro exI [of _ ?c1]) (simp add: iotex_mqtt_update_config_def iotex_mqtt_is_need_sampling_def
        iotex_mqtt_is_bulk_upload_over_def get_his_block_def Let_def)
qed

lemma mqtt_confirm_bulk_upload_shrinks_batch_witness:
  "\<exists>c1 s1. iotex_mqtt_update_config (\<lambda>_. Some [''bulk_upload'' \<mapsto> CJString (asc ''1'' @ [0])]) ref_nvs [] 0
        ((initial_config 1 5)\<lparr>bulk_upload := 1, bulk_upload_sampling_cnt := 60, current_sampling_cnt := 30\<rparr>) (\<lambda>i. []) =
      Some (c1, s1, []) \<and> current_sampling_cnt c1 = 30 \<and> \<not> iotex_mqtt_is_need_sampling c1 \<and>
      \<not> iotex_mqtt_is_bulk_upload_over c1 \<and> get_his_block c1 = 9"
  by (rule mqtt_confirm_bulk_upload_shrinks_batch) (simp_all add: initial_config_def)

end
