(* ===== verification/Payload.thy ===== *)
theory Payload
  imports Errno MqttConfig Ecdsa
begin

text \<open>
  \<^verbatim>\<open>mqtt/payload.c\<close>: sampling the sensors into a block for the local storage, reporting the sensors
  as signed JSON, and turning a stored block into signed JSON.  The readings of the sensors and of
  the modem at the time of a call are arguments; floating-point values are their bit patterns, and
  the arithmetic on them is a parameter.  A JSON document is a tree whose numbers keep the C value
  they were made from; printing it is the library's.
\<close>

section \<open>Readings\<close>

record iotex_storage_bme680 =
  pressure :: u32
  humidity :: u32
  temperature :: u32
  gas_resistance :: u32

record iotex_storage_icm42605 =
  icm_temperature :: u32
  gyroscope :: "u16 list"
  accelerometer :: "u16 list"

text \<open>The results of the calls: an error code where the call has one.\<close>

record readings =
  r_bme680 :: "int \<times> iotex_storage_bme680"
  r_icm42605 :: "int \<times> iotex_storage_icm42605"
  r_snr :: int
  r_vbat :: u32
  r_vbat_x1000 :: u16
  r_gps :: "int \<times> u64 \<times> u64"
  r_light :: u32
  r_clock :: bytes
  r_clock_raw :: u64

definition DATA_CHANNEL_GPS :: u16 where "DATA_CHANNEL_GPS = 0x1"
definition DATA_CHANNEL_SNR :: u16 where "DATA_CHANNEL_SNR = 0x2"
definition DATA_CHANNEL_VBAT :: u16 where "DATA_CHANNEL_VBAT = 0x4"
definition DATA_CHANNEL_GAS :: u16 where "DATA_CHANNEL_GAS = 0x10"
definition DATA_CHANNEL_TEMP :: u16 where "DATA_CHANNEL_TEMP = 0x20"
definition DATA_CHANNEL_PRESSURE :: u16 where "DATA_CHANNEL_PRESSURE = 0x40"
definition DATA_CHANNEL_HUMIDITY :: u16 where "DATA_CHANNEL_HUMIDITY = 0x80"
definition DATA_CHANNEL_ENV_SENSOR :: u16 where "DATA_CHANNEL_ENV_SENSOR = 0xf0"
definition DATA_CHANNEL_TEMP2 :: u16 where "DATA_CHANNEL_TEMP2 = 0x100"
definition DATA_CHANNEL_GYROSCOPE :: u16 where "DATA_CHANNEL_GYROSCOPE = 0x200"
definition DATA_CHANNEL_ACCELEROMETER :: u16 where "DATA_CHANNEL_ACCELEROMETER = 0x400"
definition DATA_CHANNEL_ACTION_SENSOR :: u16 where "DATA_CHANNEL_ACTION_SENSOR = 0xf00"
definition DATA_CHANNEL_LIGHT_SENSOR :: u16 where "DATA_CHANNEL_LIGHT_SENSOR = 0x1000"

definition IS_SET :: "u16 \<Rightarrow> u16 \<Rightarrow> bool" where "IS_SET x c \<longleftrightarrow> x AND c = c"

text \<open>The sensors that must answer before anything is packed.\<close>

definition sensors_fail :: "u16 \<Rightarrow> readings \<Rightarrow> bool" where
  "sensors_fail channel r \<longleftrightarrow>
    (DATA_CHANNEL_ENV_SENSOR AND channel \<noteq> 0 \<and> fst (r_bme680 r) \<noteq> 0) \<or>
    (DATA_CHANNEL_ACTION_SENSOR AND channel \<noteq> 0 \<and> fst (r_icm42605 r) \<noteq> 0)"

section \<open>Sampling into a block\<close>

definition f32 :: "u32 \<Rightarrow> bytes" where "f32 w = mem_store False 4 w"
definition f64 :: "u64 \<Rightarrow> bytes" where "f64 w = mem_store False 8 w"
definition i16s :: "u16 list \<Rightarrow> bytes" where "i16s ws = concat (map (mem_store False 2) ws)"

text \<open>What is packed, in order: the condition and the bytes.  A position that is not known is sixteen \<^verbatim>\<open>0xFF\<close>.\<close>

definition sample_items :: "u16 \<Rightarrow> readings \<Rightarrow> (bool \<times> bytes) list" where
  "sample_items channel r =
    [(IS_SET channel DATA_CHANNEL_SNR, [of_int (r_snr r)]),
     (IS_SET channel DATA_CHANNEL_VBAT, [ucast (r_vbat_x1000 r), ucast (drop_bit 8 (r_vbat_x1000 r))]),
     (IS_SET channel DATA_CHANNEL_GPS,
      (case r_gps r of (err, lat, lon) \<Rightarrow> if err = 0 then f64 lat @ f64 lon else replicate 16 0xFF)),
     (IS_SET channel DATA_CHANNEL_GAS, f32 (gas_resistance (snd (r_bme680 r)))),
     (IS_SET channel DATA_CHANNEL_TEMP, f32 (temperature (snd (r_bme680 r)))),
     (IS_SET channel DATA_CHANNEL_PRESSURE, f32 (pressure (snd (r_bme680 r)))),
     (IS_SET channel DATA_CHANNEL_HUMIDITY, f32 (humidity (snd (r_bme680 r)))),
     (IS_SET channel DATA_CHANNEL_LIGHT_SENSOR, f32 (r_light r)),
     (IS_SET channel DATA_CHANNEL_TEMP2, f32 (icm_temperature (snd (r_icm42605 r)))),
     (IS_SET channel DATA_CHANNEL_GYROSCOPE, i16s (gyroscope (snd (r_icm42605 r)))),
     (IS_SET channel DATA_CHANNEL_ACCELEROMETER, i16s (accelerometer (snd (r_icm42605 r)))),
     (True, f64 (r_clock_raw r))]"

fun put_items :: "(bool \<times> bytes) list \<Rightarrow> bytes \<Rightarrow> nat \<Rightarrow> (bytes \<times> nat) option" where
  "put_items [] buffer n = Some (buffer, n)"
| "put_items ((c, d) # its) buffer n =
    (if c then do { b \<leftarrow> wr_bytes buffer n d; put_items its b (n + length d) } else put_items its buffer n)"

definition iotex_mqtt_sampling_data_and_store ::
  "'s nvs_ops \<Rightarrow> u16 \<Rightarrow> readings \<Rightarrow> bytes \<Rightarrow> iotex_mqtt_config \<Rightarrow> 's \<Rightarrow> (bool \<times> iotex_mqtt_config \<times> 's) option" where
  "iotex_mqtt_sampling_data_and_store nvs channel r buffer c s =
    (if \<not> iotex_mqtt_is_need_sampling c then Some (True, c, s)
     else if sensors_fail channel r then Some (False, c, s)
     else do {
       (b, write_cnt) \<leftarrow> put_items (sample_items channel r) buffer 0;
       d \<leftarrow> rd_bytes b 0 write_cnt;
       let (ret, s') = iotex_local_storage_save nvs s SID_MQTT_BULK_UPLOAD_DATA d;
       Some (ret = 0, set_block_size (of_nat write_cnt) c, s')
     })"

section \<open>JSON documents\<close>

datatype json =
    JStr bytes
  | JInt int
  | JFloat u32
  | JDouble u64
  | JMilli u16
  | JInts "int list"
  | JObj "(string \<times> json) list"

type_synonym fields = "(string \<times> json) list"

text \<open>
  Creating the items, one allocation each, and adding them to an object; \<^verbatim>\<open>ok n\<close> says whether the
  \<^verbatim>\<open>n\<close>-th allocation succeeds.
\<close>

fun add_fields :: "(nat \<Rightarrow> bool) \<Rightarrow> nat \<Rightarrow> fields \<Rightarrow> fields \<Rightarrow> (nat \<times> fields) option" where
  "add_fields ok n [] obj = Some (n, obj)"
| "add_fields ok n (f # fs) obj = (if ok n then add_fields ok (n + 1) fs (obj @ [f]) else None)"

text \<open>The bytes \<^verbatim>\<open>cJSON_CreateString\<close> copies from memory.\<close>

definition c_text :: "bytes \<Rightarrow> bytes option" where
  "c_text b = map_option (\<lambda>n. take n b) (strlen b)"

definition ints :: "u16 list \<Rightarrow> json" where
  "ints ws = JInts (map sint ws)"

section \<open>Random value, key and signature of a message\<close>

record 'g crypto =
  c_rng :: "'g rng"
  c_sha256 :: "bytes \<Rightarrow> bytes"
  c_sign :: "bytes option \<Rightarrow> bytes \<Rightarrow> nat \<times> nat"
  c_verify :: "bytes option \<Rightarrow> bytes option \<Rightarrow> bytes \<Rightarrow> nat \<Rightarrow> nat \<Rightarrow> int"

text \<open>The local buffers \<^verbatim>\<open>random\<close>, \<^verbatim>\<open>esdaSign\<close>, \<^verbatim>\<open>jsStr\<close>, \<^verbatim>\<open>epoch_buf\<close> and the variable \<^verbatim>\<open>sinLen\<close>
  with their unspecified contents.\<close>

record stack =
  k_random :: bytes
  k_esdaSign :: bytes
  k_jsStr :: bytes
  k_epoch :: bytes
  k_sinLen :: nat
  k_keybuf :: bytes

definition random_text :: "'g crypto \<Rightarrow> ('g, 'k) secure \<Rightarrow> stack \<Rightarrow> (bytes \<times> ('g, 'k) secure) option" where
  "random_text cr st k = do {
     (b, st') \<leftarrow> GenRandom (c_rng cr) st (k_random k);
     b' \<leftarrow> wr b 16 0;
     t \<leftarrow> c_text b';
     Some (t, st')
   }"

definition signature_texts ::
  "'g crypto \<Rightarrow> ('g, 'k) secure \<Rightarrow> stack \<Rightarrow> bytes \<Rightarrow> bytes \<Rightarrow> (bytes \<times> bytes) option" where
  "signature_texts cr st k jsStr text = do {
     (_, sig, sinLen) \<leftarrow> doESDA_sep256r_Sign (c_sha256 cr) (c_sign cr) (c_verify cr) st (text @ [0]) (length text)
        (k_esdaSign k) (k_sinLen k);
     js \<leftarrow> hex2str sig sinLen jsStr;
     h \<leftarrow> rd_bytes js 0 64;
     e \<leftarrow> wr_bytes sig 0 h;
     e' \<leftarrow> wr e 64 0;
     r \<leftarrow> c_text e';
     s \<leftarrow> c_text (drop 64 js);
     Some (r, s)
   }"

text \<open>The common end: print and sign the message, build the document and print it.\<close>

definition sign_and_print ::
  "(json \<Rightarrow> bytes option) \<Rightarrow> 'g crypto \<Rightarrow> (nat \<Rightarrow> bool) \<Rightarrow> nat \<Rightarrow> ('g, 'k) secure \<Rightarrow> stack \<Rightarrow> bytes \<Rightarrow> fields \<Rightarrow>
   (int \<times> bytes option) option" where
  "sign_and_print print cr ok n st k jsStr msg = do {
     text \<leftarrow> print (JObj msg);
     (r, s) \<leftarrow> signature_texts cr st k jsStr text;
     (case add_fields ok n [(''r'', JStr r), (''s'', JStr s)] [] of
        None \<Rightarrow> Some (- ENOMEM, None)
      | Some (n', sig) \<Rightarrow> do {
          out \<leftarrow> print (JObj [(''message'', JObj msg), (''signature'', JObj sig)]);
          Some (0, Some out)
        })
   }"

section \<open>Reporting the sensors\<close>

definition selected_items :: "u16 \<Rightarrow> readings \<Rightarrow> (bool \<times> fields) list" where
  "selected_items channel r =
    [(IS_SET channel DATA_CHANNEL_SNR, [(''SNR'', JInt (r_snr r))]),
     (IS_SET channel DATA_CHANNEL_VBAT, [(''VBAT'', JFloat (r_vbat r))]),
     (IS_SET channel DATA_CHANNEL_GPS,
      (case r_gps r of (err, lat, lon) \<Rightarrow>
         if err = 0 then [(''latitude'', JDouble lat), (''longitude'', JDouble lon)]
         else [(''latitude'', JStr (asc ''null'')), (''longitude'', JStr (asc ''null''))])),
     (IS_SET channel DATA_CHANNEL_GAS, [(''gas_resistance'', JFloat (gas_resistance (snd (r_bme680 r))))]),
     (IS_SET channel DATA_CHANNEL_TEMP, [(''temperature'', JFloat (temperature (snd (r_bme680 r))))]),
     (IS_SET channel DATA_CHANNEL_PRESSURE, [(''pressure'', JFloat (pressure (snd (r_bme680 r))))]),
     (IS_SET channel DATA_CHANNEL_HUMIDITY, [(''humidity'', JFloat (humidity (snd (r_bme680 r))))]),
     (IS_SET channel DATA_CHANNEL_LIGHT_SENSOR, [(''light'', JFloat (r_light r))]),
     (IS_SET channel DATA_CHANNEL_TEMP2, [(''temperature2'', JFloat (icm_temperature (snd (r_icm42605 r))))]),
     (IS_SET channel DATA_CHANNEL_GYROSCOPE, [(''gyroscope'', ints (gyroscope (snd (r_icm42605 r))))]),
     (IS_SET channel DATA_CHANNEL_ACCELEROMETER, [(''accelerometer'', ints (accelerometer (snd (r_icm42605 r))))])]"

definition chosen :: "(bool \<times> 'a list) list \<Rightarrow> 'a list" where
  "chosen its = concat (map (\<lambda>(c, xs). if c then xs else []) its)"

text \<open>The public key goes into the first messages after a start; \<^verbatim>\<open>jsStr\<close> holds its text afterwards.\<close>

definition public_key_field ::
  "'s nvs_ops \<Rightarrow> 's \<Rightarrow> stack \<Rightarrow> u8 \<Rightarrow> (fields \<times> bytes \<times> u8) option" where
  "public_key_field nvs s k trans_key = do {
     (a, _, _) \<leftarrow> get_ecc_public_key nvs s trans_key (k_keybuf k) None;
     if a \<noteq> 0 then do {
       (_, p, trans_key') \<leftarrow> get_ecc_public_key nvs s trans_key (k_keybuf k) (Some (k_jsStr k));
       js \<leftarrow> p;
       js' \<leftarrow> wr js 128 0;
       t \<leftarrow> c_text js';
       Some ([(''ecc_pubkey'', JStr t)], js', trans_key')
     } else Some ([], k_jsStr k, trans_key)
   }"

definition iotex_mqtt_get_selected_payload ::
  "(json \<Rightarrow> bytes option) \<Rightarrow> 'g crypto \<Rightarrow> (nat \<Rightarrow> bool) \<Rightarrow> 's nvs_ops \<Rightarrow> 's \<Rightarrow> u16 \<Rightarrow> readings \<Rightarrow> stack \<Rightarrow>
   ('g, 'k) secure \<Rightarrow> u8 \<Rightarrow> (int \<times> bytes option \<times> ('g, 'k) secure \<times> u8) option" where
  "iotex_mqtt_get_selected_payload print cr ok nvs s channel r k st trans_key =
    (if \<not> (ok 0 \<and> ok 1 \<and> ok 2) then Some (- ENOMEM, None, st, trans_key)
     else if sensors_fail channel r then Some (- ENOMEM, None, st, trans_key)
     else (case add_fields ok 3 (chosen (selected_items channel r) @ [(''timestamp'', JStr (r_clock r))]) [] of
         None \<Rightarrow> Some (- ENOMEM, None, st, trans_key)
       | Some (n, msg) \<Rightarrow> do {
           (rt, st1) \<leftarrow> random_text cr st k;
           (case add_fields ok n [(''random'', JStr rt)] msg of
              None \<Rightarrow> Some (- ENOMEM, None, st1, trans_key)
            | Some (n1, msg1) \<Rightarrow> do {
                (pk, js, trans_key') \<leftarrow> public_key_field nvs s k trans_key;
                (case add_fields ok n1 pk msg1 of
                   None \<Rightarrow> Some (- ENOMEM, None, st1, trans_key')
                 | Some (n2, msg2) \<Rightarrow> do {
                     (ret, out) \<leftarrow> sign_and_print print cr ok n2 st1 k js msg2;
                     Some (ret, out, st1, trans_key')
                   })
              })
         }))"

section \<open>Turning a block into JSON\<close>

type_synonym reader = "bytes \<Rightarrow> nat \<Rightarrow> (fields \<times> nat) option"

definition read_snr :: reader where
  "read_snr b k = do { x \<leftarrow> rd b k; Some ([(''SNR'', JInt (uint x))], k + 1) }"

text \<open>The two increments in one expression are taken from left to right.\<close>

definition read_vbat :: reader where
  "read_vbat b k = do {
     lo \<leftarrow> rd b k; hi \<leftarrow> rd b (k + 1);
     Some ([(''VBAT'', JMilli (ucast lo OR push_bit 8 (ucast hi)))], k + 2)
   }"

definition read_gps :: reader where
  "read_gps b k = do {
     lat \<leftarrow> rd_bytes b k 8; lon \<leftarrow> rd_bytes b (k + 8) 8;
     let j = foldl (AND) 0xFF lon;
     Some (if j \<noteq> 0xFF then [(''latitude'', JDouble (mem_load False lat)), (''longitude'', JDouble (mem_load False lon))]
       else [(''latitude'', JStr (asc ''null'')), (''longitude'', JStr (asc ''null''))], k + 16)
   }"

definition read_float :: "string \<Rightarrow> reader" where
  "read_float key b k = do { x \<leftarrow> rd_bytes b k 4; Some ([(key, JFloat (mem_load False x))], k + 4) }"

definition read_ints :: "string \<Rightarrow> reader" where
  "read_ints key b k = do {
     x \<leftarrow> rd_bytes b k 2; y \<leftarrow> rd_bytes b (k + 2) 2; z \<leftarrow> rd_bytes b (k + 4) 2;
     Some ([(key, ints [mem_load False x, mem_load False y, mem_load False z])], k + 6)
   }"

definition block_items :: "u16 \<Rightarrow> (bool \<times> reader) list" where
  "block_items channel =
    [(IS_SET channel DATA_CHANNEL_SNR, read_snr),
     (IS_SET channel DATA_CHANNEL_VBAT, read_vbat),
     (IS_SET channel DATA_CHANNEL_GPS, read_gps),
     (IS_SET channel DATA_CHANNEL_GAS, read_float ''gas_resistance''),
     (IS_SET channel DATA_CHANNEL_TEMP, read_float ''temperature''),
     (IS_SET channel DATA_CHANNEL_PRESSURE, read_float ''pressure''),
     (IS_SET channel DATA_CHANNEL_HUMIDITY, read_float ''humidity''),
     (IS_SET channel DATA_CHANNEL_HUMIDITY, read_float ''light''),
     (IS_SET channel DATA_CHANNEL_TEMP2, read_float ''temperature2''),
     (IS_SET channel DATA_CHANNEL_GYROSCOPE, read_ints ''gyroscope''),
     (IS_SET channel DATA_CHANNEL_ACCELEROMETER, read_ints ''accelerometer'')]"

text \<open>The inner option: an item could not be created.\<close>

fun read_items ::
  "(nat \<Rightarrow> bool) \<Rightarrow> (bool \<times> reader) list \<Rightarrow> bytes \<Rightarrow> nat \<Rightarrow> nat \<Rightarrow> fields \<Rightarrow> (nat \<times> nat \<times> fields) option option" where
  "read_items ok [] b k n obj = Some (Some (k, n, obj))"
| "read_items ok ((c, f) # its) b k n obj =
    (if c then do {
       (fs, k') \<leftarrow> f b k;
       (case add_fields ok n fs obj of
          None \<Rightarrow> Some None
        | Some (n', obj') \<Rightarrow> read_items ok its b k' n' obj')
     } else read_items ok its b k n obj)"

definition iotex_mqtt_bin_to_json ::
  "(json \<Rightarrow> bytes option) \<Rightarrow> 'g crypto \<Rightarrow> (nat \<Rightarrow> bool) \<Rightarrow> bytes \<Rightarrow> u16 \<Rightarrow> stack \<Rightarrow> ('g, 'k) secure \<Rightarrow>
   (int \<times> bytes option \<times> ('g, 'k) secure) option" where
  "iotex_mqtt_bin_to_json print cr ok buffer channel k st =
    (if \<not> (ok 0 \<and> ok 1 \<and> ok 2) then Some (- ENOMEM, None, st)
     else do {
       items \<leftarrow> read_items ok (block_items channel) buffer 0 3 [];
       (case items of
          None \<Rightarrow> Some (- ENOMEM, None, st)
        | Some (off, n, msg) \<Rightarrow> do {
            timestamp \<leftarrow> rd_bytes buffer off 8;
            t \<leftarrow> c_text (k_epoch k);
            (case add_fields ok n [(''timestamp'', JStr t)] msg of
               None \<Rightarrow> Some (- ENOMEM, None, st)
             | Some (n1, msg1) \<Rightarrow> do {
                 (rt, st1) \<leftarrow> random_text cr st k;
                 (case add_fields ok n1 [(''random'', JStr rt)] msg1 of
                    None \<Rightarrow> Some (- ENOMEM, None, st1)
                  | Some (n2, msg2) \<Rightarrow> do {
                      (ret, out) \<leftarrow> sign_and_print print cr ok n2 st1 k (k_jsStr k) msg2;
                      Some (ret, out, st1)
                    })
               })
          })
     })"

section \<open>A block holds what was sampled\<close>

lemma put_items_run:
  assumes "n = length W" "length (chosen its) \<le> length R"
  shows "put_items its (W @ R) n = Some (W @ chosen its @ drop (length (chosen its)) R, n + length (chosen its))"
  using assms
proof (induction its arbitrary: n W R)
  case (Cons it its)
  obtain c d where it: "it = (c, d)" by (cases it)
  show ?case
  proof (cases c)
    case True
    have w: "wr_bytes (W @ R) n d = Some ((W @ d) @ drop (length d) R)"
      using Cons.prems it True by (intro wr_bytes_append) (auto simp: chosen_def)
    show ?thesis using Cons.IH [of "n + length d" "W @ d" "drop (length d) R"] Cons.prems it True w
      by (simp add: chosen_def add.commute del: wr_bytes_in)
  next
    case False
    then show ?thesis using Cons it by (simp add: chosen_def)
  qed
qed (simp add: chosen_def)

definition sample_block :: "u16 \<Rightarrow> readings \<Rightarrow> bytes" where
  "sample_block channel r = chosen (sample_items channel r)"

text \<open>The sensor returns three values of each kind.\<close>

definition readings_ok :: "readings \<Rightarrow> bool" where
  "readings_ok r \<longleftrightarrow> length (gyroscope (snd (r_icm42605 r))) = 3 \<and> length (accelerometer (snd (r_icm42605 r))) = 3"

lemma length_fields [simp]: "length (f32 w) = 4" "length (f64 d) = 8" "length (i16s ws) = 2 * length ws"
  by (simp_all add: f32_def f64_def i16s_def length_concat comp_def sum_list_triv)

lemma sample_block_length: "readings_ok r \<Longrightarrow> length (sample_block channel r) \<le> 63 \<and> 8 \<le> length (sample_block channel r)"
  by (simp add: sample_block_def sample_items_def chosen_def readings_ok_def split: prod.split)

lemma sampling_stores_block:
  assumes "length buffer = 128" "readings_ok r" "iotex_mqtt_is_need_sampling c" "\<not> sensors_fail channel r"
  shows "iotex_mqtt_sampling_data_and_store nvs channel r buffer c s =
    (let (ret, s') = iotex_local_storage_save nvs s SID_MQTT_BULK_UPLOAD_DATA (sample_block channel r) in
     Some (ret = 0, set_block_size (of_nat (length (sample_block channel r))) c, s'))"
proof -
  let ?d = "sample_block channel r"
  have "put_items (sample_items channel r) buffer 0 = Some (?d @ drop (length ?d) buffer, length ?d)"
    using put_items_run [of 0 "[]" "sample_items channel r" buffer] sample_block_length [OF assms(2), of channel] assms(1)
    by (simp add: sample_block_def)
  then show ?thesis using assms(3,4) by (simp add: iotex_mqtt_sampling_data_and_store_def)
qed

text \<open>What one reader makes of the bytes of one item.\<close>

definition reads :: "reader \<Rightarrow> bytes \<Rightarrow> fields \<Rightarrow> bool" where
  "reads f d fs \<longleftrightarrow> (\<forall>P z. f (P @ d @ z) (length P) = Some (fs, length P + length d))"

lemma reads_snr: "reads read_snr [x] [(''SNR'', JInt (uint x))]"
  by (simp add: reads_def read_snr_def rd_def)

lemma reads_vbat: "reads read_vbat [ucast v, ucast (drop_bit 8 v)] [(''VBAT'', JMilli v)]" for v :: u16
proof -
  have "ucast (ucast v :: u8) OR push_bit 8 (ucast (ucast (drop_bit 8 v) :: u8)) = v"
    by (rule bit_word_eqI) (auto simp: bit_simps not_less dest: bit_imp_le_length)
  then show ?thesis by (simp add: reads_def read_vbat_def rd_def nth_append)
qed

lemma reads_float: "reads (read_float key) (f32 w) [(key, JFloat w)]"
  by (simp add: reads_def read_float_def rd_bytes_def f32_def mem_load_store)

lemma reads_ints: "length ws = 3 \<Longrightarrow> reads (read_ints key) (i16s ws) [(key, ints ws)]"
  by (auto simp: reads_def read_ints_def rd_bytes_def i16s_def mem_load_store numeral_3_eq_3 length_Suc_conv ints_def)

lemma foldl_and_FF: "foldl (AND) x bs = 0xFF \<longleftrightarrow> x = (0xFF :: u8) \<and> (\<forall>b\<in>set bs. b = 0xFF)"
proof (induction bs arbitrary: x)
  case (Cons b bs)
  have m: "(0xFF :: u8) = -1" by simp
  have "x AND b = 0xFF \<longleftrightarrow> x = 0xFF \<and> b = 0xFF" unfolding m by (auto simp: bit_eq_iff bit_simps)
  then show ?case by (simp add: Cons)
qed simp

lemma reads_gps_fix:
  assumes "\<exists>b\<in>set (f64 lon). b \<noteq> 0xFF"
  shows "reads read_gps (f64 lat @ f64 lon) [(''latitude'', JDouble lat), (''longitude'', JDouble lon)]"
proof -
  have "foldl (AND) 0xFF (f64 lon) \<noteq> 0xFF" using assms by (auto simp: foldl_and_FF)
  then show ?thesis by (simp add: reads_def read_gps_def rd_bytes_def mem_load_store f64_def)
qed

lemma reads_gps_none:
  "reads read_gps (replicate 16 0xFF) [(''latitude'', JStr (asc ''null'')), (''longitude'', JStr (asc ''null''))]"
proof -
  have "foldl (AND) 0xFF (replicate 8 (0xFF :: u8)) = 0xFF" unfolding foldl_and_FF by simp
  then show ?thesis by (simp add: reads_def read_gps_def rd_bytes_def)
qed

text \<open>The loop over items that agree with what was packed.\<close>

lemma add_fields_ok: "(\<And>i. ok i) \<Longrightarrow> add_fields ok n fs obj = Some (n + length fs, obj @ fs)"
  by (induction fs arbitrary: n obj) auto

lemma read_items_run:
  assumes "list_all2 (\<lambda>(c, f) (c', d, fs). c = c' \<and> (c \<longrightarrow> reads f d fs)) its ds" "\<And>i. ok i"
  shows "read_items ok its (P @ chosen (map (\<lambda>(c, d, fs). (c, d)) ds) @ z) (length P) n obj =
    Some (Some (length P + length (chosen (map (\<lambda>(c, d, fs). (c, d)) ds)),
      n + length (chosen (map (\<lambda>(c, d, fs). (c, fs)) ds)), obj @ chosen (map (\<lambda>(c, d, fs). (c, fs)) ds)))"
  using assms(1)
proof (induction its ds arbitrary: P n obj rule: list_all2_induct)
  case (Cons it its e ds)
  obtain c f where it: "it = (c, f)" by (cases it)
  obtain d fs where e: "e = (c, d, fs)" "c \<longrightarrow> reads f d fs" using Cons.hyps(1) it by (cases e) auto
  show ?case
  proof (cases c)
    case True
    then have "f (P @ d @ r) (length P) = Some (fs, length (P @ d))" for r using e(2) by (simp add: reads_def)
    then show ?thesis using Cons.IH [of "P @ d" "n + length fs" "obj @ fs"] it e(1) True assms(2)
      by (simp add: chosen_def add_fields_ok add.assoc)
  next
    case False
    then show ?thesis using Cons.IH [of P n obj] it e(1) by (simp add: chosen_def)
  qed
qed (simp add: chosen_def)

text \<open>What a block is reported as: the fields of the live report, with the narrowed signal quality and voltage.\<close>

definition stored_items :: "u16 \<Rightarrow> readings \<Rightarrow> (bool \<times> fields) list" where
  "stored_items channel r =
    [(IS_SET channel DATA_CHANNEL_SNR, [(''SNR'', JInt (uint (of_int (r_snr r) :: u8)))]),
     (IS_SET channel DATA_CHANNEL_VBAT, [(''VBAT'', JMilli (r_vbat_x1000 r))])] @ drop 2 (selected_items channel r)"

definition stored_fields :: "u16 \<Rightarrow> readings \<Rightarrow> fields" where
  "stored_fields channel r = chosen (stored_items channel r)"

lemma block_items_read_sample:
  assumes "IS_SET channel DATA_CHANNEL_HUMIDITY \<longleftrightarrow> IS_SET channel DATA_CHANNEL_LIGHT_SENSOR" "readings_ok r"
    "fst (r_gps r) = 0 \<longrightarrow> (\<exists>b\<in>set (f64 (snd (snd (r_gps r)))). b \<noteq> 0xFF)"
  shows "list_all2 (\<lambda>(c, f) (c', d, fs). c = c' \<and> (c \<longrightarrow> reads f d fs)) (block_items channel)
    (map2 (\<lambda>(c, d) (c', fs). (c, d, fs)) (butlast (sample_items channel r)) (stored_items channel r))"
proof -
  obtain err lat lon where g: "r_gps r = (err, lat, lon)" by (cases "r_gps r")
  show ?thesis using assms
    by (simp add: block_items_def sample_items_def stored_items_def selected_items_def g readings_ok_def reads_snr reads_vbat
        reads_float reads_ints reads_gps_fix reads_gps_none [simplified])
qed

lemma read_sample_block:
  assumes "IS_SET channel DATA_CHANNEL_HUMIDITY \<longleftrightarrow> IS_SET channel DATA_CHANNEL_LIGHT_SENSOR" "readings_ok r"
    "fst (r_gps r) = 0 \<longrightarrow> (\<exists>b\<in>set (f64 (snd (snd (r_gps r)))). b \<noteq> 0xFF)" "\<And>i. ok i"
  shows "\<exists>off. read_items ok (block_items channel) (sample_block channel r @ z) 0 n [] =
      Some (Some (off, n + length (stored_fields channel r), stored_fields channel r)) \<and>
    rd_bytes (sample_block channel r @ z) off 8 = Some (f64 (r_clock_raw r))"
proof -
  let ?ds = "map2 (\<lambda>(c, d) (c', fs). (c, d, fs)) (butlast (sample_items channel r)) (stored_items channel r)"
  let ?a = "chosen (butlast (sample_items channel r))"
  have b: "sample_block channel r = ?a @ f64 (r_clock_raw r)"
    by (simp add: sample_block_def sample_items_def chosen_def)
  have m: "map (\<lambda>(c, d, fs). (c, d)) ?ds = butlast (sample_items channel r)"
    "map (\<lambda>(c, d, fs). (c, fs)) ?ds = stored_items channel r"
    by (simp_all add: sample_items_def stored_items_def selected_items_def)
  have "read_items ok (block_items channel) ([] @ ?a @ f64 (r_clock_raw r) @ z) (length ([] :: bytes)) n [] =
      Some (Some (length ?a, n + length (stored_fields channel r), stored_fields channel r))"
    using read_items_run [OF block_items_read_sample [OF assms(1-3)] assms(4), where P = "[]"
        and z = "f64 (r_clock_raw r) @ z" and n = n and obj = "[]"]
    unfolding m by (simp add: stored_fields_def)
  then show ?thesis unfolding b by (intro exI [of _ "length ?a"]) (simp add: rd_bytes_def)
qed

section \<open>The signature in a document\<close>

lemma c_text_append: "0 \<notin> set t \<Longrightarrow> c_text (t @ 0 # z) = Some t"
  by (simp add: c_text_def strlen_append)

lemma set_take_drop_nz: "0 \<notin> set t \<Longrightarrow> 0 \<notin> set (take n t) \<and> 0 \<notin> set (drop n t)"
  by (auto dest: in_set_takeD in_set_dropD)

text \<open>The two numbers are written one behind the other and cut after 64 digits, wherever they meet.\<close>

lemma signature_texts_cut:
  assumes "init_ok st" "c_sign cr (ecc_x st) (c_sha256 cr text) = (r, s)"
    "length (k_esdaSign k) = 65" "length js = 130"
    "32 \<le> length (mpi_bytes r @ mpi_bytes s)" "length (mpi_bytes r @ mpi_bytes s) \<le> 64"
  shows "signature_texts cr st k js text =
    Some (take 64 (swap_text (mpi_bytes r @ mpi_bytes s)), drop 64 (swap_text (mpi_bytes r @ mpi_bytes s)))"
proof -
  let ?n = "length (mpi_bytes r @ mpi_bytes s)" and ?t = "swap_text (mpi_bytes r @ mpi_bytes s)"
  define b2 where "b2 = (mpi_bytes r @ mpi_bytes s) @ drop ?n (k_esdaSign k)"
  have w: "wr_bytes (k_esdaSign k) 0 (mpi_bytes r) = Some (mpi_bytes r @ drop (length (mpi_bytes r)) (k_esdaSign k))"
    "wr_bytes (mpi_bytes r @ drop (length (mpi_bytes r)) (k_esdaSign k)) (length (mpi_bytes r)) (mpi_bytes s) = Some b2"
    using assms(3,6) by (simp_all add: wr_bytes_def b2_def add.commute)
  have l2: "length b2 = 65" using assms(3,6) by (simp add: b2_def)
  have d: "doESDA_sep256r_Sign (c_sha256 cr) (c_sign cr) (c_verify cr) st (text @ [0]) (length text) (k_esdaSign k) (k_sinLen k) =
      Some (c_verify cr (ecc_qx st) (ecc_qy st) (c_sha256 cr text) r s, b2, ?n)"
    using assms(1,2) w by (simp add: doESDA_sep256r_Sign_def rd_bytes_def)
  have tk: "take ?n b2 = mpi_bytes r @ mpi_bytes s" unfolding b2_def by (rule append_eq_conv_conj [THEN iffD1, THEN conjunct1, symmetric]) simp
  have h: "hex2str b2 ?n js = Some (?t @ 0 # drop (Suc (2 * ?n)) js)"
    using hex2str_eq [of ?n b2 js] l2 assms(4,6) unfolding tk by simp
  have e: "wr_bytes b2 0 (take 64 ?t) = Some (take 64 ?t @ drop 64 b2)" "length (take 64 ?t) = 64"
    using assms(5) l2 by (simp_all add: wr_bytes_def)
  obtain x where x: "drop 64 b2 = [x]" using l2 by (cases "drop 64 b2") (auto dest: arg_cong [of _ _ length])
  have e2: "wr (take 64 ?t @ drop 64 b2) 64 0 = Some (take 64 ?t @ [0])"
    using wr_append [of 64 "take 64 ?t" "drop 64 b2" 0] e(2) x by simp
  have hd: "rd_bytes (?t @ 0 # drop (Suc (2 * ?n)) js) 0 64 = Some (take 64 ?t)"
    "drop 64 (?t @ 0 # drop (Suc (2 * ?n)) js) = drop 64 ?t @ 0 # drop (Suc (2 * ?n)) js"
    using assms(5) by (simp_all add: rd_bytes_def)
  have nz: "0 \<notin> set (take 64 ?t)" "0 \<notin> set (drop 64 ?t)" using set_take_drop_nz [OF swap_text_nz] by auto
  show ?thesis unfolding signature_texts_def d bind.bind_lunit prod.case h hd e(1) e2
    using c_text_append [OF nz(1), of "[]"] c_text_append [OF nz(2)] by simp
qed

lemma signature_texts_full:
  assumes "init_ok st" "c_sign cr (ecc_x st) (c_sha256 cr text) = (r, s)"
    "length (k_esdaSign k) = 65" "length js = 130"
    "256 ^ 31 \<le> r" "r < 256 ^ 32" "256 ^ 31 \<le> s" "s < 256 ^ 32"
  shows "signature_texts cr st k js text = Some (swap_text (mpi_bytes r), swap_text (mpi_bytes s))"
proof -
  have "length (mpi_bytes r) = 32" "length (mpi_bytes s) = 32"
    using mpi_bytes_length [of 31 r] mpi_bytes_length [of 31 s] assms(5-8) by simp_all
  then show ?thesis using signature_texts_cut [OF assms(1-4)] by (simp add: swap_text_append)
qed

text \<open>When the first number of a signature has a leading zero byte, the document misplaces the border: its
  \<^verbatim>\<open>r\<close> ends with the first digits of the second number, and its \<^verbatim>\<open>s\<close> lacks them.\<close>

theorem payload_signature_border:
  assumes "init_ok st" "c_sign cr (ecc_x st) (c_sha256 cr text) = (r, s)"
    "length (k_esdaSign k) = 65" "length js = 130"
    "256 ^ 30 \<le> r" "r < 256 ^ 31" "256 ^ 31 \<le> s" "s < 256 ^ 32"
  shows "signature_texts cr st k js text =
    Some (swap_text (mpi_bytes r @ [hd (mpi_bytes s)]), swap_text (tl (mpi_bytes s)))"
proof -
  have l: "length (mpi_bytes r) = 31" "length (mpi_bytes s) = 32"
    using mpi_bytes_length [of 30 r] mpi_bytes_length [of 31 s] assms(5-8) by simp_all
  then obtain b bs where s: "mpi_bytes s = b # bs" by (cases "mpi_bytes s") auto
  have "swap_text (mpi_bytes r @ b # bs) = swap_text (mpi_bytes r @ [b]) @ swap_text bs"
    by (simp add: swap_text_append)
  then show ?thesis using signature_texts_cut [OF assms(1-4)] l s by simp
qed

text \<open>A signer for examples, which signs everything with the same two numbers.\<close>

definition toy_crypto :: "nat \<Rightarrow> nat \<Rightarrow> unit crypto" where
  "toy_crypto r s = \<lparr>c_rng = (\<lambda>g n. (replicate n 0xA5, g)), c_sha256 = (\<lambda>m. m), c_sign = (\<lambda>x h. (r, s)),
     c_verify = (\<lambda>x y h r s. 0)\<rparr>"

definition stack0 :: stack where
  "stack0 = \<lparr>k_random = replicate 17 7, k_esdaSign = replicate 65 7, k_jsStr = replicate 130 7,
     k_epoch = [0x31, 0], k_sinLen = 7, k_keybuf = replicate 160 7\<rparr>"

lemma payload_signature_border_witness:
  "signature_texts (toy_crypto (256 ^ 30) (256 ^ 31)) secure0 stack0 (replicate 130 0) [1, 2] =
    Some (swap_text (mpi_bytes (256 ^ 30) @ [hd (mpi_bytes (256 ^ 31))]), swap_text (tl (mpi_bytes (256 ^ 31))))"
  by (rule payload_signature_border) (simp_all add: toy_crypto_def secure0_def stack0_def)

section \<open>Reporting a stored block\<close>

lemma random_text_eq:
  assumes "c_rng cr (drbg st) 8 = (rb, g)" "length rb = 8" "length (k_random k) = 17"
  shows "random_text cr st k = Some (hex_digits rb, st\<lparr>drbg := g\<rparr>)"
proof -
  have g: "GenRandom (c_rng cr) st (k_random k) = Some (hex_digits rb @ [0], st\<lparr>drbg := g\<rparr>)"
    using hex2str_cc_eq [of 8 rb "k_random k"] assms by (simp add: GenRandom_def)
  have w: "wr (hex_digits rb @ [0]) 16 0 = Some (hex_digits rb @ [0])"
    using wr_append [of 16 "hex_digits rb" "[0]" 0] assms(2) by simp
  show ?thesis using g w c_text_append [OF hex_digits_nz, of rb "[]"] by (simp add: random_text_def)
qed

lemma sign_and_print_full:
  assumes "\<And>i. ok i" "print (JObj msg) = Some text" "signature_texts cr st k js text = Some (tr, ts)"
  shows "sign_and_print print cr ok n st k js msg =
    map_option (\<lambda>out. (0, Some out))
      (print (JObj [(''message'', JObj msg), (''signature'', JObj [(''r'', JStr tr), (''s'', JStr ts)])]))"
  using assms by (simp add: sign_and_print_def map_option_case split: option.split)

definition readings0 :: readings where
  "readings0 = \<lparr>r_bme680 = (0, \<lparr>pressure = 1, humidity = 2, temperature = 3, gas_resistance = 4\<rparr>),
     r_icm42605 = (0, \<lparr>icm_temperature = 5, gyroscope = [1, 2, 3], accelerometer = [4, 5, 6]\<rparr>),
     r_snr = 30, r_vbat = 7, r_vbat_x1000 = 3700, r_gps = (-1, 0, 0), r_light = 8, r_clock = [], r_clock_raw = 9\<rparr>"

section \<open>The live report\<close>

definition pubkey_item :: "bytes \<Rightarrow> fields" where
  "pubkey_item d = [(''ecc_pubkey'', JStr (swap_text (take 64 (drop PUBKEY_STRIP_HEAD d))))]"

context nvs_spec
begin

lemma public_key_field_eq:
  assumes "newest_of hist s SID_ECC_KEY [d]" "length d = KEY_BUF_SIZE" "length (k_keybuf k) = KEY_BUF_SIZE"
    "length (k_jsStr k) = 130"
  shows "\<exists>js. length js = 130 \<and> public_key_field nvs s k tk =
    Some (if tk = 0 then [] else pubkey_item d, js, if tk = 0 then 0 else tk - 1)"
proof (cases "tk = 0")
  case True
  then show ?thesis using assms(4) by (simp add: public_key_field_def get_ecc_public_key_def)
next
  case False
  let ?t = "swap_text (take 64 (drop PUBKEY_STRIP_HEAD d))"
  have l: "load_key nvs s (k_keybuf k) KEY_BUF_SIZE = d"
    using load_stored [OF assms(1), of KEY_BUF_SIZE] assms(2,3) by (simp add: into_def KEY_BUF_SIZE_def)
  have lt: "length ?t = 128" using assms(2) by (simp add: KEY_BUF_SIZE_def PUBKEY_STRIP_HEAD_def)
  have h: "hex2str (drop PUBKEY_STRIP_HEAD d) 64 (k_jsStr k) = Some (?t @ 0 # drop 129 (k_jsStr k))"
    using hex2str_eq [of 64 "drop PUBKEY_STRIP_HEAD d" "k_jsStr k"] assms(2,4)
    by (simp add: KEY_BUF_SIZE_def PUBKEY_STRIP_HEAD_def)
  have w: "wr (?t @ 0 # drop 129 (k_jsStr k)) 128 0 = Some (?t @ 0 # drop 129 (k_jsStr k))"
    using wr_append [of 128 ?t "0 # drop 129 (k_jsStr k)" 0] lt by simp
  have c: "c_text (?t @ 0 # drop 129 (k_jsStr k)) = Some ?t" by (rule c_text_append [OF swap_text_nz])
  have "length (?t @ 0 # drop 129 (k_jsStr k)) = 130" using lt assms(4) by simp
  moreover have "0 < tk" using False by (simp add: word_neq_0_conv)
  moreover have "uint tk \<noteq> 0" using False by (simp add: word_uint_eq_iff)
  ultimately show ?thesis using False l h w c
    by (simp add: public_key_field_def get_ecc_public_key_def pubkey_item_def)
qed

end



text \<open>A document made from a block, whatever the memory and the state of the secure side were.\<close>

definition renders ::
  "(json \<Rightarrow> bytes option) \<Rightarrow> 'g crypto \<Rightarrow> 'k itself \<Rightarrow> u16 \<Rightarrow> bytes \<Rightarrow> bytes \<Rightarrow> bool" where
  "renders print cr K channel b doc \<longleftrightarrow> (\<exists>ok rest k (st :: ('g, 'k) secure) st'.
     iotex_mqtt_bin_to_json print cr ok (b @ rest) channel k st = Some (0, Some doc, st'))"



lemma f64_low_half: "mem_load False (take 4 (f64 w)) = (ucast w :: u32)"
proof (rule bit_word_eqI)
  fix i assume i: "i < LENGTH(32)"
  then have "i div 8 < 4" by auto
  moreover have "rev (rev (take 4 (f64 w))) ! (i div 8) = rev (be_bytes 8 w) ! (i div 8)"
    using calculation by (simp add: f64_def mem_store_def)
  ultimately show "bit (mem_load False (take 4 (f64 w)) :: u32) i = bit (ucast w :: u32) i"
    using i by (simp add: mem_load_def bit_be_word nth_rev_be_bytes bit_simps)
qed

text \<open>The decoder of blocks takes the humidity channel for the light channel: with humidity selected and light not, it
  reports the first half of the time stamp as light; with light selected and humidity not, it reports no
  light.\<close>

theorem block_light_follows_humidity:
  "read_items (\<lambda>i. True) (block_items DATA_CHANNEL_HUMIDITY) (sample_block DATA_CHANNEL_HUMIDITY r) 0 3 [] =
      Some (Some (8, 5, [(''humidity'', JFloat (humidity (snd (r_bme680 r)))), (''light'', JFloat (ucast (r_clock_raw r)))])) \<and>
    length (sample_block DATA_CHANNEL_HUMIDITY r) = 12 \<and>
    read_items (\<lambda>i. True) (block_items DATA_CHANNEL_LIGHT_SENSOR) (sample_block DATA_CHANNEL_LIGHT_SENSOR r) 0 3 [] =
      Some (Some (0, 3, []))"
proof -
  note ch = DATA_CHANNEL_GPS_def DATA_CHANNEL_SNR_def DATA_CHANNEL_VBAT_def DATA_CHANNEL_GAS_def DATA_CHANNEL_TEMP_def
    DATA_CHANNEL_PRESSURE_def DATA_CHANNEL_HUMIDITY_def DATA_CHANNEL_TEMP2_def DATA_CHANNEL_GYROSCOPE_def
    DATA_CHANNEL_ACCELEROMETER_def DATA_CHANNEL_LIGHT_SENSOR_def IS_SET_def
  let ?h = "f32 (humidity (snd (r_bme680 r)))" and ?t = "f64 (r_clock_raw r)"
  have b: "sample_block DATA_CHANNEL_HUMIDITY r = ?h @ ?t" by (simp add: sample_block_def sample_items_def chosen_def ch)
  have h: "read_float ''humidity'' (?h @ ?t) 0 = Some ([(''humidity'', JFloat (humidity (snd (r_bme680 r))))], 4)"
    using reads_float [of "''humidity''" "humidity (snd (r_bme680 r))"] unfolding reads_def by (auto dest: spec [of _ "[]"])
  have l: "read_float ''light'' (?h @ ?t) 4 = Some ([(''light'', JFloat (ucast (r_clock_raw r)))], 8)"
    by (simp add: read_float_def rd_bytes_def f64_low_half)
  have "read_items (\<lambda>i. True) (block_items DATA_CHANNEL_HUMIDITY) (?h @ ?t) 0 3 [] =
      Some (Some (8, 5, [(''humidity'', JFloat (humidity (snd (r_bme680 r)))), (''light'', JFloat (ucast (r_clock_raw r)))]))"
    using h l by (simp add: block_items_def ch)
  moreover have "read_items (\<lambda>i. True) (block_items DATA_CHANNEL_LIGHT_SENSOR) x 0 3 [] = Some (Some (0, 3, []))" for x
    by (simp add: block_items_def ch)
  ultimately show ?thesis unfolding b by simp
qed

end
