(* ===== verification/BulkUpload.thy ===== *)
theory BulkUpload
  imports Payload
begin

text \<open>
  The periodic work of \<^verbatim>\<open>main.c\<close>: reporting the sensors, or sampling a batch into the local storage
  and uploading it, one block per period, over restarts of the device.
\<close>

section \<open>The device\<close>

text \<open>
  The configuration, the storage, the secure side, the counter of the public key, the number of
  messages without a response, and the documents handed to \<^verbatim>\<open>mqtt_publish\<close>, oldest first.
\<close>

record ('s, 'g, 'k) tracker =
  t_cfg :: iotex_mqtt_config
  t_nvs :: 's
  t_secure :: "('g, 'k) secure"
  t_trans_key :: u8
  mqttSentCount :: u32
  t_log :: "bytes list"

text \<open>A restart keeps the flash and nothing else; \<^verbatim>\<open>iotex_mqtt_load_config\<close> runs before the first period.\<close>

definition restart where
  "restart nvs c0 st t =
     t\<lparr>t_secure := st, t_trans_key := 2, mqttSentCount := 0, t_cfg := iotex_mqtt_load_config nvs c0 (t_nvs t)\<rparr>"

text \<open>What a period finds: the flags of the connection, the result of the ping, readings, memory.\<close>

record period =
  send_data_enable :: bool
  e_connected :: bool
  e_ping :: int
  e_readings :: readings
  e_stack :: stack
  e_ok :: "nat \<Rightarrow> bool"
  e_buffer :: bytes

datatype outcome = Continue | Reboot

definition MQTT_NO_RESPONSE_MAX_COUNT :: u32 where "MQTT_NO_RESPONSE_MAX_COUNT = 3"

definition ismqttOffline :: "('s, 'g, 'k) tracker \<Rightarrow> bool" where
  "ismqttOffline t = (if mqttSentCount t < MQTT_NO_RESPONSE_MAX_COUNT then False else True)"

definition mqttSentOnce :: "('s, 'g, 'k) tracker \<Rightarrow> ('s, 'g, 'k) tracker" where
  "mqttSentOnce t = t\<lparr>mqttSentCount := mqttSentCount t + 1\<rparr>"

definition mqttGetResponse :: "('s, 'g, 'k) tracker \<Rightarrow> ('s, 'g, 'k) tracker" where
  "mqttGetResponse t = t\<lparr>mqttSentCount := 0\<rparr>"

text \<open>The result of publishing is only printed.\<close>

definition publish :: "bytes \<Rightarrow> ('s, 'g, 'k) tracker \<Rightarrow> ('s, 'g, 'k) tracker" where
  "publish doc t = t\<lparr>t_log := t_log t @ [doc]\<rparr>"

definition periodic_publish_sensors_data ::
  "(json \<Rightarrow> bytes option) \<Rightarrow> 'g crypto \<Rightarrow> 's nvs_ops \<Rightarrow> period \<Rightarrow> ('s, 'g, 'k) tracker \<Rightarrow>
   (outcome \<times> ('s, 'g, 'k) tracker) option" where
  "periodic_publish_sensors_data print cr nvs e t =
    (if e_connected e \<and> \<not> ismqttOffline t then
       if e_ping e \<noteq> 0 then Some (Continue, t)
       else do {
         (ret, out, st, trans_key) \<leftarrow> iotex_mqtt_get_selected_payload print cr (e_ok e) nvs (t_nvs t)
            (data_channel (t_cfg t)) (e_readings e) (e_stack e) (t_secure t) (t_trans_key t);
         let t1 = t\<lparr>t_secure := st, t_trans_key := trans_key\<rparr>;
         if ret = 0 then do { doc \<leftarrow> out; Some (Continue, mqttSentOnce (publish doc t1)) } else Some (Continue, t1)
       }
     else Some (Reboot, t))"

definition iotex_mqtt_bulk_upload_sampling_data ::
  "(json \<Rightarrow> bytes option) \<Rightarrow> 'g crypto \<Rightarrow> 's nvs_ops \<Rightarrow> period \<Rightarrow> ('s, 'g, 'k) tracker \<Rightarrow>
   (outcome \<times> ('s, 'g, 'k) tracker) option" where
  "iotex_mqtt_bulk_upload_sampling_data print cr nvs e t =
    (if iotex_mqtt_is_bulk_upload_over (t_cfg t) then Some (Continue, t)
     else do {
       let (_, buffer) = iotex_local_storage_hist nvs (t_nvs t) SID_MQTT_BULK_UPLOAD_DATA (e_buffer e)
          (unat (size_of_block (t_cfg t))) (unat (get_his_block (t_cfg t)));
       guard (length buffer = length (e_buffer e));
       if e_connected e \<and> \<not> ismqttOffline t then
         if e_ping e \<noteq> 0 then Some (Continue, t)
         else do {
           (ret, out, st) \<leftarrow> iotex_mqtt_bin_to_json print cr (e_ok e) buffer (data_channel (t_cfg t)) (e_stack e) (t_secure t);
           let t1 = t\<lparr>t_secure := st\<rparr>;
           t2 \<leftarrow> (if ret = 0 then do { doc \<leftarrow> out; Some (mqttSentOnce (publish doc t1)) } else Some t1);
           let (_, c, s) = iotex_mqtt_inc_current_upload_count nvs (t_cfg t2) (t_nvs t2);
           Some (Continue, t2\<lparr>t_cfg := c, t_nvs := s\<rparr>)
         }
       else Some (Reboot, t)
     })"

definition sampling_and_store_sensor_data ::
  "(json \<Rightarrow> bytes option) \<Rightarrow> 'g crypto \<Rightarrow> 's nvs_ops \<Rightarrow> period \<Rightarrow> ('s, 'g, 'k) tracker \<Rightarrow>
   (outcome \<times> ('s, 'g, 'k) tracker) option" where
  "sampling_and_store_sensor_data print cr nvs e t =
    (if iotex_mqtt_is_need_sampling (t_cfg t) then do {
       (ok, c, s) \<leftarrow> iotex_mqtt_sampling_data_and_store nvs (data_channel (t_cfg t)) (e_readings e) (e_buffer e) (t_cfg t) (t_nvs t);
       if \<not> ok then Some (Continue, t\<lparr>t_cfg := c, t_nvs := s\<rparr>)
       else do {
         let (_, c1, s1) = iotex_mqtt_inc_current_sampling_count nvs c s;
         Some (Continue, t\<lparr>t_cfg := c1, t_nvs := s1\<rparr>)
       }
     } else iotex_mqtt_bulk_upload_sampling_data print cr nvs e t)"

text \<open>
  The work itself; the last component is the delay after which it is submitted again, if it is.  It
  is not submitted again when sending is off.
\<close>

definition send_env_data_work_fn ::
  "(json \<Rightarrow> bytes option) \<Rightarrow> 'g crypto \<Rightarrow> 's nvs_ops \<Rightarrow> period \<Rightarrow> ('s, 'g, 'k) tracker \<Rightarrow>
   (outcome \<times> ('s, 'g, 'k) tracker \<times> u16 option) option" where
  "send_env_data_work_fn print cr nvs e t =
    (if \<not> send_data_enable e then Some (Continue, t, None)
     else if iotex_mqtt_is_bulk_upload (t_cfg t) then do {
       (out, t') \<leftarrow> sampling_and_store_sensor_data print cr nvs e t;
       Some (out, t', if out = Reboot then None else Some (bulk_upload_sampling_freq (t_cfg t')))
     } else do {
       (out, t') \<leftarrow> periodic_publish_sensors_data print cr nvs e t;
       Some (out, t', if out = Reboot then None else Some (iotex_mqtt_get_upload_period (t_cfg t')))
     })"

section \<open>Runs of the device\<close>

text \<open>A period gives three values of each action sensor, and the local buffer has its size.\<close>

definition period_ok :: "period \<Rightarrow> bool" where
  "period_ok e \<longleftrightarrow> readings_ok (e_readings e) \<and> length (e_buffer e) = 128"

text \<open>The block a period added to the batch: it sampled, and the count grew.\<close>

definition sampled :: "period \<Rightarrow> ('s, 'g, 'k) tracker \<Rightarrow> ('s, 'g, 'k) tracker \<Rightarrow> bytes list" where
  "sampled e t t' = (if iotex_mqtt_is_need_sampling (t_cfg t) \<and>
      current_sampling_cnt (t_cfg t') = current_sampling_cnt (t_cfg t) + 1
    then [sample_block (data_channel (t_cfg t)) (e_readings e)] else [])"

text \<open>
  Runs from a state: periods, restarts by the watchdogs of the work or by the power, and responses of
  the server, in any order; with the blocks sampled so far.
\<close>

inductive run for print cr nvs c0 t0 where
  run_start: "run print cr nvs c0 t0 t0 []"
| run_work: "\<lbrakk>run print cr nvs c0 t0 t bs; period_ok e;
      send_env_data_work_fn print cr nvs e t = Some (Continue, t', d)\<rbrakk> \<Longrightarrow>
    run print cr nvs c0 t0 t' (bs @ sampled e t t')"
| run_reboot: "\<lbrakk>run print cr nvs c0 t0 t bs; period_ok e;
      send_env_data_work_fn print cr nvs e t = Some (Reboot, t', d)\<rbrakk> \<Longrightarrow>
    run print cr nvs c0 t0 (restart nvs c0 st t') bs"
| run_power: "run print cr nvs c0 t0 t bs \<Longrightarrow> run print cr nvs c0 t0 (restart nvs c0 st t) bs"
| run_response: "run print cr nvs c0 t0 t bs \<Longrightarrow> run print cr nvs c0 t0 (mqttGetResponse t) bs"

definition documents :: "(bytes \<times> bytes option) list \<Rightarrow> bytes list" where
  "documents taken = concat (map (\<lambda>(b, doc). case doc of None \<Rightarrow> [] | Some d \<Rightarrow> [d]) taken)"

inductive_cases run_workE: "run print cr nvs c0 t0 t bs"

section \<open>The batch\<close>

definition block_size :: "u16 \<Rightarrow> nat" where
  "block_size channel = length (sample_block channel readings0)"

lemma sample_block_size: "readings_ok r \<Longrightarrow> length (sample_block channel r) = block_size channel"
  by (simp add: block_size_def sample_block_def sample_items_def chosen_def readings_ok_def readings0_def split: prod.split)

lemma block_size_bounds: "block_size channel \<le> 63" "block_size channel \<noteq> 0"
proof -
  have "readings_ok readings0" by (simp add: readings_ok_def readings0_def)
  then show "block_size channel \<le> 63" "block_size channel \<noteq> 0"
    using sample_block_length [of readings0 channel] unfolding block_size_def by linarith+
qed

text \<open>
  The state of a batch: the blocks of the batch are the newest of the storage, the counters count
  them and the uploaded ones, and the stored configuration is the one in memory.
\<close>

definition batch_inv ::
  "('s \<Rightarrow> nat \<Rightarrow> bytes list) \<Rightarrow> u16 \<Rightarrow> u16 \<Rightarrow> iotex_mqtt_config \<Rightarrow> 's \<Rightarrow> bytes list \<Rightarrow> nat \<Rightarrow> bool" where
  "batch_inv hist channel N c s batch u \<longleftrightarrow>
    bulk_upload c \<noteq> 0 \<and> data_channel c = channel \<and> bulk_upload_sampling_cnt c = N \<and>
    unat (current_sampling_cnt c) = length batch \<and> unat (current_upload_cnt c) = u \<and>
    length batch \<le> unat N \<and> u < unat N \<and> (u \<noteq> 0 \<longrightarrow> length batch = unat N) \<and>
    newest_of hist s SID_MQTT_BULK_UPLOAD_DATA (rev batch) \<and>
    (\<forall>b\<in>set batch. length b = block_size channel) \<and>
    (\<exists>z. newest_of hist s SID_MQTT_DATA_CHANNEL_CONFIG [cfg_bytes (c\<lparr>size_of_block := z\<rparr>)] \<and>
      (batch \<noteq> [] \<longrightarrow> z = of_nat (block_size channel) \<and> size_of_block c = of_nat (block_size channel)))"

lemma unat_suc_less: "unat (x :: u16) < unat (N :: u16) \<Longrightarrow> unat (x + 1) = Suc (unat x)"
  using unsigned_less [of N, where ?'a=nat] by (simp add: unat_word_ariths)

context nvs_spec
begin

lemma batch_inv_restart:
  assumes "batch_inv hist channel N c s batch u"
  shows "batch_inv hist channel N (iotex_mqtt_load_config nvs c0 s) s batch u"
proof -
  obtain z where z: "newest_of hist s SID_MQTT_DATA_CHANNEL_CONFIG [cfg_bytes (c\<lparr>size_of_block := z\<rparr>)]"
    "batch \<noteq> [] \<longrightarrow> z = of_nat (block_size channel)" using assms by (auto simp: batch_inv_def)
  have "iotex_mqtt_load_config nvs c0 s = c\<lparr>size_of_block := z\<rparr>" by (rule load_stored_config [OF z(1)])
  then show ?thesis using assms z by (auto simp: batch_inv_def)
qed

text \<open>Sampling: the block is not stored, or it is the newest of the batch.\<close>

lemma sampling_step:
  assumes "batch_inv hist channel N c s batch u" "unat N \<le> cap" "iotex_mqtt_is_need_sampling c"
    "readings_ok r" "length buffer = 128"
    "iotex_mqtt_sampling_data_and_store nvs channel r buffer c s = Some (ok, c', s')"
  shows "\<not> ok \<Longrightarrow> batch_inv hist channel N c' s' batch u"
    and "ok \<Longrightarrow> c' = c\<lparr>size_of_block := of_nat (block_size channel)\<rparr> \<and>
      newest_of hist s' SID_MQTT_BULK_UPLOAD_DATA (sample_block channel r # rev batch)"
proof -
  have len: "length batch < cap" using assms(1-3) by (simp add: batch_inv_def iotex_mqtt_is_need_sampling_def word_less_nat_alt)
  let ?d = "sample_block channel r"
  have d: "length ?d = block_size channel" "length ?d < 2 ^ 16" "?d \<noteq> []"
    using sample_block_size [OF assms(4)] block_size_bounds [of channel] by (auto simp del: length_0_conv simp flip: length_greater_0_conv)
  have "(\<not> ok \<longrightarrow> batch_inv hist channel N c' s' batch u) \<and> (ok \<longrightarrow> c' = c\<lparr>size_of_block := of_nat (block_size channel)\<rparr> \<and>
      newest_of hist s' SID_MQTT_BULK_UPLOAD_DATA (?d # rev batch))"
  proof (cases "sensors_fail channel r")
    case True
    then show ?thesis using assms(1,3,6) by (simp add: iotex_mqtt_sampling_data_and_store_def)
  next
    case False
    obtain q where q: "iotex_local_storage_save nvs s SID_MQTT_BULK_UPLOAD_DATA ?d = (q, s')"
      "ok = (q = 0)" "c' = c\<lparr>size_of_block := of_nat (block_size channel)\<rparr>"
      using sampling_stores_block [OF assms(5,4,3) False, of nvs s] assms(6) d(1)
      by (auto simp: set_block_size_def split: prod.splits)
    show ?thesis
    proof (cases "q = 0")
      case True
      then show ?thesis using save_ok [OF q(1) [unfolded True], of "rev batch"] assms(1) d len q by (simp add: batch_inv_def)
    next
      case qn: False
      have k: "newest_of hist s' j xs" if "newest_of hist s j xs" "length xs \<le> cap" for j xs
        using save_other [OF q(1) that(1)] qn d that(2) by simp
      obtain z where z: "newest_of hist s SID_MQTT_DATA_CHANNEL_CONFIG [cfg_bytes (c\<lparr>size_of_block := z\<rparr>)]"
        "batch \<noteq> [] \<longrightarrow> z = of_nat (block_size channel)" using assms(1) by (auto simp: batch_inv_def)
      have "newest_of hist s' SID_MQTT_DATA_CHANNEL_CONFIG [cfg_bytes (c'\<lparr>size_of_block := z\<rparr>)]"
        using k [OF z(1)] cap_pos q(3) by simp
      moreover have "newest_of hist s' SID_MQTT_BULK_UPLOAD_DATA (rev batch)"
        using k assms(1) len by (simp add: batch_inv_def)
      ultimately show ?thesis using assms(1) q z(2) qn by (auto simp: batch_inv_def)
    qed
  qed
  then show "\<not> ok \<Longrightarrow> batch_inv hist channel N c' s' batch u"
    and "ok \<Longrightarrow> c' = c\<lparr>size_of_block := of_nat (block_size channel)\<rparr> \<and>
      newest_of hist s' SID_MQTT_BULK_UPLOAD_DATA (?d # rev batch)" by auto
qed

text \<open>Saving the configuration keeps the blocks and restores the agreement with the stored configuration.\<close>

lemma batch_inv_saved:
  assumes "save_mqtt_config nvs c s = (True, s')" "newest_of hist s SID_MQTT_BULK_UPLOAD_DATA (rev batch)"
    "bulk_upload c \<noteq> 0" "data_channel c = channel" "bulk_upload_sampling_cnt c = N"
    "unat (current_sampling_cnt c) = length batch" "unat (current_upload_cnt c) = u"
    "length batch \<le> unat N" "u < unat N" "u \<noteq> 0 \<longrightarrow> length batch = unat N" "unat N \<le> cap"
    "\<forall>b\<in>set batch. length b = block_size channel" "batch \<noteq> [] \<longrightarrow> size_of_block c = of_nat (block_size channel)"
  shows "batch_inv hist channel N c s' batch u"
proof -
  have "newest_of hist s' SID_MQTT_BULK_UPLOAD_DATA (rev batch)"
    using save_mqtt_config_other [OF assms(1,2)] assms(8,11) by simp
  moreover have "newest_of hist s' SID_MQTT_DATA_CHANNEL_CONFIG [cfg_bytes (c\<lparr>size_of_block := size_of_block c\<rparr>)]"
    using save_mqtt_config_stores [OF assms(1)] by simp
  ultimately show ?thesis unfolding batch_inv_def
    by (intro conjI exI [of _ "size_of_block c"]) (use assms(3-13) in blast)+
qed

text \<open>A period that samples.\<close>

lemma sampling_period:
  assumes "batch_inv hist channel N (t_cfg t) (t_nvs t) batch u" "unat N \<le> cap" "\<And>c s. fst (save_mqtt_config nvs c s)"
    "period_ok e" "iotex_mqtt_is_need_sampling (t_cfg t)"
    "sampling_and_store_sensor_data print cr nvs e t = Some (out, t')"
  shows "out = Continue \<and> t_log t' = t_log t \<and> batch_inv hist channel N (t_cfg t') (t_nvs t') (batch @ sampled e t t') u"
proof -
  let ?c = "t_cfg t" and ?d = "sample_block channel (e_readings e)"
  have ch: "data_channel ?c = channel" "bulk_upload_sampling_cnt ?c = N" "unat (current_sampling_cnt ?c) = length batch"
    using assms(1) by (simp_all add: batch_inv_def)
  have lt: "length batch < unat N" using assms(5) ch by (simp add: iotex_mqtt_is_need_sampling_def word_less_nat_alt)
  then have u: "u = 0" "current_upload_cnt ?c = 0" using assms(1) by (auto simp: batch_inv_def unat_eq_0)
  obtain ok c s where st: "iotex_mqtt_sampling_data_and_store nvs channel (e_readings e) (e_buffer e) ?c (t_nvs t) = Some (ok, c, s)"
    using assms(5,6) ch(1) by (auto simp: sampling_and_store_sensor_data_def split: bind_splits)
  have step: "\<not> ok \<Longrightarrow> batch_inv hist channel N c s batch u"
    "ok \<Longrightarrow> c = ?c\<lparr>size_of_block := of_nat (block_size channel)\<rparr> \<and>
      newest_of hist s SID_MQTT_BULK_UPLOAD_DATA (?d # rev batch)"
    using sampling_step [OF assms(1,2,5) _ _ st] assms(4) by (simp_all add: period_ok_def)
  show ?thesis
  proof (cases ok)
    case False
    then have t': "out = Continue" "t' = t\<lparr>t_cfg := c, t_nvs := s\<rparr>"
      using assms(5,6) ch(1) st by (auto simp: sampling_and_store_sensor_data_def)
    have "current_sampling_cnt c = current_sampling_cnt ?c"
      using step(1) [OF False] ch(3) by (simp add: batch_inv_def word_unat_eq_iff)
    then show ?thesis using t' step(1) [OF False] by (simp add: sampled_def)
  next
    case True
    define c1 where "c1 = ?c\<lparr>size_of_block := of_nat (block_size channel), current_sampling_cnt := current_sampling_cnt ?c + 1\<rparr>"
    have c: "c = ?c\<lparr>size_of_block := of_nat (block_size channel)\<rparr>" using step(2) True by simp
    have n1: "unat (current_sampling_cnt ?c + 1) = Suc (length batch)"
      using unat_suc_less [of "current_sampling_cnt ?c" N] lt ch(3) by simp
    have "c1\<lparr>current_upload_cnt := 0\<rparr> = c1" using u(2) by (simp add: c1_def)
    then have inc: "\<exists>b. iotex_mqtt_inc_current_sampling_count nvs c s = (b, c1, snd (save_mqtt_config nvs c1 s))"
      by (auto simp: iotex_mqtt_inc_current_sampling_count_def c c1_def Let_def)
    obtain s1 where s1: "save_mqtt_config nvs c1 s = (True, s1)" using assms(3) [of c1 s] by (metis prod.collapse)
    have t': "out = Continue" "t' = t\<lparr>t_cfg := c1, t_nvs := s1\<rparr>"
      using assms(5,6) ch(1) st True inc s1 by (auto simp: sampling_and_store_sensor_data_def)
    have "batch_inv hist channel N c1 s1 (batch @ [?d]) u"
      by (rule batch_inv_saved [OF s1])
        (use assms(1,2,4) step(2) True lt n1 u in \<open>auto simp: batch_inv_def c1_def period_ok_def sample_block_size\<close>)
    moreover have "sampled e t t' = [?d]" using assms(5) t'(2) ch(1) by (simp add: sampled_def c1_def)
    ultimately show ?thesis using t' by simp
  qed
qed

lemma read_block:
  assumes "batch_inv hist channel N c s batch u" "i < length batch"
  shows "iotex_local_storage_hist nvs s SID_MQTT_BULK_UPLOAD_DATA buffer (block_size channel) (length batch - i - 1) =
      (0, into buffer (batch ! i))"
proof -
  have b: "newest_of hist s SID_MQTT_BULK_UPLOAD_DATA (rev batch)" "\<forall>b\<in>set batch. length b = block_size channel"
    using assms(1) by (auto simp: batch_inv_def)
  have nth: "rev batch ! (length batch - i - 1) = batch ! i" using assms(2) by (simp add: rev_nth)
  have "length (batch ! i) = block_size channel" using b(2) assms(2) by simp
  then show ?thesis using read_newest [OF b(1), of "length batch - i - 1" "block_size channel" buffer] assms(2) nth by simp
qed

text \<open>A period that uploads: nothing happens, or the next block of the batch is taken.\<close>

lemma read_batch:
  assumes "batch_inv hist channel N c s batch u" "length batch = unat N" "length buffer = 128"
  shows "iotex_local_storage_hist nvs s SID_MQTT_BULK_UPLOAD_DATA buffer (unat (size_of_block c)) (unat (get_his_block c)) =
      (0, into buffer (batch ! u)) \<and> into buffer (batch ! u) = batch ! u @ drop (block_size channel) buffer \<and>
      length (into buffer (batch ! u)) = 128"
proof -
  have i: "u < unat N" "unat (current_upload_cnt c) = u" "bulk_upload_sampling_cnt c = N" "batch \<noteq> []"
    "newest_of hist s SID_MQTT_BULK_UPLOAD_DATA (rev batch)" "\<forall>b\<in>set batch. length b = block_size channel"
    using assms(1,2) by (auto simp: batch_inv_def)
  have sz: "unat (size_of_block c) = block_size channel"
    using assms(1) i(4) block_size_bounds [of channel] by (auto simp: batch_inv_def unat_of_nat_id)
  have "unat (N - current_upload_cnt c) = unat N - u" using i by (subst unat_sub) (simp_all add: word_le_nat_alt)
  moreover have "unat (N - current_upload_cnt c - 1) = unat (N - current_upload_cnt c) - 1"
    using calculation i(1) by (intro unat_minus_one) auto
  ultimately have h: "unat (get_his_block c) = unat N - u - 1"
    using i(1-3) by (simp add: get_his_block_def word_less_nat_alt)
  have len: "length (batch ! u) = block_size channel" using i(1,6) assms(2) by simp
  have "iotex_local_storage_hist nvs s SID_MQTT_BULK_UPLOAD_DATA buffer (block_size channel) (unat N - u - 1) =
      (0, into buffer (batch ! u))"
    using read_block [OF assms(1), of u buffer] i(1) assms(2) by simp
  then show ?thesis using sz h len block_size_bounds(1) [of channel] assms(3) by (simp add: into_def)
qed

lemma upload_period:
  assumes "batch_inv hist channel N (t_cfg t) (t_nvs t) batch u" "unat N \<le> cap" "\<And>c s. fst (save_mqtt_config nvs c s)"
    "period_ok e" "\<not> iotex_mqtt_is_need_sampling (t_cfg t)"
    "sampling_and_store_sensor_data print cr nvs e (t :: ('s, 'g, 'k) tracker) = Some (out, t')"
  shows "(t' = t) \<or> (\<exists>doc. out = Continue \<and> length batch = unat N \<and>
      t_log t' = t_log t @ (case doc of None \<Rightarrow> [] | Some d \<Rightarrow> [d]) \<and>
      (\<forall>d. doc = Some d \<longrightarrow> renders print cr TYPE('k) channel (batch ! u) d) \<and>
      (if Suc u = unat N then batch_inv hist channel N (t_cfg t') (t_nvs t') [] 0
       else batch_inv hist channel N (t_cfg t') (t_nvs t') batch (Suc u)))"
proof -
  let ?c = "t_cfg t"
  have i: "data_channel ?c = channel" "bulk_upload_sampling_cnt ?c = N" "unat (current_sampling_cnt ?c) = length batch"
    "u < unat N" "unat (current_upload_cnt ?c) = u" "length batch \<le> unat N"
    using assms(1) by (simp_all add: batch_inv_def)
  have full: "length batch = unat N" using assms(5) i by (simp add: iotex_mqtt_is_need_sampling_def word_less_nat_alt)
  have no: "\<not> iotex_mqtt_is_bulk_upload_over ?c" using i by (simp add: iotex_mqtt_is_bulk_upload_over_def word_le_nat_alt)
  have b: "length (e_buffer e) = 128" using assms(4) by (simp add: period_ok_def)
  note rd = read_batch [OF assms(1) full b]
  let ?buf = "into (e_buffer e) (batch ! u)"
  have run: "iotex_mqtt_bulk_upload_sampling_data print cr nvs e t = Some (out, t')"
    using assms(5,6) by (simp add: sampling_and_store_sensor_data_def)
  show ?thesis
  proof (cases "e_connected e \<and> \<not> ismqttOffline t \<and> e_ping e = 0")
    case False
    then show ?thesis using run no rd b by (auto simp: iotex_mqtt_bulk_upload_sampling_data_def split: if_splits)
  next
    case True
    obtain ret ou st where j: "iotex_mqtt_bin_to_json print cr (e_ok e) ?buf channel (e_stack e) (t_secure t) = Some (ret, ou, st)"
      using run no rd b True i(1) by (auto simp: iotex_mqtt_bulk_upload_sampling_data_def split: bind_splits)
    define doc where "doc = (if ret = 0 then ou else None)"
    let ?inc = "iotex_mqtt_inc_current_upload_count nvs ?c (t_nvs t)"
    have t': "out = Continue" "t_log t' = t_log t @ (case doc of None \<Rightarrow> [] | Some d \<Rightarrow> [d])"
      "t_cfg t' = fst (snd ?inc)" "t_nvs t' = snd (snd ?inc)"
      using run no rd b True i(1) j
      by (auto simp: iotex_mqtt_bulk_upload_sampling_data_def doc_def mqttSentOnce_def publish_def split_beta Let_def
          split: if_splits bind_splits)
    have rend: "renders print cr TYPE('k) channel (batch ! u) d" if "doc = Some d" for d
      using j rd that unfolding renders_def doc_def
      by (intro exI [of _ "e_ok e"] exI [of _ "drop (block_size channel) (e_buffer e)"] exI [of _ "e_stack e"]
          exI [of _ "t_secure t"] exI [of _ st]) (auto split: if_splits)
    have u1: "unat (current_upload_cnt ?c + 1) = Suc u" using unat_suc_less [of "current_upload_cnt ?c" N] i(4,5) by simp
    define c1 where "c1 = (if Suc u = unat N then ?c\<lparr>current_upload_cnt := 0, current_sampling_cnt := 0\<rparr>
      else ?c\<lparr>current_upload_cnt := current_upload_cnt ?c + 1\<rparr>)"
    have inc: "fst (snd ?inc) = c1" "snd (snd ?inc) = snd (save_mqtt_config nvs c1 (t_nvs t))"
      using i(2,4) u1 by (auto simp: iotex_mqtt_inc_current_upload_count_def c1_def Let_def word_le_nat_alt)
    obtain s1 where s1: "save_mqtt_config nvs c1 (t_nvs t) = (True, s1)" using assms(3) [of c1 "t_nvs t"] by (metis prod.collapse)
    have "if Suc u = unat N then batch_inv hist channel N c1 s1 [] 0 else batch_inv hist channel N c1 s1 batch (Suc u)"
    proof (cases "Suc u = unat N")
      case True
      have "batch_inv hist channel N c1 s1 [] 0"
        by (rule batch_inv_saved [OF s1]) (use assms(1,2) True newest_Nil in \<open>auto simp: batch_inv_def c1_def\<close>)
      then show ?thesis using True by simp
    next
      case False
      have "batch_inv hist channel N c1 s1 batch (Suc u)"
        by (rule batch_inv_saved [OF s1]) (use assms(1,2) False full u1 i(4) in \<open>auto simp: batch_inv_def c1_def\<close>)
      then show ?thesis using False by simp
    qed
    then show ?thesis using t' inc s1 full rend by (intro disjI2 exI [of _ doc]) auto
  qed
qed

lemma restart_fields [simp]:
  "t_cfg (restart nvs c0 st t) = iotex_mqtt_load_config nvs c0 (t_nvs t)" "t_nvs (restart nvs c0 st t) = t_nvs t"
  "t_log (restart nvs c0 st t) = t_log t"
  by (simp_all add: restart_def)

text \<open>What was published of the blocks taken: those that could be rendered.\<close>

lemma documents_append [simp]: "documents (a @ b) = documents a @ documents b"
  by (simp add: documents_def)

lemma documents_simps [simp]: "documents [] = []" "documents [(b, doc)] = (case doc of None \<Rightarrow> [] | Some d \<Rightarrow> [d])"
  by (simp_all add: documents_def)

text \<open>All periods: the blocks sampled are those taken, in order, and those still in the batch.\<close>

lemma work_period:
  assumes "batch_inv hist channel N (t_cfg t) (t_nvs t) batch u" "unat N \<le> cap" "\<And>c s. fst (save_mqtt_config nvs c s)"
    "period_ok e" "send_env_data_work_fn print cr nvs e (t :: ('s, 'g, 'k) tracker) = Some (out, t', d)"
  shows "\<exists>taken batch' u'. batch_inv hist channel N (t_cfg t') (t_nvs t') batch' u' \<and>
    drop u batch @ sampled e t t' = map fst taken @ drop u' batch' \<and>
    (out = Reboot \<longrightarrow> sampled e t t' = []) \<and>
    t_log t' = t_log t @ documents taken \<and>
    (\<forall>(b, doc)\<in>set taken. \<forall>d. doc = Some d \<longrightarrow> renders print cr TYPE('k) channel b d)"
proof -
  have on: "bulk_upload (t_cfg t) \<noteq> 0" and ul: "u \<le> length batch"
    using assms(1) by (auto simp: batch_inv_def)
  have nop: ?thesis if "t' = t"
    using that assms(1) by (intro exI [of _ "[]"] exI [of _ batch] exI [of _ u]) (auto simp: sampled_def)
  show ?thesis
  proof (cases "send_data_enable e")
    case False
    then show ?thesis using assms(5) nop by (simp add: send_env_data_work_fn_def)
  next
    case en: True
    then have w: "sampling_and_store_sensor_data print cr nvs e t = Some (out, t')"
      using assms(5) on by (auto simp: send_env_data_work_fn_def iotex_mqtt_is_bulk_upload_def split: bind_splits)
    show ?thesis
    proof (cases "iotex_mqtt_is_need_sampling (t_cfg t)")
      case True
      show ?thesis using sampling_period [OF assms(1-4) True w] ul
        by (intro exI [of _ "[]"] exI [of _ "batch @ sampled e t t'"] exI [of _ u]) auto
    next
      case False
      have ns: "sampled e t t' = []" using False by (simp add: sampled_def)
      from upload_period [OF assms(1-4) False w] show ?thesis
      proof
        assume "\<exists>doc. out = Continue \<and> length batch = unat N \<and>
          t_log t' = t_log t @ (case doc of None \<Rightarrow> [] | Some d \<Rightarrow> [d]) \<and>
          (\<forall>d. doc = Some d \<longrightarrow> renders print cr TYPE('k) channel (batch ! u) d) \<and>
          (if Suc u = unat N then batch_inv hist channel N (t_cfg t') (t_nvs t') [] 0
           else batch_inv hist channel N (t_cfg t') (t_nvs t') batch (Suc u))"
        then obtain doc where doc: "length batch = unat N" "t_log t' = t_log t @ (case doc of None \<Rightarrow> [] | Some d \<Rightarrow> [d])"
          "\<forall>d. doc = Some d \<longrightarrow> renders print cr TYPE('k) channel (batch ! u) d"
          "if Suc u = unat N then batch_inv hist channel N (t_cfg t') (t_nvs t') [] 0
           else batch_inv hist channel N (t_cfg t') (t_nvs t') batch (Suc u)" by blast
        have "u < length batch" using assms(1) doc(1) by (simp add: batch_inv_def)
        then have dr: "drop u batch = batch ! u # drop (Suc u) batch" by (rule Cons_nth_drop_Suc [symmetric])
        show ?thesis
        proof (cases "Suc u = unat N")
          case True
          then show ?thesis using doc dr ns
            by (intro exI [of _ "[(batch ! u, doc)]"] exI [of _ "[]"] exI [of _ 0]) auto
        next
          case False
          then show ?thesis using doc dr ns
            by (intro exI [of _ "[(batch ! u, doc)]"] exI [of _ batch] exI [of _ "Suc u"]) auto
        qed
      qed (rule nop)
    qed
  qed
qed

lemma run_accounts:
  assumes "run print cr nvs c0 (t0 :: ('s, 'g, 'k) tracker) t bs" "unat N \<le> cap" "\<And>c s. fst (save_mqtt_config nvs c s)"
    "batch_inv hist channel N (t_cfg t0) (t_nvs t0) [] 0" "t_log t0 = []"
  shows "\<exists>taken batch u. batch_inv hist channel N (t_cfg t) (t_nvs t) batch u \<and> bs = map fst taken @ drop u batch \<and>
    t_log t = documents taken \<and>
    (\<forall>(b, doc)\<in>set taken. \<forall>d. doc = Some d \<longrightarrow> renders print cr TYPE('k) channel b d)"
  using assms(1)
proof (induction rule: run.induct)
  case run_start
  then show ?case using assms(4,5) by (intro exI [of _ "[]"] exI [of _ "[]"] exI [of _ 0]) simp
next
  case (run_work t bs e t' d)
  then obtain taken batch u where IH: "batch_inv hist channel N (t_cfg t) (t_nvs t) batch u" "bs = map fst taken @ drop u batch"
    "t_log t = documents taken"
    "\<forall>(b, doc)\<in>set taken. \<forall>d. doc = Some d \<longrightarrow> renders print cr TYPE('k) channel b d" by blast
  obtain taken2 batch' u' where w: "batch_inv hist channel N (t_cfg t') (t_nvs t') batch' u'"
    "drop u batch @ sampled e t t' = map fst taken2 @ drop u' batch'"
    "t_log t' = t_log t @ documents taken2"
    "\<forall>(b, doc)\<in>set taken2. \<forall>d. doc = Some d \<longrightarrow> renders print cr TYPE('k) channel b d"
    using work_period [OF IH(1) assms(2,3) run_work.hyps(2,3)] by blast
  then show ?case using IH by (intro exI [of _ "taken @ taken2"] exI [of _ batch'] exI [of _ u']) auto
next
  case (run_reboot t bs e t' d st)
  then obtain taken batch u where IH: "batch_inv hist channel N (t_cfg t) (t_nvs t) batch u" "bs = map fst taken @ drop u batch"
    "t_log t = documents taken"
    "\<forall>(b, doc)\<in>set taken. \<forall>d. doc = Some d \<longrightarrow> renders print cr TYPE('k) channel b d" by blast
  obtain taken2 batch' u' where w: "batch_inv hist channel N (t_cfg t') (t_nvs t') batch' u'"
    "drop u batch = map fst taken2 @ drop u' batch'"
    "t_log t' = t_log t @ documents taken2"
    "\<forall>(b, doc)\<in>set taken2. \<forall>d. doc = Some d \<longrightarrow> renders print cr TYPE('k) channel b d"
    using work_period [OF IH(1) assms(2,3) run_reboot.hyps(2,3)] by auto
  then show ?case using IH batch_inv_restart
    by (intro exI [of _ "taken @ taken2"] exI [of _ batch'] exI [of _ u']) auto
next
  case (run_power t bs st)
  then show ?case using batch_inv_restart by fastforce
next
  case (run_response t bs)
  then show ?case by (auto simp: mqttGetResponse_def)
qed

end


text \<open>A device for examples: only the time is sampled, batches have two blocks.\<close>

definition config0 :: iotex_mqtt_config where
  "config0 = (initial_config 0 5)\<lparr>bulk_upload := 1, bulk_upload_sampling_cnt := 2\<rparr>"

definition tracker0 where
  "tracker0 = \<lparr>t_cfg = config0, t_nvs = (\<lambda>i. [])(SID_MQTT_DATA_CHANNEL_CONFIG := [cfg_bytes config0]),
     t_secure = secure0, t_trans_key = 2, mqttSentCount = 0, t_log = []\<rparr>"

definition period0 :: period where
  "period0 = \<lparr>send_data_enable = True, e_connected = True, e_ping = 0, e_readings = readings0, e_stack = stack0,
     e_ok = (\<lambda>i. True), e_buffer = replicate 128 0\<rparr>"

definition work0 where
  "work0 = the (send_env_data_work_fn (\<lambda>j. Some [7]) (toy_crypto (256 ^ 31) (256 ^ 31)) ref_nvs period0 tracker0)"

lemma config0_inv:
  "batch_inv (\<lambda>s. s) 0 2 config0 ((\<lambda>i. [])(SID_MQTT_DATA_CHANNEL_CONFIG := [cfg_bytes config0])) [] 0"
proof -
  have "config0\<lparr>size_of_block := 0\<rparr> = config0" by (simp add: config0_def initial_config_def)
  then show ?thesis unfolding batch_inv_def
    by (intro conjI exI [of _ 0]) (simp_all add: newest_of_def, simp_all add: config0_def initial_config_def)
qed

lemma work0_run:
  "run (\<lambda>j. Some [7]) (toy_crypto (256 ^ 31) (256 ^ 31)) ref_nvs config0 tracker0 (fst (snd work0))
     ([] @ sampled period0 tracker0 (fst (snd work0)))"
proof (rule run_work [OF run_start])
  have rd: "readings_ok readings0" by (simp add: readings_ok_def readings0_def)
  then show "period_ok period0" by (simp add: period_ok_def period0_def)
  have n: "iotex_mqtt_is_need_sampling config0"
    by (simp add: iotex_mqtt_is_need_sampling_def config0_def initial_config_def)
  have f: "\<not> sensors_fail 0 readings0" by (simp add: sensors_fail_def)
  have c: "data_channel config0 = 0" "bulk_upload config0 = 1" by (simp_all add: config0_def initial_config_def)
  let ?s = "(\<lambda>i. [])(SID_MQTT_DATA_CHANNEL_CONFIG := [cfg_bytes config0])"
  obtain r s' where st: "iotex_mqtt_sampling_data_and_store ref_nvs 0 readings0 (replicate 128 0) config0 ?s =
      Some (r, set_block_size (of_nat (length (sample_block 0 readings0))) config0, s')"
    using sampling_stores_block [OF _ rd n f, of "replicate 128 0" ref_nvs ?s] by (simp add: Let_def split: prod.splits)
  show "send_env_data_work_fn (\<lambda>j. Some [7]) (toy_crypto (256 ^ 31) (256 ^ 31)) ref_nvs period0 tracker0 =
      Some (Continue, fst (snd work0), snd (snd work0))"
    using st n c by (simp add: work0_def send_env_data_work_fn_def period0_def tracker0_def
        iotex_mqtt_is_bulk_upload_def sampling_and_store_sensor_data_def Let_def split: prod.split)
qed


end
