(* ===== verification/Modem.thy ===== *)
theory Modem
  imports JsonParse CFormat
begin

text \<open>
  \<^verbatim>\<open>modem/modem_helper.c\<close>: what the tracker asks its modem.  The modem is a parameter: a response is
  the contents of the caller's buffer after the call, whose error code is only printed.  A search
  that finds nothing, and an index outside an array, are undefined behaviour.
\<close>

section \<open>The clock\<close>

definition isLeap :: "u32 \<Rightarrow> bool" where
  "isLeap year \<longleftrightarrow> year mod 4 = 0 \<and> (year mod 100 \<noteq> 0 \<or> year mod 400 = 0)"

definition TIMESTAMP_STR_LEN :: nat where "TIMESTAMP_STR_LEN = 50"

text \<open>Two digits of the response as a number: character arithmetic, then unsigned.\<close>

definition two_digits :: "bytes \<Rightarrow> nat \<Rightarrow> u32 option" where
  "two_digits buf i = do {
     a \<leftarrow> rd buf i; b \<leftarrow> rd buf (i + 1);
     Some ((ucast a - 48) * 10 + (ucast b - 48))
   }"

definition daysPerMonth :: "u32 list" where
  "daysPerMonth = [0, 31, 28, 31, 30, 31, 30, 31, 31, 30, 31, 30, 31]"

fun accumulate :: "nat \<Rightarrow> nat \<Rightarrow> u32 list \<Rightarrow> u32 list" where
  "accumulate i 0 days = days"
| "accumulate i (Suc n) days = accumulate (i + 1) n (days[i := days ! i + days ! (i - 1)])"

definition month_table :: "u32 \<Rightarrow> u32 list" where
  "month_table YY = accumulate 1 12 (if isLeap (YY + 1900) then daysPerMonth[2 := 29] else daysPerMonth)"

text \<open>The formula in 32-bit arithmetic, before its conversion to floating point, which is exact.\<close>

definition modem_epoch :: "bytes \<Rightarrow> u32 option" where
  "modem_epoch cclk_r_buf = do {
     y \<leftarrow> two_digits cclk_r_buf 8;
     let YY = y + 100;
     MM \<leftarrow> two_digits cclk_r_buf 11;
     DD \<leftarrow> two_digits cclk_r_buf 14;
     hh \<leftarrow> two_digits cclk_r_buf 17;
     mm \<leftarrow> two_digits cclk_r_buf 20;
     ss \<leftarrow> two_digits cclk_r_buf 23;
     m \<leftarrow> rd (month_table YY) (unat (MM - 1));
     Some (ss + mm * 60 + hh * 3600 + (m + DD - 1) * 86400 + (YY - 70) * 31536000 + ((YY - 69) div 4) * 86400 -
       ((YY - 1) div 100) * 86400 + ((YY + 299) div 400) * 86400)
   }"

definition iotex_modem_get_clock :: "bytes \<Rightarrow> bytes \<Rightarrow> bytes option" where
  "iotex_modem_get_clock cclk_r_buf epoch_buf = do {
     epoch \<leftarrow> modem_epoch cclk_r_buf;
     (_, epoch_buf') \<leftarrow> snprintf epoch_buf 0 (length epoch_buf) (asc ''%u'') [FmtU (unat epoch)];
     Some epoch_buf'
   }"

definition iotex_modem_get_clock_raw :: "bytes \<Rightarrow> u32 option" where
  "iotex_modem_get_clock_raw cclk_r_buf = modem_epoch cclk_r_buf"

section \<open>Identity, signal and battery\<close>

definition iotex_modem_get_imei :: "int \<Rightarrow> bytes \<Rightarrow> bytes" where
  "iotex_modem_get_imei err imei_buf = (if err \<noteq> 0 then asc ''Unknown'' @ [0] else imei_buf)"

definition iotex_model_get_signal_quality :: "bytes \<Rightarrow> u32 option" where
  "iotex_model_get_signal_quality snr_ack = do {
     p1 \<leftarrow> after_char (ch CHR '','') snr_ack 0;
     p2 \<leftarrow> after_char (ch CHR '','') snr_ack p1;
     p3 \<leftarrow> after_char (ch CHR '','') snr_ack p2;
     p4 \<leftarrow> after_char (ch CHR '','') snr_ack p3;
     p5 \<leftarrow> after_char (ch CHR '','') snr_ack p4;
     a \<leftarrow> rd snr_ack p5;
     b \<leftarrow> rd snr_ack (p5 + 1);
     c_atoi [a, b, 0]
   }"

text \<open>The voltage in millivolts; the division by 1000 is floating-point arithmetic.\<close>

definition battery_millivolts :: "bytes \<Rightarrow> u32 option" where
  "battery_millivolts vbat_ack = do {
     p \<leftarrow> after_char (ch CHR '':'') vbat_ack 0;
     v \<leftarrow> rd_bytes vbat_ack (p + 1) 4;
     c_atoi (v @ [0])
   }"

definition iotex_modem_get_battery_voltage :: "(u32 \<Rightarrow> 'f) \<Rightarrow> bytes \<Rightarrow> 'f option" where
  "iotex_modem_get_battery_voltage div1000 vbat_ack = map_option div1000 (battery_millivolts vbat_ack)"

text \<open>Whether the device is switched off; \<^verbatim>\<open>below\<close> is the comparison with 3.3.\<close>

definition CheckPower :: "(u32 \<Rightarrow> 'f) \<Rightarrow> ('f \<Rightarrow> bool) \<Rightarrow> bytes \<Rightarrow> bool option" where
  "CheckPower div1000 below vbat_ack = map_option below (iotex_modem_get_battery_voltage div1000 vbat_ack)"

section \<open>The time the formula means\<close>

text \<open>Counting days: whole years since 1970, whole months of the year, days of the month.\<close>

definition leap :: "nat \<Rightarrow> bool" where
  "leap y \<longleftrightarrow> 4 dvd y \<and> (\<not> 100 dvd y \<or> 400 dvd y)"

definition month_days :: "nat \<Rightarrow> nat \<Rightarrow> nat" where
  "month_days y m = (if m = 2 then if leap y then 29 else 28 else if m \<in> {4, 6, 9, 11} then 30 else 31)"

definition unix_time :: "nat \<Rightarrow> nat \<Rightarrow> nat \<Rightarrow> nat \<Rightarrow> nat \<Rightarrow> nat \<Rightarrow> nat" where
  "unix_time y m d h mi s =
    ((\<Sum>k\<leftarrow>[1970..<y]. if leap k then 366 else 365) + (\<Sum>k\<leftarrow>[1..<m]. month_days y k) + (d - 1)) * 86400 +
    h * 3600 + mi * 60 + s"

definition digits2 :: "nat \<Rightarrow> bytes" where
  "digits2 n = [of_nat (n div 10) + 48, of_nat (n mod 10) + 48]"

text \<open>The response of the modem to \<^verbatim>\<open>AT+CCLK?\<close>, a date of this century.\<close>

definition cclk_response :: "nat \<Rightarrow> nat \<Rightarrow> nat \<Rightarrow> nat \<Rightarrow> nat \<Rightarrow> nat \<Rightarrow> bytes \<Rightarrow> bytes" where
  "cclk_response yy m d h mi s rest =
    asc ''+CCLK: '' @ [0x22] @ digits2 yy @ asc ''/'' @ digits2 m @ asc ''/'' @ digits2 d @ asc '','' @
    digits2 h @ asc '':'' @ digits2 mi @ asc '':'' @ digits2 s @ rest"

lemma two_digits_digits2:
  assumes "n < 100" "length P = i"
  shows "two_digits (P @ digits2 n @ r) i = Some (of_nat n)"
proof -
  have u: "(ucast (of_nat k + 48 :: u8) :: u32) = of_nat k + 48" if "k < 10" for k
  proof -
    have "(ucast (of_nat k + 48 :: u8) :: u32) = of_nat (unat (of_nat k + 48 :: u8))" by simp
    then show ?thesis using that by (simp add: unat_digit del: of_nat_unat)
  qed
  have "(of_nat n :: u32) = of_nat (n div 10) * 10 + of_nat (n mod 10)"
    by (metis div_mult_mod_eq of_nat_add of_nat_mult of_nat_numeral)
  then show ?thesis using assms u [of "n div 10"] u [of "n mod 10"]
    by (simp add: two_digits_def digits2_def rd_def nth_append less_mult_imp_div_less)
qed

lemma length_digits2 [simp]: "length (digits2 n) = 2"
  by (simp add: digits2_def)

text \<open>The leap days since 1970, year by year of this century.\<close>

lemma leap_century:
  assumes "yy < 100"
  shows "leap (2000 + yy) \<longleftrightarrow> 4 dvd yy"
proof -
  have "4 dvd 2000 + yy \<longleftrightarrow> 4 dvd yy" "100 dvd 2000 + yy \<longleftrightarrow> 100 dvd yy" "400 dvd 2000 + yy \<longleftrightarrow> 400 dvd yy"
    by (rule dvd_add_right_iff, simp)+
  moreover have "100 dvd yy \<longleftrightarrow> yy = 0" "400 dvd yy \<longleftrightarrow> yy = 0" using assms by (auto dest: dvd_imp_le)
  ultimately show ?thesis unfolding leap_def by auto
qed

lemma year_days: "yy \<le> 100 \<Longrightarrow>
  (\<Sum>k\<leftarrow>[1970..<2000 + yy]. if leap k then 366 else 365) = (yy + 30) * 365 + (yy + 31) div 4"
proof (induction yy)
  case 0
  show ?case by (simp add: upt_rec leap_def)
next
  case (Suc yy)
  have "[1970..<2000 + Suc yy] = [1970..<2000 + yy] @ [2000 + yy]" using upt_Suc_append [of 1970 "2000 + yy"] by simp
  then have "(\<Sum>k\<leftarrow>[1970..<2000 + Suc yy]. if leap k then 366 else 365) =
      (yy + 30) * 365 + (yy + 31) div 4 + (if 4 dvd yy then 366 else 365)"
    using Suc leap_century [of yy] by (simp only: map_append sum_list_append) simp
  moreover have "(Suc yy + 31) div 4 = (yy + 31) div 4 + (if 4 dvd yy then 1 else 0)" by presburger
  ultimately show ?case by simp
qed

lemma isLeap_eq:
  assumes "yy < 100"
  shows "isLeap (of_nat yy + 100 + 1900) = leap (2000 + yy)"
proof -
  have "of_nat yy + 100 + 1900 = (of_nat (2000 + yy) :: u32)" by simp
  moreover have "unat (of_nat (2000 + yy) :: u32) = 2000 + yy" using assms by (intro unat_of_nat_id) simp
  ultimately show ?thesis unfolding isLeap_def leap_def word_unat_eq_iff unat_mod_distrib
    by (simp add: dvd_eq_mod_eq_0)
qed

lemma month_tables:
  "accumulate 1 12 daysPerMonth = [0, 31, 59, 90, 120, 151, 181, 212, 243, 273, 304, 334, 365]"
  "accumulate 1 12 (daysPerMonth[2 := 29]) = [0, 31, 60, 91, 121, 152, 182, 213, 244, 274, 305, 335, 366]"
  by (simp_all add: daysPerMonth_def numeral_eq_Suc)

definition month_starts :: "bool \<Rightarrow> nat list" where
  "month_starts l = (if l then [0, 31, 60, 91, 121, 152, 182, 213, 244, 274, 305, 335, 366]
     else [0, 31, 59, 90, 120, 151, 181, 212, 243, 273, 304, 334, 365])"

lemma month_sums:
  assumes "1 \<le> m" "m \<le> 12"
  shows "(\<Sum>k\<leftarrow>[1..<m]. month_days y k) = month_starts (leap y) ! (m - 1) \<and> month_starts (leap y) ! (m - 1) \<le> 335"
proof -
  have "m = 1 \<or> m = 2 \<or> m = 3 \<or> m = 4 \<or> m = 5 \<or> m = 6 \<or> m = 7 \<or> m = 8 \<or> m = 9 \<or> m = 10 \<or> m = 11 \<or> m = 12"
    using assms by presburger
  then show ?thesis by (elim disjE) (simp_all add: upt_rec month_days_def month_starts_def)
qed

lemma month_table_days:
  assumes "yy < 100" "1 \<le> m" "m \<le> 12"
  shows "rd (month_table (of_nat yy + 100)) (m - 1) = Some (of_nat (\<Sum>k\<leftarrow>[1..<m]. month_days (2000 + yy) k)) \<and>
    (\<Sum>k\<leftarrow>[1..<m]. month_days (2000 + yy) k) \<le> 335"
proof -
  have t: "month_table (of_nat yy + 100) = map of_nat (month_starts (leap (2000 + yy)))"
    unfolding month_table_def isLeap_eq [OF assms(1)]
    by (cases "leap (2000 + yy)") (simp_all only: if_True if_False month_tables month_starts_def, simp_all)
  have "m - 1 < length (month_starts (leap (2000 + yy)))" using assms(2,3) by (simp add: month_starts_def)
  then show ?thesis unfolding t using month_sums [OF assms(2,3), of "2000 + yy"] by simp
qed

lemma word_div_of_nat: "a < 2 ^ 32 \<Longrightarrow> 0 < b \<Longrightarrow> b < 2 ^ 32 \<Longrightarrow> (of_nat a :: u32) div of_nat b = of_nat (a div b)"
  unfolding word_unat_eq_iff unat_div_distrib
  by (simp add: unat_of_nat_id le_less_trans [OF div_le_dividend])

lemma unix_time_bound:
  assumes "yy < 100" "1 \<le> m" "m \<le> 12" "1 \<le> d" "d \<le> 31" "h < 24" "mi < 60" "s \<le> 60"
  shows "unix_time (2000 + yy) m d h mi s < 2 ^ 32"
proof -
  have "(\<Sum>k\<leftarrow>[1..<m]. month_days (2000 + yy) k) \<le> 335" using month_table_days [OF assms(1-3)] by simp
  moreover have "(yy + 31) div 4 \<le> 32" using assms(1) by simp
  ultimately show ?thesis using assms year_days [of yy] unfolding unix_time_def by simp
qed

lemma word_shift: "(y :: u32) + 100 - 69 = y + 31" "(y :: u32) + 100 - 1 = y + 99" "(y :: u32) + 100 + 299 = y + 399"
  by simp_all

lemma epoch_words:
  "(s :: u32) + mi * 60 + h * 3600 + (q + d - 1) * 86400 + (y + 100 - 70) * 31536000 + l * 86400 - k * 86400 + k * 86400 =
    s + mi * 60 + h * 3600 + (q + (d - 1)) * 86400 + (y + 30) * 31536000 + l * 86400"
proof -
  have "y + 100 - 70 = y + 30" by simp
  then show ?thesis by (simp only: diff_add_cancel add_diff_eq)
qed

lemma epoch_days:
  "(s :: nat) + mi * 60 + h * 3600 + (q + d) * 86400 + (y + 30) * 31536000 + l * 86400 =
    ((y + 30) * 365 + l + q + d) * 86400 + h * 3600 + mi * 60 + s"
  by simp

lemma modem_epoch_eq:
  assumes "yy < 100" "1 \<le> m" "m \<le> 12" "1 \<le> d" "d \<le> 31" "h < 24" "mi < 60" "s \<le> 60"
  shows "modem_epoch (cclk_response yy m d h mi s rest) = Some (of_nat (unix_time (2000 + yy) m d h mi s))"
proof -
  let ?b = "cclk_response yy m d h mi s rest" and ?S = "\<Sum>k\<leftarrow>[1..<m]. month_days (2000 + yy) k"
  have td: "two_digits ?b 8 = Some (of_nat yy)" "two_digits ?b 11 = Some (of_nat m)" "two_digits ?b 14 = Some (of_nat d)"
    "two_digits ?b 17 = Some (of_nat h)" "two_digits ?b 20 = Some (of_nat mi)" "two_digits ?b 23 = Some (of_nat s)"
    using assms two_digits_digits2 [of yy "asc ''+CCLK: '' @ [0x22]" 8] two_digits_digits2 [of m "asc ''+CCLK: '' @ [0x22] @ digits2 yy @ asc ''/''" 11]
      two_digits_digits2 [of d "asc ''+CCLK: '' @ [0x22] @ digits2 yy @ asc ''/'' @ digits2 m @ asc ''/''" 14]
      two_digits_digits2 [of h "asc ''+CCLK: '' @ [0x22] @ digits2 yy @ asc ''/'' @ digits2 m @ asc ''/'' @ digits2 d @ asc '',''" 17]
      two_digits_digits2 [of mi "asc ''+CCLK: '' @ [0x22] @ digits2 yy @ asc ''/'' @ digits2 m @ asc ''/'' @ digits2 d @ asc '','' @ digits2 h @ asc '':''" 20]
      two_digits_digits2 [of s "asc ''+CCLK: '' @ [0x22] @ digits2 yy @ asc ''/'' @ digits2 m @ asc ''/'' @ digits2 d @ asc '','' @ digits2 h @ asc '':'' @ digits2 mi @ asc '':''" 23]
    by (simp_all add: cclk_response_def)
  have mt: "rd (month_table (of_nat yy + 100)) (unat (of_nat m - 1 :: u32)) = Some (of_nat ?S)"
  proof -
    have "(of_nat m - 1 :: u32) = of_nat (m - 1)" using assms(2) by (simp add: of_nat_diff)
    then have "unat (of_nat m - 1 :: u32) = m - 1" using assms(3) by (simp add: unat_of_nat_id)
    then show ?thesis using month_table_days [OF assms(1-3)] by simp
  qed
  have w: "(of_nat yy + 100 - 69 :: u32) = of_nat (yy + 31)" "(of_nat yy + 100 - 1 :: u32) = of_nat (yy + 99)"
    "(of_nat yy + 100 + 299 :: u32) = of_nat (yy + 399)"
    unfolding of_nat_add of_nat_numeral by (simp_all only: word_shift)
  have dv: "(of_nat yy + 100 - 69 :: u32) div 4 = of_nat ((yy + 31) div 4)"
    "(of_nat yy + 100 - 1 :: u32) div 100 = of_nat ((yy + 99) div 100)"
    "(of_nat yy + 100 + 299 :: u32) div 400 = of_nat ((yy + 399) div 400)"
    unfolding w
    by (rule word_div_of_nat [where b = 4, unfolded of_nat_numeral] word_div_of_nat [where b = 100, unfolded of_nat_numeral]
        word_div_of_nat [where b = 400, unfolded of_nat_numeral], use assms(1) in simp, simp, simp)+
  have c: "(yy + 99) div 100 = (yy + 399) div 400" 
  proof (cases "yy = 0")
    case False
    then have "(yy + 99) div 100 = 1" "(yy + 399) div 400 = 1" using assms(1) by (intro div_nat_eqI; simp)+
    then show ?thesis by simp
  qed simp
  have d1: "(of_nat (d - 1) :: u32) = of_nat d - 1" using assms(4) by (simp add: of_nat_diff)
  have "modem_epoch ?b = Some (of_nat s + of_nat mi * 60 + of_nat h * 3600 + (of_nat ?S + of_nat d - 1) * 86400 +
      (of_nat yy + 100 - 70) * 31536000 + of_nat ((yy + 31) div 4) * 86400 -
      of_nat ((yy + 399) div 400) * 86400 + of_nat ((yy + 399) div 400) * 86400)"
    unfolding modem_epoch_def td bind.bind_lunit Let_def mt dv c ..
  also have "\<dots> = Some (of_nat s + of_nat mi * 60 + of_nat h * 3600 + of_nat (?S + (d - 1)) * 86400 +
      of_nat (yy + 30) * 31536000 + of_nat ((yy + 31) div 4) * 86400)"
    unfolding epoch_words of_nat_add of_nat_numeral d1 ..
  also have "\<dots> = Some (of_nat (s + mi * 60 + h * 3600 + (?S + (d - 1)) * 86400 + (yy + 30) * 31536000 +
      (yy + 31) div 4 * 86400))"
    by (simp only: of_nat_add of_nat_mult of_nat_numeral)
  also have "s + mi * 60 + h * 3600 + (?S + (d - 1)) * 86400 + (yy + 30) * 31536000 + (yy + 31) div 4 * 86400 =
      unix_time (2000 + yy) m d h mi s"
    unfolding unix_time_def year_days [OF less_imp_le [OF assms(1)]] by (rule epoch_days)
  finally show ?thesis .
qed

text \<open>C17: For every moment of this century the clock of the modem is converted to the seconds since 1970, counted day by
  day with the leap years of the calendar, and the text is its decimal representation; no step of the
  32-bit arithmetic overflows in its result.\<close>

theorem modem_clock_is_unix_time:
  assumes "yy < 100" "1 \<le> m" "m \<le> 12" "1 \<le> d" "d \<le> 31" "h < 24" "mi < 60" "s \<le> 60"
    "length epoch_buf = TIMESTAMP_STR_LEN"
  shows "unix_time (2000 + yy) m d h mi s < 2 ^ 32 \<and>
    iotex_modem_get_clock_raw (cclk_response yy m d h mi s rest) = Some (of_nat (unix_time (2000 + yy) m d h mi s)) \<and>
    (\<exists>z. iotex_modem_get_clock (cclk_response yy m d h mi s rest) epoch_buf =
      Some (dec_str (unix_time (2000 + yy) m d h mi s) @ 0 # z))"
proof -
  let ?t = "unix_time (2000 + yy) m d h mi s"
  have b: "?t < 2 ^ 32" by (rule unix_time_bound [OF assms(1-8)])
  have l: "length (dec_str ?t) \<le> 10" using b by (intro dec_str_length) simp_all
  show ?thesis using b l modem_epoch_eq [OF assms(1-8), of rest] assms(9)
    by (simp add: iotex_modem_get_clock_raw_def iotex_modem_get_clock_def snprintf_def TIMESTAMP_STR_LEN_def
        wr_bytes_def unat_of_nat_id)
qed

lemma modem_clock_is_unix_time_witness:
  "unix_time (2000 + 21) 3 14 15 9 26 < 2 ^ 32 \<and>
    iotex_modem_get_clock_raw (cclk_response 21 3 14 15 9 26 [0]) = Some (of_nat (unix_time (2000 + 21) 3 14 15 9 26)) \<and>
    (\<exists>z. iotex_modem_get_clock (cclk_response 21 3 14 15 9 26 [0]) (replicate 50 7) =
      Some (dec_str (unix_time (2000 + 21) 3 14 15 9 26) @ 0 # z))"
  by (rule modem_clock_is_unix_time) (simp_all add: TIMESTAMP_STR_LEN_def)

end
