(* ===== verification/Ui.thy ===== *)
theory Ui
  imports Prelude "HOL-Library.Signed_Division"
begin

text \<open>
  \<^verbatim>\<open>ui/led_pwm.c\<close>, the effects of \<^verbatim>\<open>ui/include/led_effect.h\<close> and \<^verbatim>\<open>ui/include/ui.h\<close>, the
  button handler of \<^verbatim>\<open>ui/ui.c\<close> and the charger pin of \<^verbatim>\<open>hal/hal_gpio.c\<close>, in the
  configuration with pulse-width modulated LEDs.  The drivers are left as values: the pulse
  width last set on each of the three pins, and the delay with which the work was last submitted.
\<close>

section \<open>Effects\<close>

type_synonym led_color = "u8 list"

record led_effect_step =
  step_color :: led_color
  substep_count :: u16
  substep_time :: u16

record led_effect =
  effect_steps :: "led_effect_step list"
  step_count :: u16
  loop_forever :: bool

definition LED_NOCOLOR :: led_color where "LED_NOCOLOR = [0, 0, 0]"

definition LED_EFFECT_LED_BLINK :: "nat \<Rightarrow> led_color \<Rightarrow> led_effect" where
  "LED_EFFECT_LED_BLINK period color =
    \<lparr>effect_steps =
      [\<lparr>step_color = color, substep_count = 1, substep_time = of_nat period\<rparr>,
       \<lparr>step_color = LED_NOCOLOR, substep_count = 1, substep_time = of_nat period\<rparr>],
     step_count = 2, loop_forever = True\<rparr>"

definition BREATH_SUBSTEPS :: nat where "BREATH_SUBSTEPS = 15"

definition BREATH_PAUSE_SUBSTEPS :: nat where "BREATH_PAUSE_SUBSTEPS = 1"

definition LED_EFFECT_LED_BREATHE :: "nat \<Rightarrow> nat \<Rightarrow> led_color \<Rightarrow> led_effect" where
  "LED_EFFECT_LED_BREATHE period pause color =
    \<lparr>effect_steps =
      [\<lparr>step_color = color, substep_count = of_nat BREATH_SUBSTEPS,
        substep_time = of_nat ((period + (BREATH_SUBSTEPS - 1)) div BREATH_SUBSTEPS)\<rparr>,
       \<lparr>step_color = color, substep_count = 1, substep_time = of_nat period\<rparr>,
       \<lparr>step_color = LED_NOCOLOR, substep_count = of_nat BREATH_SUBSTEPS,
        substep_time = of_nat ((period + (BREATH_SUBSTEPS - 1)) div BREATH_SUBSTEPS)\<rparr>,
       \<lparr>step_color = LED_NOCOLOR, substep_count = of_nat BREATH_PAUSE_SUBSTEPS, substep_time = of_nat pause\<rparr>],
     step_count = 4, loop_forever = True\<rparr>"

definition UI_LED_ON_PERIOD_NORMAL :: nat where "UI_LED_ON_PERIOD_NORMAL = 500"
definition UI_LED_OFF_PERIOD_NORMAL :: nat where "UI_LED_OFF_PERIOD_NORMAL = 5000"
definition UI_LED_ON_PERIOD_ERROR :: nat where "UI_LED_ON_PERIOD_ERROR = 500"
definition UI_LED_OFF_PERIOD_ERROR :: nat where "UI_LED_OFF_PERIOD_ERROR = 500"
definition UI_LED_BLINK_NORMAL :: nat where "UI_LED_BLINK_NORMAL = 200"
definition UI_LED_MAX :: u8 where "UI_LED_MAX = 50"
definition UI_BLUE_LED_MAX :: u8 where "UI_BLUE_LED_MAX = 100"

definition UI_LED_COLOR_OFF :: led_color where "UI_LED_COLOR_OFF = [0, 0, 0]"
definition UI_LED_COLOR_RED :: led_color where "UI_LED_COLOR_RED = [UI_LED_MAX, 0, 0]"
definition UI_LED_COLOR_GREEN :: led_color where "UI_LED_COLOR_GREEN = [0, UI_LED_MAX, 0]"
definition UI_LED_COLOR_BLUE :: led_color where "UI_LED_COLOR_BLUE = [0, 0, UI_BLUE_LED_MAX]"
definition UI_LED_COLOR_WHITE :: led_color where "UI_LED_COLOR_WHITE = [UI_LED_MAX, UI_LED_MAX, UI_BLUE_LED_MAX]"
definition UI_LED_COLOR_YELLOW :: led_color where "UI_LED_COLOR_YELLOW = [UI_LED_MAX, UI_LED_MAX, 0]"
definition UI_LED_COLOR_CYAN :: led_color where "UI_LED_COLOR_CYAN = [0, UI_LED_MAX, UI_BLUE_LED_MAX]"
definition UI_LED_COLOR_PURPLE :: led_color where "UI_LED_COLOR_PURPLE = [UI_LED_MAX, 0, UI_BLUE_LED_MAX]"

definition LTE_CONNECT_MASK :: u8 where "LTE_CONNECT_MASK = 0x01"
definition BAT_CHARGING_MASK :: u8 where "BAT_CHARGING_MASK = 0x02"
definition GPS_ACTIVE_MASK :: u8 where "GPS_ACTIVE_MASK = 0x04"
definition ALL_UI_MASK :: u8 where "ALL_UI_MASK = LTE_CONNECT_MASK OR BAT_CHARGING_MASK OR GPS_ACTIVE_MASK"

datatype ui_led_pattern =
    UI_NGPS_NBAT_NLTE | UI_NGPS_NBAT_LTE | UI_NGPS_BAT_NLTE | UI_NGPS_BAT_LTE
  | UI_GPS_NBAT_NLTE | UI_GPS_NBAT_LTE | UI_GPS_BAT_NLTE | UI_GPS_BAT_LTE
  | UI_LTE_DISCONNECTED | UI_LTE_CONNECTING | UI_LTE_CONNECTED
  | UI_CLOUD_CONNECTING | UI_CLOUD_CONNECTED | UI_CLOUD_PAIRING | UI_ACCEL_CALIBRATING
  | UI_LED_ERROR_CLOUD | UI_LED_ERROR_BSD_REC | UI_LED_ERROR_BSD_IRREC | UI_LED_ERROR_LTE_LC
  | UI_LED_ERROR_UNKNOWN | UI_LED_GPS_SEARCHING | UI_LED_GPS_BLOCKED | UI_LED_GPS_FIX

definition breathe_normal :: "led_color \<Rightarrow> led_effect" where
  "breathe_normal = LED_EFFECT_LED_BREATHE UI_LED_ON_PERIOD_NORMAL UI_LED_OFF_PERIOD_NORMAL"

definition breathe_error :: "led_color \<Rightarrow> led_effect" where
  "breathe_error = LED_EFFECT_LED_BREATHE UI_LED_ON_PERIOD_ERROR UI_LED_OFF_PERIOD_ERROR"

text \<open>The table \<^verbatim>\<open>effect[]\<close>.\<close>

fun effect_table :: "ui_led_pattern \<Rightarrow> led_effect" where
  "effect_table UI_NGPS_NBAT_NLTE = LED_EFFECT_LED_BLINK UI_LED_BLINK_NORMAL UI_LED_COLOR_BLUE"
| "effect_table UI_NGPS_NBAT_LTE = breathe_normal UI_LED_COLOR_BLUE"
| "effect_table UI_NGPS_BAT_NLTE = LED_EFFECT_LED_BLINK UI_LED_BLINK_NORMAL UI_LED_COLOR_PURPLE"
| "effect_table UI_NGPS_BAT_LTE = breathe_normal UI_LED_COLOR_PURPLE"
| "effect_table UI_GPS_NBAT_NLTE = LED_EFFECT_LED_BLINK UI_LED_BLINK_NORMAL UI_LED_COLOR_CYAN"
| "effect_table UI_GPS_NBAT_LTE = breathe_normal UI_LED_COLOR_CYAN"
| "effect_table UI_GPS_BAT_NLTE = LED_EFFECT_LED_BLINK UI_LED_BLINK_NORMAL UI_LED_COLOR_WHITE"
| "effect_table UI_GPS_BAT_LTE = breathe_normal UI_LED_COLOR_WHITE"
| "effect_table UI_LTE_DISCONNECTED = breathe_normal UI_LED_COLOR_OFF"
| "effect_table UI_LTE_CONNECTING = LED_EFFECT_LED_BLINK UI_LED_BLINK_NORMAL UI_LED_COLOR_BLUE"
| "effect_table UI_LTE_CONNECTED = breathe_normal UI_LED_COLOR_CYAN"
| "effect_table UI_CLOUD_CONNECTING = breathe_normal UI_LED_COLOR_CYAN"
| "effect_table UI_CLOUD_CONNECTED = breathe_normal UI_LED_COLOR_BLUE"
| "effect_table UI_CLOUD_PAIRING = breathe_normal UI_LED_COLOR_YELLOW"
| "effect_table UI_ACCEL_CALIBRATING = breathe_normal UI_LED_COLOR_PURPLE"
| "effect_table UI_LED_ERROR_CLOUD = breathe_error UI_LED_COLOR_RED"
| "effect_table UI_LED_ERROR_BSD_REC = breathe_error UI_LED_COLOR_RED"
| "effect_table UI_LED_ERROR_BSD_IRREC = breathe_error UI_LED_COLOR_RED"
| "effect_table UI_LED_ERROR_LTE_LC = breathe_error UI_LED_COLOR_RED"
| "effect_table UI_LED_ERROR_UNKNOWN = breathe_error UI_LED_COLOR_WHITE"
| "effect_table UI_LED_GPS_SEARCHING = breathe_error UI_LED_COLOR_PURPLE"
| "effect_table UI_LED_GPS_BLOCKED = breathe_error UI_LED_COLOR_BLUE"
| "effect_table UI_LED_GPS_FIX = breathe_error UI_LED_COLOR_GREEN"

definition ui_pattern :: "ui_led_pattern list" where
  "ui_pattern = [UI_NGPS_NBAT_NLTE, UI_NGPS_NBAT_LTE, UI_NGPS_BAT_NLTE, UI_NGPS_BAT_LTE,
     UI_GPS_NBAT_NLTE, UI_GPS_NBAT_LTE, UI_GPS_BAT_NLTE, UI_GPS_BAT_LTE]"

section \<open>The LED\<close>

text \<open>The effect an LED follows is a pointer: into the table, or to the effect set by colour.\<close>

datatype effect_ref = Table ui_led_pattern | Custom

record led =
  color :: led_color
  effect :: "effect_ref option"
  effect_step :: u16
  effect_substep :: u16

text \<open>All static data of the file, with the pulse widths of the pins and the delay of the pending work.\<close>

record ui_state =
  leds :: led
  effects :: "ui_led_pattern \<Rightarrow> led_effect"
  custom_effect :: led_effect
  patternIndex :: u8
  pwm :: "u8 list"
  work :: "u16 option"

fun deref :: "ui_state \<Rightarrow> effect_ref \<Rightarrow> led_effect" where
  "deref s (Table p) = effects s p"
| "deref s Custom = custom_effect s"

definition pwm_out :: "led_color \<Rightarrow> ui_state \<Rightarrow> ui_state" where
  "pwm_out col s = s\<lparr>pwm := map (\<lambda>c. 255 - c) col\<rparr>"

definition pwm_off :: "ui_state \<Rightarrow> ui_state" where
  "pwm_off = pwm_out [0, 0, 0]"

definition isMask :: "u8 \<Rightarrow> ui_state \<Rightarrow> bool" where
  "isMask msk s \<longleftrightarrow> patternIndex s AND msk \<noteq> 0"

text \<open>One component: the difference is divided as C does, towards zero.\<close>

definition ramp :: "int \<Rightarrow> u8 \<Rightarrow> u8 \<Rightarrow> u8" where
  "ramp substeps_left target c = c + of_int ((uint target - uint c) sdiv substeps_left)"

definition work_handler :: "ui_state \<Rightarrow> ui_state option" where
  "work_handler s0 = do {
     let s = s0\<lparr>work := None\<rparr>;
     e \<leftarrow> map_option (deref s) (effect (leds s));
     es \<leftarrow> rd (effect_steps e) (unat (effect_step (leds s)));
     let substeps_left = uint (substep_count es) - uint (effect_substep (leds s));
     guard (substeps_left \<noteq> 0);
     let color1 = map2 (ramp substeps_left) (step_color es) (color (leds s));
     let s1 = (if isMask BAT_CHARGING_MASK s
       then pwm_out (UI_LED_MAX # tl color1) (s\<lparr>leds := (leds s)\<lparr>color := color1\<rparr>\<rparr>)
       else pwm_out (0 # tl color1) (s\<lparr>leds := (leds s)\<lparr>color := 0 # tl color1\<rparr>\<rparr>));
     let l1 = (leds s1)\<lparr>effect_substep := effect_substep (leds s1) + 1\<rparr>;
     let l2 = (if effect_substep l1 = substep_count es
       then (let l = l1\<lparr>effect_substep := 0, effect_step := effect_step l1 + 1\<rparr> in
         if effect_step l = step_count e \<and> loop_forever e then l\<lparr>effect_step := 0\<rparr> else l)
       else l1);
     let s2 = s1\<lparr>leds := l2\<rparr>;
     if effect_step l2 < step_count e then do {
       next_step \<leftarrow> rd (effect_steps e) (unat (effect_step l2));
       Some (s2\<lparr>work := Some (substep_time next_step)\<rparr>)
     }
     else Some s2
   }"

definition led_update :: "ui_state \<Rightarrow> ui_state option" where
  "led_update s0 =
    (let s = s0\<lparr>work := None, leds := (leds s0)\<lparr>effect_step := 0, effect_substep := 0\<rparr>\<rparr> in
     case effect (leds s) of
       None \<Rightarrow> Some s
     | Some r \<Rightarrow>
         if step_count (deref s r) > 0 then do {
           first \<leftarrow> rd (effect_steps (deref s r)) 0;
           Some (s\<lparr>work := Some (substep_time first)\<rparr>)
         }
         else Some s)"

definition ui_leds_init :: "bool \<Rightarrow> ui_state \<Rightarrow> (int \<times> ui_state) option" where
  "ui_leds_init pwm_dev_bound s =
    (let s1 = s\<lparr>leds := (leds s)\<lparr>effect := Some (Table UI_LTE_DISCONNECTED)\<rparr>\<rparr> in
     if \<not> pwm_dev_bound then Some (-19, s1) else map_option (Pair 0) (led_update s1))"

definition ui_leds_start :: "ui_state \<Rightarrow> ui_state option" where
  "ui_leds_start s = led_update s"

definition ui_leds_stop :: "ui_state \<Rightarrow> ui_state" where
  "ui_leds_stop s = pwm_off (s\<lparr>work := None\<rparr>)"

definition ui_led_set_effect :: "ui_led_pattern \<Rightarrow> ui_state \<Rightarrow> ui_state option" where
  "ui_led_set_effect state s = led_update (s\<lparr>leds := (leds s)\<lparr>effect := Some (Table state)\<rparr>\<rparr>)"

text \<open>The colour of the first step of the current effect is changed in place, in the table.\<close>

definition set_first_color :: "u8 \<Rightarrow> nat \<Rightarrow> led_effect \<Rightarrow> led_effect option" where
  "set_first_color c index e = (case effect_steps e of
     [] \<Rightarrow> None
   | st # sts \<Rightarrow> do { col \<leftarrow> wr (step_color st) index c; Some (e\<lparr>effect_steps := st\<lparr>step_color := col\<rparr> # sts\<rparr>) })"

definition ui_led_set_effect_color :: "u8 \<Rightarrow> nat \<Rightarrow> ui_state \<Rightarrow> ui_state option" where
  "ui_led_set_effect_color c index s = (case effect (leds s) of
     None \<Rightarrow> None
   | Some (Table p) \<Rightarrow> map_option (\<lambda>e. s\<lparr>effects := (effects s)(p := e)\<rparr>) (set_first_color c index (effects s p))
   | Some Custom \<Rightarrow> map_option (\<lambda>e. s\<lparr>custom_effect := e\<rparr>) (set_first_color c index (custom_effect s)))"

text \<open>Only the steps are copied, over those of the custom effect.\<close>

definition ui_led_set_rgb :: "u8 \<Rightarrow> u8 \<Rightarrow> u8 \<Rightarrow> ui_state \<Rightarrow> (int \<times> ui_state) option" where
  "ui_led_set_rgb red green blue s = do {
     let new = breathe_normal [red, green, blue];
     st \<leftarrow> wr_bytes (effect_steps (custom_effect s)) 0 (take (unat (step_count new)) (effect_steps new));
     s' \<leftarrow> led_update (s\<lparr>custom_effect := (custom_effect s)\<lparr>effect_steps := st\<rparr>,
       leds := (leds s)\<lparr>effect := Some Custom\<rparr>\<rparr>);
     Some (0, s')
   }"

section \<open>The pattern of the device's state\<close>

definition show_pattern :: "ui_state \<Rightarrow> ui_state option" where
  "show_pattern s = do { p \<leftarrow> rd ui_pattern (unat (patternIndex s)); ui_led_set_effect p s }"

definition ui_led_active :: "u8 \<Rightarrow> bool \<Rightarrow> ui_state \<Rightarrow> ui_state option" where
  "ui_led_active msk flg s =
    (let s1 = s\<lparr>patternIndex := patternIndex s OR msk\<rparr> in if flg then show_pattern s1 else Some s1)"

definition ui_led_deactive :: "u8 \<Rightarrow> bool \<Rightarrow> ui_state \<Rightarrow> ui_state option" where
  "ui_led_deactive msk flg s =
    (let s1 = s\<lparr>patternIndex := patternIndex s AND NOT msk\<rparr> in if flg then show_pattern s1 else Some s1)"

text \<open>The charger: its pin is low while it charges.\<close>

definition checkCHRQ :: "bool \<Rightarrow> ui_state \<Rightarrow> ui_state option" where
  "checkCHRQ chrq s = (if \<not> chrq then ui_led_active BAT_CHARGING_MASK False s
     else ui_led_deactive BAT_CHARGING_MASK False s)"

definition updateLedPattern :: "bool \<Rightarrow> ui_state \<Rightarrow> ui_state option" where
  "updateLedPattern chrq s = do {
     s1 \<leftarrow> checkCHRQ chrq s;
     let s2 = s1\<lparr>patternIndex := patternIndex s1 AND ALL_UI_MASK\<rparr>;
     p \<leftarrow> rd ui_pattern (unat (patternIndex s2));
     if effect (leds s2) \<noteq> Some (Table p) then ui_led_set_effect p s2 else Some s2
   }"

section \<open>Buttons\<close>

datatype ui_evt = UI_EVT_BUTTON_ACTIVE u8 | UI_EVT_BUTTON_INACTIVE u8

text \<open>The number of the first button that changed, 0 when none did.\<close>

fun first_changed :: "u32 \<Rightarrow> nat \<Rightarrow> nat \<Rightarrow> nat" where
  "first_changed has_changed i 0 = 0"
| "first_changed has_changed i (Suc n) =
    (if bit has_changed i then i + 1 else first_changed has_changed (i + 1) n)"

text \<open>The calls of the callback, in order; \<^verbatim>\<open>fuel\<close> bounds the loop.\<close>

fun button_handler :: "nat \<Rightarrow> u32 \<Rightarrow> u32 \<Rightarrow> ui_evt list option" where
  "button_handler fuel button_states has_changed =
    (if has_changed = 0 then Some []
     else case fuel of 0 \<Rightarrow> None | Suc fuel' \<Rightarrow>
       (let btn_num = first_changed has_changed 0 32;
            has_changed' = has_changed AND NOT (push_bit (btn_num - 1) 1);
            evt = (if bit button_states (btn_num - 1) then UI_EVT_BUTTON_ACTIVE else UI_EVT_BUTTON_INACTIVE)
              (of_nat btn_num)
        in map_option ((#) evt) (button_handler fuel' button_states has_changed')))"

declare button_handler.simps [simp del]

section \<open>Effects run for ever, and arrive at their colours\<close>

definition valid_effect :: "led_effect \<Rightarrow> bool" where
  "valid_effect e \<longleftrightarrow> effect_steps e \<noteq> [] \<and> unat (step_count e) = length (effect_steps e) \<and> loop_forever e \<and>
    (\<forall>st\<in>set (effect_steps e). 0 < substep_count st \<and> length (step_color st) = 3)"

lemmas effect_defs = LED_EFFECT_LED_BLINK_def LED_EFFECT_LED_BREATHE_def breathe_normal_def breathe_error_def
  LED_NOCOLOR_def BREATH_SUBSTEPS_def BREATH_PAUSE_SUBSTEPS_def
  UI_LED_COLOR_OFF_def UI_LED_COLOR_RED_def UI_LED_COLOR_GREEN_def UI_LED_COLOR_BLUE_def UI_LED_COLOR_WHITE_def
  UI_LED_COLOR_YELLOW_def UI_LED_COLOR_CYAN_def UI_LED_COLOR_PURPLE_def

lemma valid_effect_table: "valid_effect (effect_table p)"
  by (cases p) (simp_all add: valid_effect_def effect_defs)

definition substeps :: "led_effect \<Rightarrow> nat list" where
  "substeps e = map (\<lambda>st. unat (substep_count st)) (effect_steps e)"

text \<open>How many substeps a round of the effect has, and how many come before a step.\<close>

definition period :: "led_effect \<Rightarrow> nat" where
  "period e = sum_list (substeps e)"

definition slot_start :: "led_effect \<Rightarrow> nat \<Rightarrow> nat" where
  "slot_start e i = sum_list (take i (substeps e))"

lemma length_substeps [simp]: "length (substeps e) = length (effect_steps e)"
  by (simp add: substeps_def)

lemma substeps_pos: "valid_effect e \<Longrightarrow> i < length (effect_steps e) \<Longrightarrow> 0 < substeps e ! i"
  by (auto simp: valid_effect_def substeps_def word_less_nat_alt)

lemma slot_start_Suc: "i < length (effect_steps e) \<Longrightarrow> slot_start e (Suc i) = slot_start e i + substeps e ! i"
  by (simp add: slot_start_def take_Suc_conv_app_nth)

lemma slot_start_all: "slot_start e (length (effect_steps e)) = period e"
  by (simp add: slot_start_def period_def)

lemma slot_start_less:
  assumes "valid_effect e" "i < length (effect_steps e)"
  shows "slot_start e i < period e"
proof -
  have "period e = slot_start e i + sum_list (drop i (substeps e))"
    by (metis append_take_drop_id period_def slot_start_def sum_list_append)
  moreover have "substeps e ! i \<le> sum_list (drop i (substeps e))"
    using assms(2) by (simp add: Cons_nth_drop_Suc [symmetric])
  ultimately show ?thesis using substeps_pos [OF assms] by simp
qed

lemma unat_inc:
  fixes a b :: "'a::len word"
  assumes "unat a < unat b"
  shows "unat (a + 1) = Suc (unat a)"
proof -
  have "Suc (unat a) < 2 ^ LENGTH('a)" using Suc_leI [OF assms] unsigned_less by (rule le_less_trans)
  then show ?thesis by (simp add: unat_word_ariths)
qed

lemma ramp_last: "ramp 1 target c = target"
  by (simp add: ramp_def)

lemma ramp_last_all: "length xs = length ys \<Longrightarrow> map2 (ramp 1) xs ys = xs"
  by (induction xs ys rule: list_induct2) (simp_all add: ramp_last)

text \<open>
  The state after \<^verbatim>\<open>n\<close> runs of the work: where it is in the round, that the next run is
  submitted, and that the components of green and blue are those of the step that just ended.
\<close>

definition led_at :: "led_effect \<Rightarrow> nat \<Rightarrow> ui_state \<Rightarrow> bool" where
  "led_at e n s \<longleftrightarrow>
    (\<exists>r. effect (leds s) = Some r \<and> deref s r = e) \<and> length (color (leds s)) = 3 \<and>
    unat (effect_step (leds s)) < length (effect_steps e) \<and>
    unat (effect_substep (leds s)) < substeps e ! unat (effect_step (leds s)) \<and>
    slot_start e (unat (effect_step (leds s))) + unat (effect_substep (leds s)) = n mod period e \<and>
    work s = Some (substep_time (effect_steps e ! unat (effect_step (leds s)))) \<and>
    (0 < n \<and> effect_substep (leds s) = 0 \<longrightarrow>
      tl (color (leds s)) = tl (step_color (effect_steps e !
        (if effect_step (leds s) = 0 then length (effect_steps e) - 1 else unat (effect_step (leds s)) - 1))))"

definition lit_red :: "ui_state \<Rightarrow> u8" where
  "lit_red s = (if isMask BAT_CHARGING_MASK s then UI_LED_MAX else 0)"

lemma led_at_less:
  "valid_effect e \<Longrightarrow> led_at e n s \<Longrightarrow> effect_substep (leds s) < substep_count (effect_steps e ! unat (effect_step (leds s)))"
  by (auto simp: led_at_def word_less_nat_alt substeps_def)

text \<open>Within a step, and from one step to the next, one run of the work is one place of the round.\<close>

lemma next_mod: "0 < p \<Longrightarrow> x = n mod p \<Longrightarrow> Suc n mod p = (if Suc x = p then 0 else Suc x)"
  by (simp add: mod_Suc)

lemma deref_simps [simp]:
  "deref (s\<lparr>work := w\<rparr>) r = deref s r" "deref (s\<lparr>leds := l\<rparr>) r = deref s r" "deref (s\<lparr>pwm := x\<rparr>) r = deref s r"
  by (cases r; simp)+

lemma isMask_simps [simp]:
  "isMask m (s\<lparr>work := w\<rparr>) = isMask m s" "isMask m (s\<lparr>leds := l\<rparr>) = isMask m s" "isMask m (s\<lparr>pwm := x\<rparr>) = isMask m s"
  by (simp_all add: isMask_def)

text \<open>The state one run of the work leads to, in the three situations it can be in.\<close>

definition ramped :: "led_effect_step \<Rightarrow> led \<Rightarrow> led_color" where
  "ramped es l = map2 (ramp (uint (substep_count es) - uint (effect_substep l))) (step_color es) (color l)"

definition at_place :: "led_effect \<Rightarrow> led_effect_step \<Rightarrow> ui_state \<Rightarrow> u16 \<Rightarrow> u16 \<Rightarrow> ui_state" where
  "at_place e es s st sub = (let col = ramped es (leds s) in
    s\<lparr>pwm := map (\<lambda>c. 255 - c) (lit_red s # tl col),
      leds := (leds s)\<lparr>color := (if isMask BAT_CHARGING_MASK s then col else 0 # tl col), effect_step := st, effect_substep := sub\<rparr>,
      work := Some (substep_time (effect_steps e ! unat st))\<rparr>)"

definition handled :: "led_effect \<Rightarrow> ui_state \<Rightarrow> ui_state" where
  "handled e s = (let l = leds s; i = unat (effect_step l); es = effect_steps e ! i in
    if Suc (unat (effect_substep l)) < substeps e ! i then at_place e es s (effect_step l) (effect_substep l + 1)
    else if Suc i < length (effect_steps e) then at_place e es s (effect_step l + 1) 0
    else at_place e es s 0 0)"

lemma led_at_facts:
  assumes e: "valid_effect e" and at: "led_at e n s"
    and i: "i = unat (effect_step (leds s))" and j: "j = unat (effect_substep (leds s))" and es: "es = effect_steps e ! i"
  shows "rd (effect_steps e) i = Some es" "rd (effect_steps e) 0 = Some (effect_steps e ! 0)"
    "unat (effect_step (leds s) + 1) = Suc i" "unat (effect_substep (leds s) + 1) = Suc j"
    "effect_substep (leds s) + 1 = substep_count es \<longleftrightarrow> Suc j = substeps e ! i"
    "effect_step (leds s) + 1 = step_count e \<longleftrightarrow> Suc i = length (effect_steps e)"
    "effect_step (leds s) + 1 < step_count e \<longleftrightarrow> Suc i < length (effect_steps e)"
    "effect_step (leds s) < step_count e" "0 < step_count e" "loop_forever e" "length (step_color es) = 3"
    "uint (substep_count es) - uint (effect_substep (leds s)) = int (substeps e ! i - j)"
    "uint (substep_count es) \<noteq> uint (effect_substep (leds s))"
proof -
  have ii: "i < length (effect_steps e)" and jj: "j < substeps e ! i" using at by (auto simp: led_at_def i j)
  have cnt: "substeps e ! i = unat (substep_count es)" using ii by (simp add: substeps_def es)
  have sc: "unat (step_count e) = length (effect_steps e)" "loop_forever e" "length (step_color es) = 3"
    using e ii by (auto simp: valid_effect_def es)
  then show "loop_forever e" "length (step_color es) = 3" by simp_all
  show "rd (effect_steps e) i = Some es" "rd (effect_steps e) 0 = Some (effect_steps e ! 0)"
    using ii by (simp add: es) (intro rd_in, use ii in auto)
  show up: "unat (effect_step (leds s) + 1) = Suc i" "unat (effect_substep (leds s) + 1) = Suc j"
    using ii jj sc cnt unat_inc [of "effect_step (leds s)" "step_count e"] unat_inc [of "effect_substep (leds s)" "substep_count es"]
    by (simp_all add: i j)
  show "effect_substep (leds s) + 1 = substep_count es \<longleftrightarrow> Suc j = substeps e ! i"
    "effect_step (leds s) + 1 = step_count e \<longleftrightarrow> Suc i = length (effect_steps e)"
    "effect_step (leds s) + 1 < step_count e \<longleftrightarrow> Suc i < length (effect_steps e)"
    "effect_step (leds s) < step_count e" "0 < step_count e"
    using ii sc by (simp_all add: word_unat_eq_iff word_less_nat_alt up cnt) (auto simp: i)
  show left: "uint (substep_count es) - uint (effect_substep (leds s)) = int (substeps e ! i - j)"
    unfolding cnt j uint_nat by (rule of_nat_diff [symmetric]) (use jj cnt in \<open>simp add: j\<close>)
  then show "uint (substep_count es) \<noteq> uint (effect_substep (leds s))" using jj by auto
qed

lemma led_at_place:
  "led_at e n s \<Longrightarrow> i = unat (effect_step (leds s)) \<Longrightarrow> j = unat (effect_substep (leds s)) \<Longrightarrow>
    i < length (effect_steps e) \<and> j < substeps e ! i \<and> slot_start e i + j = n mod period e \<and> length (color (leds s)) = 3"
  by (simp add: led_at_def)

lemma work_handler_handled:
  assumes e: "valid_effect e" and at: "led_at e n s"
  shows "work_handler s = Some (handled e s)"
proof -
  define i where "i = unat (effect_step (leds s))"
  define j where "j = unat (effect_substep (leds s))"
  define es where "es = effect_steps e ! i"
  note f = led_at_facts [OF e at i_def j_def es_def]
  note defs = work_handler_def handled_def at_place_def ramped_def pwm_out_def lit_red_def Let_def
  obtain r where r: "effect (leds s) = Some r" "deref s r = e" using at by (auto simp: led_at_def)
  consider "Suc j < substeps e ! i" | "Suc j = substeps e ! i" "Suc i < length (effect_steps e)"
    | "Suc j = substeps e ! i" "Suc i = length (effect_steps e)" using led_at_place [OF at i_def j_def] by linarith
  then show ?thesis
    by cases (simp_all add: defs r f i_def [symmetric] j_def [symmetric] es_def [symmetric])
qed

lemma led_at_handled:
  assumes e: "valid_effect e" and at: "led_at e n s"
  shows "led_at e (Suc n) (handled e s)"
proof -
  define i where "i = unat (effect_step (leds s))"
  define j where "j = unat (effect_substep (leds s))"
  define es where "es = effect_steps e ! i"
  note f = led_at_facts [OF e at i_def j_def es_def] and pl = led_at_place [OF at i_def j_def]
  have P: "0 < period e" using slot_start_less [OF e] pl by fastforce
  note nm = next_mod [OF P conjunct1 [OF conjunct2 [OF conjunct2 [OF pl]]]]
  obtain r where r: "effect (leds s) = Some r" "deref s r = e" using at by (auto simp: led_at_def)
  have lc: "length (ramped es (leds s)) = 3" using f(11) pl by (simp add: ramped_def)
  then have red: "tl (if isMask BAT_CHARGING_MASK s then ramped es (leds s) else 0 # tl (ramped es (leds s))) = tl (ramped es (leds s))"
    "length (if isMask BAT_CHARGING_MASK s then ramped es (leds s) else 0 # tl (ramped es (leds s))) = 3" by auto
  have last: "ramped es (leds s) = step_color es" if "Suc j = substeps e ! i"
    using ramp_last_all [of "step_color es" "color (leds s)"] f(11,12) pl by (simp add: ramped_def that [symmetric])
  have nz: "effect_substep (leds s) + 1 \<noteq> 0" "effect_step (leds s) + 1 \<noteq> 0" using f(3,4) by (metis nat.distinct(1) unsigned_0)+
  note defs = handled_def at_place_def Let_def led_at_def
  consider "Suc j < substeps e ! i" | "Suc j = substeps e ! i" "Suc i < length (effect_steps e)"
    | "Suc j = substeps e ! i" "Suc i = length (effect_steps e)" using pl by linarith
  then show ?thesis
  proof cases
    case 1
    have "slot_start e i + Suc j < period e"
      using 1 slot_start_Suc [of i e] slot_start_less [OF e, of "Suc i"] slot_start_all [of e] pl
      by (cases "Suc i < length (effect_steps e)") (auto simp: not_less le_Suc_eq less_Suc_eq)
    then show ?thesis using 1 r pl red nz by (simp add: defs f(3,4) i_def [symmetric] j_def [symmetric] es_def [symmetric] nm)
  next
    case 2
    then show ?thesis using r pl red nz last slot_start_Suc [of i e] slot_start_less [OF e 2(2)] substeps_pos [OF e 2(2)]
      by (simp add: defs f(3,11) i_def [symmetric] j_def [symmetric] es_def [symmetric] nm)
  next
    case 3
    then have "slot_start e i + Suc j = period e" "effect_steps e ! (length (effect_steps e) - 1) = es"
      using slot_start_Suc [of i e] slot_start_all [of e] by (auto simp: es_def 3(2) [symmetric])
    moreover have "0 < length (effect_steps e)" using pl by auto
    ultimately show ?thesis using 3 r pl red last substeps_pos [OF e, of 0]
      by (simp add: defs f(11) i_def [symmetric] j_def [symmetric] es_def [symmetric] nm slot_start_def)
  qed
qed

lemma handled_keeps:
  "effects (handled e s) = effects s" "custom_effect (handled e s) = custom_effect s"
  "patternIndex (handled e s) = patternIndex s" "effect (leds (handled e s)) = effect (leds s)"
  "pwm (handled e s) = map (\<lambda>c. 255 - c) (lit_red s # tl (color (leds (handled e s))))"
  by (simp_all add: handled_def at_place_def Let_def)

lemma led_at_step:
  assumes "valid_effect e" "led_at e n s"
  shows "\<exists>s'. work_handler s = Some s' \<and> led_at e (Suc n) s' \<and> patternIndex s' = patternIndex s \<and>
    pwm s' = map (\<lambda>c. 255 - c) (lit_red s # tl (color (leds s')))"
  using work_handler_handled [OF assms] led_at_handled [OF assms] handled_keeps by blast

fun run_work :: "nat \<Rightarrow> ui_state \<Rightarrow> ui_state option" where
  "run_work 0 s = Some s"
| "run_work (Suc n) s = do { s' \<leftarrow> run_work n s; work_handler s' }"

lemma led_update_at:
  assumes "effect (leds s) = Some r" "valid_effect (deref s r)" "length (color (leds s)) = 3"
  shows "\<exists>s0. led_update s = Some s0 \<and> led_at (deref s r) 0 s0 \<and> effects s0 = effects s \<and> custom_effect s0 = custom_effect s \<and>
    patternIndex s0 = patternIndex s \<and> effect (leds s0) = effect (leds s)"
proof -
  have "0 < length (effect_steps (deref s r))" "0 < step_count (deref s r)" "0 < substeps (deref s r) ! 0"
    using assms(2) substeps_pos [OF assms(2), of 0] by (auto simp: valid_effect_def word_less_nat_alt)
  then show ?thesis using assms by (simp add: led_update_def led_at_def slot_start_def)
qed

lemma led_runs:
  assumes "led_at e 0 s0" "valid_effect e"
  shows "\<exists>s'. run_work n s0 = Some s' \<and> led_at e n s' \<and> patternIndex s' = patternIndex s0 \<and>
    (0 < n \<longrightarrow> pwm s' = map (\<lambda>c. 255 - c) (lit_red s0 # tl (color (leds s'))))"
proof (induction n)
  case 0
  then show ?case using assms(1) by simp
next
  case (Suc n)
  then obtain s' where s': "run_work n s0 = Some s'" "led_at e n s'" "patternIndex s' = patternIndex s0" by blast
  then show ?case using led_at_step [OF assms(2) s'(2)] by (auto simp: lit_red_def isMask_def)
qed

text \<open>C36: An effect never stops and never misses its colours: from the moment it is set, every run of the work succeeds
  and submits the next one with the delay of the step it is in; after n runs it is at place n of the round of all
  substeps, again and again; and whenever a step ends, green and blue are exactly the colour of that step, while red
  shows the charger only.\<close>

theorem led_effect_runs:
  assumes "effect (leds s) = Some r" "valid_effect (deref s r)" "length (color (leds s)) = 3"
  shows "\<exists>s0 s'. led_update s = Some s0 \<and> run_work n s0 = Some s' \<and>
    (let e = deref s r; i = unat (effect_step (leds s')); j = unat (effect_substep (leds s')) in
      i < length (effect_steps e) \<and> j < substeps e ! i \<and> slot_start e i + j = n mod period e \<and>
      work s' = Some (substep_time (effect_steps e ! i)) \<and>
      (0 < n \<longrightarrow> pwm s' = map (\<lambda>c. 255 - c) (lit_red s # tl (color (leds s')))) \<and>
      (0 < n \<and> j = 0 \<longrightarrow> tl (color (leds s')) =
        tl (step_color (effect_steps e ! (if i = 0 then length (effect_steps e) - 1 else i - 1)))))"
proof -
  obtain s0 where s0: "led_update s = Some s0" "led_at (deref s r) 0 s0" "patternIndex s0 = patternIndex s"
    using led_update_at [OF assms] by blast
  obtain s' where "run_work n s0 = Some s'" "led_at (deref s r) n s'"
      "0 < n \<longrightarrow> pwm s' = map (\<lambda>c. 255 - c) (lit_red s0 # tl (color (leds s')))"
    using led_runs [OF s0(2) assms(2)] by blast
  then show ?thesis using s0(1,3)
    by (auto simp: led_at_def Let_def lit_red_def isMask_def unat_eq_zero)
qed

definition dark_leds :: ui_state where
  "dark_leds = \<lparr>leds = \<lparr>color = [0, 0, 0], effect = Some (Table UI_GPS_NBAT_LTE), effect_step = 0, effect_substep = 0\<rparr>,
    effects = effect_table, custom_effect = breathe_normal LED_NOCOLOR, patternIndex = 0, pwm = [255, 255, 255], work = None\<rparr>"

lemma led_effect_runs_witness:
  "\<exists>s0 s'. led_update dark_leds = Some s0 \<and> run_work 47 s0 = Some s' \<and>
    (let e = deref dark_leds (Table UI_GPS_NBAT_LTE); i = unat (effect_step (leds s')); j = unat (effect_substep (leds s')) in
      i < length (effect_steps e) \<and> j < substeps e ! i \<and> slot_start e i + j = 47 mod period e \<and>
      work s' = Some (substep_time (effect_steps e ! i)) \<and>
      (0 < (47 :: nat) \<longrightarrow> pwm s' = map (\<lambda>c. 255 - c) (lit_red dark_leds # tl (color (leds s')))) \<and>
      (0 < (47 :: nat) \<and> j = 0 \<longrightarrow> tl (color (leds s')) =
        tl (step_color (effect_steps e ! (if i = 0 then length (effect_steps e) - 1 else i - 1)))))"
proof (rule led_effect_runs [where s = dark_leds and r = "Table UI_GPS_NBAT_LTE" and n = 47])
  show "valid_effect (deref dark_leds (Table UI_GPS_NBAT_LTE))"
    using valid_effect_table [of UI_GPS_NBAT_LTE] by (simp add: dark_leds_def)
qed (simp_all add: dark_leds_def)

text \<open>The effects of errors have only red, which the handler leaves to the charger: when a step of
  such an effect ends and the battery is not charging, nothing is lit.\<close>

lemma red_effects_dark:
  assumes "p \<in> {UI_LED_ERROR_CLOUD, UI_LED_ERROR_BSD_REC, UI_LED_ERROR_BSD_IRREC, UI_LED_ERROR_LTE_LC}"
    "effect (leds s) = Some (Table p)" "effects s = effect_table" "length (color (leds s)) = 3" "\<not> isMask BAT_CHARGING_MASK s"
    "led_update s = Some s0" "run_work n s0 = Some s'" "0 < n" "effect_substep (leds s') = 0"
  shows "pwm s' = [255, 255, 255]"
proof -
  let ?e = "effect_table p" and ?i = "unat (effect_step (leds s'))"
  have g: "\<forall>st\<in>set (effect_steps ?e). tl (step_color st) = [0, 0]"
    using assms(1) by (auto simp: effect_defs)
  obtain s1 where s1: "led_update s = Some s1" "led_at ?e 0 s1" "patternIndex s1 = patternIndex s"
    using led_update_at [of s "Table p"] assms valid_effect_table [of p] by auto
  obtain s2 where s2: "run_work n s1 = Some s2" "led_at ?e n s2" "pwm s2 = map (\<lambda>c. 255 - c) (lit_red s1 # tl (color (leds s2)))"
    using led_runs [OF s1(2) valid_effect_table, of n] assms(8) by blast
  have i: "?i < length (effect_steps ?e)" and t: "tl (color (leds s')) =
      tl (step_color (effect_steps ?e ! (if effect_step (leds s') = 0 then length (effect_steps ?e) - 1 else ?i - 1)))"
    using s1 s2 assms(6-9) by (auto simp: led_at_def)
  have "tl (color (leds s')) = [0, 0]" unfolding t by (rule bspec [OF g]) (use i in \<open>auto intro!: nth_mem\<close>)
  then show ?thesis using s1 s2 assms(5-7) by (simp add: lit_red_def isMask_def)
qed

section \<open>The pattern shows the state of the device\<close>

text \<open>What the three bits mean: GPS, battery, network, as in the names of the patterns.\<close>

fun pattern_of :: "bool \<Rightarrow> bool \<Rightarrow> bool \<Rightarrow> ui_led_pattern" where
  "pattern_of False False False = UI_NGPS_NBAT_NLTE"
| "pattern_of False False True = UI_NGPS_NBAT_LTE"
| "pattern_of False True False = UI_NGPS_BAT_NLTE"
| "pattern_of False True True = UI_NGPS_BAT_LTE"
| "pattern_of True False False = UI_GPS_NBAT_NLTE"
| "pattern_of True False True = UI_GPS_NBAT_LTE"
| "pattern_of True True False = UI_GPS_BAT_NLTE"
| "pattern_of True True True = UI_GPS_BAT_LTE"

datatype ui_event = Gps bool | Lte bool bool | Chrq bool | Refresh bool

text \<open>The calls of the program: \<^verbatim>\<open>getGPS\<close>, \<^verbatim>\<open>modem_configure\<close>, the interrupt of the
  charger, and the main loop.\<close>

fun ui_call :: "ui_event \<Rightarrow> ui_state \<Rightarrow> ui_state option" where
  "ui_call (Gps got) s = (if got then ui_led_active GPS_ACTIVE_MASK False s else ui_led_deactive GPS_ACTIVE_MASK False s)"
| "ui_call (Lte up flg) s = (if up then ui_led_active LTE_CONNECT_MASK flg s else ui_led_deactive LTE_CONNECT_MASK flg s)"
| "ui_call (Chrq pin) s = checkCHRQ pin s"
| "ui_call (Refresh pin) s = updateLedPattern pin s"

fun ui_calls :: "ui_event list \<Rightarrow> ui_state \<Rightarrow> ui_state option" where
  "ui_calls [] s = Some s"
| "ui_calls (c # cs) s = do { s' \<leftarrow> ui_call c s; ui_calls cs s' }"

text \<open>The specification: three independent flags.\<close>

fun flags_after :: "ui_event \<Rightarrow> bool \<times> bool \<times> bool \<Rightarrow> bool \<times> bool \<times> bool" where
  "flags_after (Gps got) (g, b, l) = (got, b, l)"
| "flags_after (Lte up flg) (g, b, l) = (g, b, up)"
| "flags_after (Chrq pin) (g, b, l) = (g, \<not> pin, l)"
| "flags_after (Refresh pin) (g, b, l) = (g, \<not> pin, l)"

definition flags :: "ui_state \<Rightarrow> bool \<times> bool \<times> bool" where
  "flags s = (bit (patternIndex s) 2, bit (patternIndex s) 1, bit (patternIndex s) 0)"

lemma u8_le_7: "(w :: u8) \<le> 7 \<Longrightarrow> w = 0 \<or> w = 1 \<or> w = 2 \<or> w = 3 \<or> w = 4 \<or> w = 5 \<or> w = 6 \<or> w = 7"
proof -
  assume "w \<le> 7"
  then have "unat w \<le> 7" by (simp add: word_le_nat_alt)
  then have "unat w = 0 \<or> unat w = 1 \<or> unat w = 2 \<or> unat w = 3 \<or> unat w = 4 \<or> unat w = 5 \<or> unat w = 6 \<or> unat w = 7" by presburger
  then show ?thesis by (simp add: word_unat_eq_iff)
qed

lemmas mask_defs = GPS_ACTIVE_MASK_def LTE_CONNECT_MASK_def BAT_CHARGING_MASK_def ALL_UI_MASK_def

lemma pattern_of_flags:
  "patternIndex s \<le> 7 \<Longrightarrow> rd ui_pattern (unat (patternIndex s)) =
    Some (case flags s of (g, b, l) \<Rightarrow> pattern_of g b l)"
  by (drule u8_le_7) (auto simp: flags_def ui_pattern_def)

lemma ui_led_set_effect_ok:
  assumes "effects s = effect_table"
  shows "\<exists>s'. ui_led_set_effect p s = Some s' \<and> effects s' = effect_table \<and> patternIndex s' = patternIndex s \<and>
    effect (leds s') = Some (Table p)"
proof -
  have "rd (effect_steps (effect_table p)) 0 = Some (effect_steps (effect_table p) ! 0)"
    using valid_effect_table [of p] by (intro rd_in) (simp add: valid_effect_def)
  then show ?thesis using assms by (auto simp: ui_led_set_effect_def led_update_def Let_def)
qed

lemma show_pattern_ok:
  assumes "effects s = effect_table" "patternIndex s \<le> 7"
  shows "\<exists>s'. show_pattern s = Some s' \<and> effects s' = effect_table \<and> patternIndex s' = patternIndex s"
  using pattern_of_flags [OF assms(2)] ui_led_set_effect_ok [OF assms(1)] by (simp add: show_pattern_def) blast

definition ui_ok :: "ui_state \<Rightarrow> bool" where
  "ui_ok s \<longleftrightarrow> effects s = effect_table \<and> patternIndex s \<le> 7"

lemma flags_upd [simp]: "flags (s\<lparr>patternIndex := w\<rparr>) = (bit w 2, bit w 1, bit w 0)"
  by (simp add: flags_def)

lemma mask_le_7:
  assumes "(w :: u8) \<le> 7"
  shows "w OR GPS_ACTIVE_MASK \<le> 7" "w OR LTE_CONNECT_MASK \<le> 7" "w OR BAT_CHARGING_MASK \<le> 7" "w AND NOT m \<le> 7"
    "w AND ALL_UI_MASK = w"
proof -
  have "w AND NOT m \<le> w" by (rule word_and_le2)
  then show "w AND NOT m \<le> 7" using assms by (rule order_trans)
qed (use u8_le_7 [OF assms] in \<open>auto simp: mask_defs\<close>)

lemma ui_led_active_ok:
  assumes "ui_ok s" "patternIndex s OR m \<le> 7"
  shows "\<exists>s'. ui_led_active m flg s = Some s' \<and> ui_ok s' \<and> patternIndex s' = patternIndex s OR m"
  using show_pattern_ok [of "s\<lparr>patternIndex := patternIndex s OR m\<rparr>"] assms
  by (cases flg) (auto simp: ui_ok_def ui_led_active_def)

lemma ui_led_deactive_ok:
  assumes "ui_ok s"
  shows "\<exists>s'. ui_led_deactive m flg s = Some s' \<and> ui_ok s' \<and> patternIndex s' = patternIndex s AND NOT m"
  using show_pattern_ok [of "s\<lparr>patternIndex := patternIndex s AND NOT m\<rparr>"] assms mask_le_7(4) [of "patternIndex s" m]
  by (cases flg) (auto simp: ui_ok_def ui_led_deactive_def)

lemma checkCHRQ_ok:
  assumes "ui_ok s"
  shows "\<exists>s'. checkCHRQ pin s = Some s' \<and> ui_ok s' \<and> flags s' = flags_after (Chrq pin) (flags s)"
  using ui_led_active_ok [OF assms mask_le_7(3), of False] ui_led_deactive_ok [OF assms, of BAT_CHARGING_MASK False] assms
  by (auto simp: checkCHRQ_def flags_def mask_defs bit_simps ui_ok_def)

lemma updateLedPattern_ok:
  assumes "ui_ok s"
  shows "\<exists>s'. updateLedPattern pin s = Some s' \<and> ui_ok s' \<and> flags s' = flags_after (Refresh pin) (flags s) \<and>
    effect (leds s') = Some (Table (case flags s' of (g, b, l) \<Rightarrow> pattern_of g b l))"
proof -
  obtain s1 where s1: "checkCHRQ pin s = Some s1" "ui_ok s1" "flags s1 = flags_after (Chrq pin) (flags s)"
    using checkCHRQ_ok [OF assms] by blast
  have m: "patternIndex s1 AND ALL_UI_MASK = patternIndex s1" "s1\<lparr>patternIndex := patternIndex s1\<rparr> = s1"
    using mask_le_7(5) [of "patternIndex s1"] s1(2) by (simp_all add: ui_ok_def)
  define q where "q = (case flags s1 of (g, b, l) \<Rightarrow> pattern_of g b l)"
  have p: "rd ui_pattern (unat (patternIndex s1)) = Some q"
    unfolding q_def by (rule pattern_of_flags) (use s1(2) in \<open>simp add: ui_ok_def\<close>)
  have "updateLedPattern pin s = (if effect (leds s1) \<noteq> Some (Table q) then ui_led_set_effect q s1 else Some s1)"
    by (simp add: updateLedPattern_def s1(1) Let_def m p)
  moreover obtain s3 where "ui_led_set_effect q s1 = Some s3" "effects s3 = effect_table" "patternIndex s3 = patternIndex s1"
      "effect (leds s3) = Some (Table q)"
    using ui_led_set_effect_ok [of s1 q] s1(2) by (auto simp: ui_ok_def)
  moreover have "flags_after (Refresh pin) (flags s) = flags s1" using s1(3) by (cases "flags s") simp
  ultimately show ?thesis using s1(2) by (cases "effect (leds s1) = Some (Table q)") (simp_all add: ui_ok_def flags_def q_def)
qed

lemma ui_call_ok:
  assumes "ui_ok s"
  shows "\<exists>s'. ui_call c s = Some s' \<and> ui_ok s' \<and> flags s' = flags_after c (flags s)"
proof (cases c)
  case (Gps got)
  then show ?thesis using ui_led_active_ok [OF assms mask_le_7(1), of False] ui_led_deactive_ok [OF assms, of GPS_ACTIVE_MASK False] assms
    by (auto simp: flags_def mask_defs bit_simps ui_ok_def)
next
  case (Lte up flg)
  then show ?thesis using ui_led_active_ok [OF assms mask_le_7(2), of flg] ui_led_deactive_ok [OF assms, of LTE_CONNECT_MASK flg] assms
    by (auto simp: flags_def mask_defs bit_simps ui_ok_def)
qed (use checkCHRQ_ok [OF assms] updateLedPattern_ok [OF assms] in auto)

lemma ui_calls_append: "ui_calls (cs @ ds) s = do { s' \<leftarrow> ui_calls cs s; ui_calls ds s' }"
  by (induction cs arbitrary: s) (auto split: bind_splits)

lemma ui_calls_ok: "ui_ok s \<Longrightarrow> \<exists>s'. ui_calls cs s = Some s' \<and> ui_ok s' \<and> flags s' = fold flags_after cs (flags s)"
proof (induction cs arbitrary: s)
  case (Cons c cs)
  obtain s1 where "ui_call c s = Some s1" "ui_ok s1" "flags s1 = flags_after c (flags s)" using ui_call_ok [OF Cons.prems] by blast
  then show ?case using Cons.IH [of s1] by simp
qed simp



section \<open>Every changed button is reported once\<close>

definition set_bits_of :: "u32 \<Rightarrow> nat list" where
  "set_bits_of w = filter (bit w) [0..<32]"

lemma first_changed_filter:
  "first_changed w i n = (case filter (bit w) [i..<i + n] of [] \<Rightarrow> 0 | k # ks \<Rightarrow> k + 1)"
  by (induction n arbitrary: i) (simp_all add: upt_conv_Cons del: upt_Suc)

lemma filter_drop_first: "filter P xs = k # ks \<Longrightarrow> distinct xs \<Longrightarrow> filter (\<lambda>i. P i \<and> i \<noteq> k) xs = ks"
proof -
  assume f: "filter P xs = k # ks" and d: "distinct xs"
  have "filter (\<lambda>i. P i \<and> i \<noteq> k) xs = filter (\<lambda>i. i \<noteq> k) (k # ks)" by (simp flip: f add: conj_commute)
  moreover have "distinct (k # ks)" using d by (simp flip: f)
  ultimately show ?thesis by (auto simp: filter_id_conv)
qed

lemma set_bits_step:
  assumes "w \<noteq> 0"
  obtains k where "first_changed w 0 32 = k + 1" "set_bits_of w = k # set_bits_of (w AND NOT (push_bit k 1))"
proof -
  have "set_bits_of w \<noteq> []"
  proof
    assume "set_bits_of w = []"
    then have "\<not> bit w i" if "i < 32" for i using that by (auto simp: set_bits_of_def filter_empty_conv)
    then show False using assms by (auto intro: bit_word_eqI)
  qed
  then obtain k ks where k: "set_bits_of w = k # ks" by (cases "set_bits_of w") auto
  have "set_bits_of (w AND NOT (push_bit k 1)) = filter (\<lambda>i. bit w i \<and> i \<noteq> k) [0..<32]"
    unfolding set_bits_of_def by (rule filter_cong) (auto simp: bit_simps)
  also have "\<dots> = ks" using k by (intro filter_drop_first) (simp_all add: set_bits_of_def)
  finally show ?thesis using that [of k] k by (simp add: first_changed_filter set_bits_of_def)
qed

definition button_evt :: "u32 \<Rightarrow> nat \<Rightarrow> ui_evt" where
  "button_evt button_states i =
    (if bit button_states i then UI_EVT_BUTTON_ACTIVE else UI_EVT_BUTTON_INACTIVE) (of_nat (i + 1))"

lemma button_handler_bits:
  "length (set_bits_of w) \<le> fuel \<Longrightarrow> button_handler fuel states w = Some (map (button_evt states) (set_bits_of w))"
proof (induction fuel arbitrary: w)
  case 0
  have "w = 0" by (rule ccontr) (use 0 in \<open>auto elim: set_bits_step\<close>)
  then show ?case by (simp add: set_bits_of_def button_handler.simps)
next
  case (Suc fuel)
  show ?case
  proof (cases "w = 0")
    case False
    then obtain k where k: "first_changed w 0 32 = k + 1" "set_bits_of w = k # set_bits_of (w AND NOT (push_bit k 1))"
      by (rule set_bits_step)
    have "button_handler (Suc fuel) states w =
        map_option ((#) (button_evt states k)) (button_handler fuel states (w AND NOT (push_bit k 1)))"
      by (subst button_handler.simps) (simp add: False k(1) button_evt_def Let_def)
    also have "\<dots> = map_option ((#) (button_evt states k)) (Some (map (button_evt states) (set_bits_of (w AND NOT (push_bit k 1)))))"
      using Suc.IH [of "w AND NOT (push_bit k 1)"] Suc.prems k(2) by (simp del: button_handler.simps)
    finally show ?thesis by (simp add: k(2))
  qed (simp add: set_bits_of_def button_handler.simps)
qed

text \<open>C38: The loop over the changed buttons ends after at most 32 rounds, and reports every changed button exactly once,
  lowest first, with its number and whether it is down.\<close>

theorem button_handler_reports_each:
  "button_handler 32 states changed = Some (map (button_evt states) (filter (bit changed) [0..<32]))"
proof -
  have "length (set_bits_of changed) \<le> 32" by (simp add: set_bits_of_def length_filter_le [THEN order_trans])
  then show ?thesis using button_handler_bits by (simp add: set_bits_of_def)
qed

end
