(* ===== verification/Gps.thy ===== *)
theory Gps
  imports CFormat Ui Complex_Main
begin

text \<open>
  \<^verbatim>\<open>gps_controller/gps_controller.c\<close> with the external receiver (\<^verbatim>\<open>EXTERN_GPS\<close>): the
  bytes of the serial line become sentences, and a sentence becomes a position.  Each interrupt and
  each call is one step.  Floating-point arithmetic and \<^verbatim>\<open>atof\<close> are parameters.  The first
  character of every sentence makes the handler read the byte before its buffer
  (\<^verbatim>\<open>uart_buf1[pos1 - 1]\<close> with \<^verbatim>\<open>pos1\<close> 0): \<^verbatim>\<open>below\<close> is what lies there.
\<close>

section \<open>Receiving\<close>

record gps_rx =
  uart_buf1 :: bytes
  pos1 :: u8
  print_buf1 :: bytes
  printit :: bool

definition strGRMC :: bytes where "strGRMC = asc ''$GNRMC'' @ [0]"

definition uart_gps_rx_handler :: "u8 \<Rightarrow> u8 \<Rightarrow> gps_rx \<Rightarrow> gps_rx option" where
  "uart_gps_rx_handler below c g = do {
     let p = (if c = 0x24 then 0 else pos1 g);
     buf \<leftarrow> wr (uart_buf1 g) (unat p) c;
     prev \<leftarrow> (if p = 0 then Some below else rd buf (unat p - 1));
     if prev = 13 \<and> c = 10 then do {
       guard (p \<noteq> 0);
       buf1 \<leftarrow> wr buf (unat p - 1) 10;
       buf2 \<leftarrow> wr buf1 (unat p) 0;
       rmc \<leftarrow> strneq buf2 strGRMC 6;
       if rmc then do {
         n \<leftarrow> strlen buf2;
         pb \<leftarrow> wr_bytes (print_buf1 g) 0 (take (n + 1) buf2);
         Some \<lparr>uart_buf1 = buf2, pos1 = 0, print_buf1 = pb, printit = True\<rparr>
       }
       else Some (g\<lparr>uart_buf1 := buf2, pos1 := 0\<rparr>)
     }
     else Some (g\<lparr>uart_buf1 := buf, pos1 := p + 1\<rparr>)
   }"

text \<open>The interrupt: every byte the driver has.\<close>

fun uart_gps_cb :: "u8 \<Rightarrow> bytes \<Rightarrow> gps_rx \<Rightarrow> gps_rx option" where
  "uart_gps_cb below [] g = Some g"
| "uart_gps_cb below (c # cs) g = do { g' \<leftarrow> uart_gps_rx_handler below c g; uart_gps_cb below cs g' }"

section \<open>Parsing\<close>

record 'f gprmc =
  latitude :: 'f
  lat :: u8
  longitude :: 'f
  lon :: u8
  speed :: 'f
  course :: 'f

text \<open>\<^verbatim>\<open>memcpy(buf, p, strchr(p, ',') - p)\<close> into the cleared 20 bytes: the string in them.\<close>

definition copy_field :: "bytes \<Rightarrow> nat \<Rightarrow> bytes option" where
  "copy_field nmea p = do {
     k \<leftarrow> find_char (ch CHR '','') (drop p nmea);
     f \<leftarrow> rd_bytes nmea p k;
     buf \<leftarrow> wr_bytes (replicate 20 0) 0 f;
     n \<leftarrow> strlen buf;
     Some (take n buf)
   }"

definition getRMC :: "(bytes \<Rightarrow> 'f) \<Rightarrow> bytes \<Rightarrow> 'f gprmc \<Rightarrow> (int \<times> 'f gprmc) option" where
  "getRMC atof nmea loc = do {
     p1 \<leftarrow> after_char (ch CHR '','') nmea 0;
     p2 \<leftarrow> after_char (ch CHR '','') nmea p1;
     a \<leftarrow> rd nmea p2;
     if a \<noteq> ch CHR ''A'' then Some (-1, loc)
     else do {
       p3 \<leftarrow> after_char (ch CHR '','') nmea p2;
       f \<leftarrow> copy_field nmea p3;
       if f = [] then Some (-1, loc)
       else do {
         let loc1 = loc\<lparr>latitude := atof f\<rparr>;
         p4 \<leftarrow> after_char (ch CHR '','') nmea p3;
         h \<leftarrow> rd nmea p4;
         let loc2 = (if h = ch CHR ''N'' \<or> h = ch CHR ''S'' then loc1\<lparr>lat := h\<rparr>
           else if h = ch CHR '','' then loc1\<lparr>lat := 0\<rparr> else loc1);
         p5 \<leftarrow> after_char (ch CHR '','') nmea p4;
         f' \<leftarrow> copy_field nmea p5;
         let loc3 = loc2\<lparr>longitude := atof f'\<rparr>;
         p6 \<leftarrow> after_char (ch CHR '','') nmea p5;
         h' \<leftarrow> rd nmea p6;
         let loc4 = (if h' = ch CHR ''W'' \<or> h' = ch CHR ''E'' then loc3\<lparr>lon := h'\<rparr>
           else if h' = ch CHR '','' then loc3\<lparr>lon := 0\<rparr> else loc3);
         p7 \<leftarrow> after_char (ch CHR '','') nmea p6;
         n7 \<leftarrow> strlen (drop p7 nmea);
         let loc5 = loc4\<lparr>speed := atof (take n7 (drop p7 nmea))\<rparr>;
         p8 \<leftarrow> after_char (ch CHR '','') nmea p7;
         n8 \<leftarrow> strlen (drop p8 nmea);
         Some (0, loc5\<lparr>course := atof (take n8 (drop p8 nmea))\<rparr>)
       }
     }
   }"

section \<open>The position\<close>

text \<open>The operations on \<^verbatim>\<open>double\<close> the source applies.\<close>

record 'f float_ops =
  div_100 :: "'f \<Rightarrow> 'f"
  to_int :: "'f \<Rightarrow> int"
  sub_int :: "'f \<Rightarrow> int \<Rightarrow> 'f"
  div_06 :: "'f \<Rightarrow> 'f"
  int_add :: "int \<Rightarrow> 'f \<Rightarrow> 'f"
  times_m1 :: "'f \<Rightarrow> 'f"

definition degrees :: "'f float_ops \<Rightarrow> 'f \<Rightarrow> 'f" where
  "degrees ops x =
    (let intpart = to_int ops (div_100 ops x);
         fractpart = div_06 ops (sub_int ops (div_100 ops x) intpart)
     in int_add ops intpart fractpart)"

text \<open>The result, the coordinates of the caller, and the state of receiver and LED.\<close>

definition getGPS ::
  "'f float_ops \<Rightarrow> (bytes \<Rightarrow> 'f) \<Rightarrow> 'f gprmc \<Rightarrow> 'f \<times> 'f \<Rightarrow> gps_rx \<Rightarrow> ui_state \<Rightarrow>
    (int \<times> ('f \<times> 'f) \<times> gps_rx \<times> ui_state) option" where
  "getGPS ops atof rmc0 pos g ui = do {
     (ret, pos', g') \<leftarrow> (if printit g then do {
         (r, rmc) \<leftarrow> getRMC atof (print_buf1 g) rmc0;
         Some (if r = 0 then
             (0, (if lat rmc = ch CHR ''S'' then times_m1 ops (degrees ops (latitude rmc)) else degrees ops (latitude rmc),
                  if lon rmc = ch CHR ''W'' then times_m1 ops (degrees ops (longitude rmc)) else degrees ops (longitude rmc)),
              g\<lparr>printit := False\<rparr>)
           else (-1, pos, g\<lparr>printit := False\<rparr>))
       }
       else Some (-1, pos, g));
     ui' \<leftarrow> (if ret \<noteq> 0 then ui_led_deactive GPS_ACTIVE_MASK False ui else ui_led_active GPS_ACTIVE_MASK False ui);
     Some (ret, pos', g', ui')
   }"

section \<open>Sentences\<close>

text \<open>A sentence between its dollar sign and its line end.\<close>

definition nmea_body :: "bytes \<Rightarrow> bool" where
  "nmea_body b \<longleftrightarrow> length b \<le> 125 \<and> (\<forall>c\<in>set b. c \<notin> {0, 10, 13, 0x24})"

definition nmea_line :: "bytes \<Rightarrow> bytes" where
  "nmea_line b = 0x24 # b @ [13, 10]"

definition gps_ok :: "gps_rx \<Rightarrow> bool" where
  "gps_ok g \<longleftrightarrow> length (uart_buf1 g) = 128 \<and> length (print_buf1 g) = 128"

definition is_rmc :: "bytes \<Rightarrow> bool" where
  "is_rmc b \<longleftrightarrow> take 5 b = asc ''GNRMC''"

text \<open>What a sentence leaves in the receiver.\<close>

definition received :: "bytes \<Rightarrow> gps_rx \<Rightarrow> bool" where
  "received b g \<longleftrightarrow> printit g \<and> (\<exists>r. print_buf1 g = 0x24 # b @ 10 # 0 # r)"

lemma strneq_commute: "strneq a b n = strneq b a n"
  by (induction a b n rule: strneq.induct) (auto split: list.splits)

lemma rx_char:
  assumes "uart_buf1 g = w @ r" "r \<noteq> []" "pos1 g = of_nat (length w)" "length w < 255" "c \<noteq> 0x24" "c \<noteq> 10"
  shows "uart_gps_rx_handler below c g = Some (g\<lparr>uart_buf1 := (w @ [c]) @ tl r, pos1 := of_nat (length (w @ [c]))\<rparr>)"
proof -
  have u: "unat (pos1 g) = length w" using assms by (simp add: unat_of_nat_id)
  have b: "wr (uart_buf1 g) (length w) c = Some ((w @ [c]) @ tl r)" unfolding assms(1) by (rule wr_append) (use assms(2) in auto)
  obtain x where x: "(if pos1 g = 0 then Some below else rd ((w @ [c]) @ tl r) (length w - 1)) = Some x"
    by (cases "pos1 g = 0", simp) (use rd_in [of "length w - 1" "(w @ [c]) @ tl r"] in simp)
  have p: "pos1 g + 1 = of_nat (length (w @ [c]))" using assms(3) by (simp add: add.commute)
  show ?thesis unfolding uart_gps_rx_handler_def Let_def if_not_P [OF assms(5)] u b bind.bind_lunit x p
    by (simp add: assms(6))
qed

lemma rx_dollar:
  assumes "uart_buf1 g \<noteq> []"
  shows "uart_gps_rx_handler below 0x24 g = Some (g\<lparr>uart_buf1 := 0x24 # tl (uart_buf1 g), pos1 := 1\<rparr>)"
  using assms by (cases "uart_buf1 g") (simp_all add: uart_gps_rx_handler_def wr_def)

lemma cb_append: "uart_gps_cb below (xs @ ys) g = do { g' \<leftarrow> uart_gps_cb below xs g; uart_gps_cb below ys g' }"
  by (induction xs arbitrary: g) (auto split: bind_splits)

lemma rx_chars:
  assumes "uart_buf1 g = w @ r" "pos1 g = of_nat (length w)" "length cs \<le> length r" "length w + length r \<le> 255"
    "\<forall>c\<in>set cs. c \<noteq> 0x24 \<and> c \<noteq> 10"
  shows "uart_gps_cb below cs g =
    Some (g\<lparr>uart_buf1 := (w @ cs) @ drop (length cs) r, pos1 := of_nat (length (w @ cs))\<rparr>)"
  using assms
proof (induction cs arbitrary: g w r)
  case Nil
  then show ?case by simp
next
  case (Cons c cs)
  let ?g = "g\<lparr>uart_buf1 := (w @ [c]) @ tl r, pos1 := of_nat (length (w @ [c]))\<rparr>"
  have r: "r \<noteq> []" using Cons.prems(3) by auto
  then have "uart_gps_rx_handler below c g = Some ?g" using Cons.prems by (intro rx_char) (auto simp: Suc_le_eq)
  moreover have "uart_gps_cb below cs ?g = Some (?g\<lparr>uart_buf1 := ((w @ [c]) @ cs) @ drop (length cs) (tl r),
      pos1 := of_nat (length ((w @ [c]) @ cs))\<rparr>)"
    by (rule Cons.IH) (use Cons.prems r in \<open>auto simp: Suc_le_eq\<close>)
  ultimately show ?case by (simp add: drop_Suc)
qed

lemma rx_newline:
  assumes "uart_buf1 g = w @ 13 # r" "r \<noteq> []" "pos1 g = of_nat (length w + 1)" "length w < 254" "0 \<notin> set w"
    "length w < length (print_buf1 g) - 1" "6 \<le> length w"
  shows "uart_gps_rx_handler below 10 g = Some (if take 6 w = asc ''$GNRMC''
    then \<lparr>uart_buf1 = w @ 10 # 0 # tl r, pos1 = 0, print_buf1 = w @ 10 # 0 # drop (length w + 2) (print_buf1 g), printit = True\<rparr>
    else g\<lparr>uart_buf1 := w @ 10 # 0 # tl r, pos1 := 0\<rparr>)"
proof -
  have "unat (pos1 g) = length w + 1" unfolding assms(3) by (rule unat_of_nat_id) (use assms(4) in simp)
  then have u: "unat (pos1 g) = Suc (length w)" "pos1 g \<noteq> 0" by auto
  have b: "wr (uart_buf1 g) (Suc (length w)) 10 = Some (w @ 13 # 10 # tl r)"
      "wr (w @ 13 # 10 # tl r) (length w) 10 = Some (w @ 10 # 10 # tl r)"
      "wr (w @ 10 # 10 # tl r) (Suc (length w)) 0 = Some (w @ 10 # 0 # tl r)"
      "rd (w @ 13 # 10 # tl r) (length w) = Some 13"
    using assms(1,2) by (cases r; simp add: wr_def rd_def list_update_append)+
  have n: "strneq (w @ 10 # 0 # tl r) strGRMC 6 = Some (take 6 w = asc ''$GNRMC'')"
    unfolding strneq_commute [of "w @ 10 # 0 # tl r"] strGRMC_def using assms(7) by (subst strneq_prefix) (auto simp: asc_def)
  have l: "strlen (w @ 10 # 0 # tl r) = Some (Suc (length w))"
    using strlen_append [of "w @ [10]" "tl r"] assms(5) by simp
  have pb: "wr_bytes (print_buf1 g) 0 (w @ [10, 0]) =
      Some (w @ 10 # 0 # drop (length w + 2) (print_buf1 g))"
    using assms(6) by simp
  show ?thesis
    unfolding uart_gps_rx_handler_def Let_def
    by (simp only: u b n l pb bind.bind_lunit guard_simps if_False if_True diff_Suc_1 simp_thms) (simp add: u b n l pb)
qed

text \<open>One sentence: the buffer is free again; if it is an RMC sentence, it is what will be parsed.\<close>

lemma rx_line:
  assumes "gps_ok g" "nmea_body b" "5 \<le> length b"
  shows "\<exists>g'. uart_gps_cb below (nmea_line b) g = Some g' \<and> gps_ok g' \<and>
    (if is_rmc b then received b g' else printit g' = printit g \<and> print_buf1 g' = print_buf1 g)"
proof -
  let ?w = "0x24 # b" and ?r = "tl (uart_buf1 g)"
  let ?g1 = "g\<lparr>uart_buf1 := 0x24 # ?r, pos1 := 1\<rparr>"
  let ?g2 = "?g1\<lparr>uart_buf1 := ([0x24] @ (b @ [13])) @ drop (length (b @ [13])) ?r, pos1 := of_nat (length ([0x24] @ (b @ [13])))\<rparr>"
  have len: "length (uart_buf1 g) = 128" "length (print_buf1 g) = 128" "length b \<le> 125" using assms by (auto simp: gps_ok_def nmea_body_def)
  have plain: "\<forall>c\<in>set (b @ [13]). c \<noteq> 0x24 \<and> c \<noteq> 10" "0 \<notin> set ?w" using assms(2) by (auto simp: nmea_body_def)
  have s1: "uart_gps_rx_handler below 0x24 g = Some ?g1" by (rule rx_dollar) (use len in auto)
  have s2: "uart_gps_cb below (b @ [13]) ?g1 = Some ?g2"
    by (rule rx_chars [where w = "[0x24]" and r = ?r]) (use len plain in auto)
  have dr: "drop (length (b @ [13])) ?r \<noteq> []" using len by (simp add: drop_eq_Nil)
  have s3: "uart_gps_rx_handler below 10 ?g2 = Some (if take 6 ?w = asc ''$GNRMC''
    then \<lparr>uart_buf1 = ?w @ 10 # 0 # tl (drop (length (b @ [13])) ?r), pos1 = 0,
      print_buf1 = ?w @ 10 # 0 # drop (length ?w + 2) (print_buf1 ?g2), printit = True\<rparr>
    else ?g2\<lparr>uart_buf1 := ?w @ 10 # 0 # tl (drop (length (b @ [13])) ?r), pos1 := 0\<rparr>)"
    by (rule rx_newline) (use len plain dr assms(3) in auto)
  have rmc: "take 6 ?w = asc ''$GNRMC'' \<longleftrightarrow> is_rmc b" by (simp add: is_rmc_def)
  have "uart_gps_cb below (nmea_line b) g = uart_gps_rx_handler below 10 ?g2"
  proof -
    have "nmea_line b = 0x24 # ((b @ [13]) @ [10])" by (simp add: nmea_line_def)
    then have "uart_gps_cb below (nmea_line b) g = do { g2 \<leftarrow> uart_gps_cb below (b @ [13]) ?g1; uart_gps_cb below [10] g2 }"
      by (simp only: uart_gps_cb.simps(2) s1 bind.bind_lunit cb_append [of below "b @ [13]"])
    then show ?thesis by (simp only: s2 bind.bind_lunit) (auto split: bind_splits)
  qed
  note eq = trans [OF this s3 [unfolded rmc]]
  show ?thesis unfolding eq using len by (cases "is_rmc b") (auto simp: gps_ok_def received_def)
qed

lemma rx_lines:
  assumes "gps_ok g" "\<forall>b\<in>set bs. nmea_body b \<and> 5 \<le> length b"
  shows "\<exists>g'. uart_gps_cb below (concat (map nmea_line bs)) g = Some g' \<and> gps_ok g' \<and>
    (case rev (filter is_rmc bs) of [] \<Rightarrow> printit g' = printit g \<and> print_buf1 g' = print_buf1 g | b # _ \<Rightarrow> received b g')"
  using assms(2)
proof (induction bs rule: rev_induct)
  case Nil
  then show ?case using assms(1) by simp
next
  case (snoc b bs)
  then obtain g' where g': "uart_gps_cb below (concat (map nmea_line bs)) g = Some g'" "gps_ok g'"
    "case rev (filter is_rmc bs) of [] \<Rightarrow> printit g' = printit g \<and> print_buf1 g' = print_buf1 g | b # _ \<Rightarrow> received b g'" by auto
  obtain g'' where "uart_gps_cb below (nmea_line b) g' = Some g''" "gps_ok g''"
    "if is_rmc b then received b g'' else printit g'' = printit g' \<and> print_buf1 g'' = print_buf1 g'"
    using rx_line [OF g'(2), of b] snoc.prems by auto
  then show ?case using g' by (auto simp: cb_append received_def split: if_splits list.splits)
qed

section \<open>The position of the last sentence\<close>

definition field :: "bytes \<Rightarrow> bool" where
  "field f \<longleftrightarrow> (\<forall>c\<in>set f. c \<notin> {0, 10, 13, 0x24, 0x2C})"

text \<open>The texts of an RMC sentence with a valid fix.\<close>

record rmc_text =
  t_time :: bytes
  t_lat :: bytes
  t_ns :: u8
  t_lon :: bytes
  t_ew :: u8
  t_speed :: bytes
  t_course :: bytes
  t_rest :: bytes

definition rmc_tail :: "rmc_text \<Rightarrow> bytes" where
  "rmc_tail t = t_speed t @ 0x2C # t_course t @ 0x2C # t_rest t"

definition rmc_body :: "rmc_text \<Rightarrow> bytes" where
  "rmc_body t = asc ''GNRMC'' @ 0x2C # t_time t @ 0x2C # asc ''A'' @ 0x2C # t_lat t @ 0x2C # [t_ns t] @ 0x2C #
    t_lon t @ 0x2C # [t_ew t] @ 0x2C # rmc_tail t"

definition rmc_ok :: "rmc_text \<Rightarrow> bool" where
  "rmc_ok t \<longleftrightarrow> field (t_time t) \<and> field (t_lat t) \<and> field (t_lon t) \<and> field (t_speed t) \<and> field (t_course t) \<and>
    t_lat t \<noteq> [] \<and> length (t_lat t) < 20 \<and> length (t_lon t) < 20 \<and>
    (t_ns t = ch CHR ''N'' \<or> t_ns t = ch CHR ''S'') \<and> (t_ew t = ch CHR ''E'' \<or> t_ew t = ch CHR ''W'')"

lemma comma: "ch CHR '','' = 0x2C" by simp

lemma field_step:
  assumes "drop p nmea = xs @ 0x2C # r" "0x2C \<notin> set xs" "0 \<notin> set xs"
  shows "after_char (ch CHR '','') nmea p = Some (p + length xs + 1)" "drop (p + length xs + 1) nmea = r"
proof -
  show "after_char (ch CHR '','') nmea p = Some (p + length xs + 1)"
    using find_char_append [OF assms(2,3), of r] by (simp only: after_char_def assms(1) comma) simp
  have "drop (length xs + 1) (drop p nmea) = r" unfolding assms(1) by simp
  then show "drop (p + length xs + 1) nmea = r" by (simp add: add.commute add.left_commute)
qed

lemma rd_drop: "drop p nmea = x # r \<Longrightarrow> rd nmea p = Some x"
  by (metis drop_eq_Nil list.distinct(1) not_le nth_via_drop rd_in)

lemma copy_field_eq:
  assumes "drop p nmea = xs @ 0x2C # r" "0x2C \<notin> set xs" "0 \<notin> set xs" "length xs < 20"
  shows "copy_field nmea p = Some xs"
proof -
  note n = assms(2,3)
  have f: "find_char (ch CHR '','') (drop p nmea) = Some (length xs)"
    unfolding assms(1) comma by (rule find_char_append [OF n])
  have "p + length xs \<le> length nmea" using arg_cong [OF assms(1), of length] by simp
  then have r: "rd_bytes nmea p (length xs) = Some xs" by (simp add: assms(1))
  have w: "wr_bytes (replicate 20 0) 0 xs = Some (xs @ 0 # replicate (19 - length xs) 0)"
    using assms(4) by (simp add: wr_bytes_def Suc_diff_le flip: replicate_Suc)
  show ?thesis unfolding copy_field_def f r w bind.bind_lunit by (simp add: strlen_append n(2))
qed

lemma fieldD: "field f \<Longrightarrow> 0x2C \<notin> set f" "field f \<Longrightarrow> 0 \<notin> set f"
  by (auto simp: field_def)

lemma rmc_tail_no_nul: "nmea_body (rmc_body t) \<Longrightarrow> 0 \<notin> set (rmc_tail t)"
  by (auto simp: nmea_body_def rmc_body_def)

lemma getRMC_exact:
  assumes t: "rmc_ok t" and b: "nmea_body (rmc_body t)" and n: "nmea = 0x24 # rmc_body t @ 10 # 0 # r"
  shows "getRMC atof nmea loc = Some (0, \<lparr>latitude = atof (t_lat t), lat = t_ns t, longitude = atof (t_lon t), lon = t_ew t,
    speed = atof (rmc_tail t @ [10]), course = atof (t_course t @ 0x2C # t_rest t @ [10])\<rparr>)"
proof -
  let ?r8 = "t_course t @ 0x2C # t_rest t @ 10 # 0 # r"
  let ?r7 = "t_speed t @ 0x2C # ?r8"
  let ?r6 = "[t_ew t] @ 0x2C # ?r7"
  let ?r5 = "t_lon t @ 0x2C # ?r6"
  let ?r4 = "[t_ns t] @ 0x2C # ?r5"
  let ?r3 = "t_lat t @ 0x2C # ?r4"
  let ?r2 = "asc ''A'' @ 0x2C # ?r3"
  note f = t [unfolded rmc_ok_def]
  have d0: "drop 0 nmea = (0x24 # asc ''GNRMC'') @ 0x2C # (t_time t @ 0x2C # ?r2)"
    by (simp add: n rmc_body_def rmc_tail_def)
  obtain p1 where p1: "after_char (ch CHR '','') nmea 0 = Some p1" "drop p1 nmea = t_time t @ 0x2C # ?r2"
    using field_step [OF d0] by auto
  obtain p2 where p2: "after_char (ch CHR '','') nmea p1 = Some p2" "drop p2 nmea = ?r2"
    using field_step [OF p1(2)] f by (auto dest: fieldD)
  obtain p3 where p3: "after_char (ch CHR '','') nmea p2 = Some p3" "drop p3 nmea = ?r3"
    using field_step [OF p2(2)] by auto
  obtain p4 where p4: "after_char (ch CHR '','') nmea p3 = Some p4" "drop p4 nmea = ?r4"
    using field_step [OF p3(2)] f by (auto dest: fieldD)
  obtain p5 where p5: "after_char (ch CHR '','') nmea p4 = Some p5" "drop p5 nmea = ?r5"
    using field_step [OF p4(2)] f by auto
  obtain p6 where p6: "after_char (ch CHR '','') nmea p5 = Some p6" "drop p6 nmea = ?r6"
    using field_step [OF p5(2)] f by (auto dest: fieldD)
  obtain p7 where p7: "after_char (ch CHR '','') nmea p6 = Some p7" "drop p7 nmea = ?r7"
    using field_step [OF p6(2)] f by auto
  obtain p8 where p8: "after_char (ch CHR '','') nmea p7 = Some p8" "drop p8 nmea = ?r8"
    using field_step [OF p7(2)] f by (auto dest: fieldD)
  have c: "copy_field nmea p3 = Some (t_lat t)" "copy_field nmea p5 = Some (t_lon t)"
    using copy_field_eq [OF p3(2)] copy_field_eq [OF p5(2)] f by (auto dest: fieldD)
  have h: "rd nmea p2 = Some (ch CHR ''A'')" "rd nmea p4 = Some (t_ns t)" "rd nmea p6 = Some (t_ew t)"
    using rd_drop [of p2 nmea] rd_drop [of p4 nmea] rd_drop [of p6 nmea] p2(2) p4(2) p6(2) by auto
  have n0: "0 \<notin> set (rmc_tail t @ [10])" "0 \<notin> set (t_course t @ 0x2C # t_rest t @ [10])"
    using rmc_tail_no_nul [OF b] by (auto simp: rmc_tail_def)
  have r7: "drop p7 nmea = (rmc_tail t @ [10]) @ 0 # r" and r8: "drop p8 nmea = (t_course t @ 0x2C # t_rest t @ [10]) @ 0 # r"
    unfolding p7(2) p8(2) by (simp_all add: rmc_tail_def)
  have m: "strlen (drop p7 nmea) = Some (length (rmc_tail t @ [10]))"
      "strlen (drop p8 nmea) = Some (length (t_course t @ 0x2C # t_rest t @ [10]))"
      "take (length (rmc_tail t @ [10])) (drop p7 nmea) = rmc_tail t @ [10]"
      "take (length (t_course t @ 0x2C # t_rest t @ [10])) (drop p8 nmea) = t_course t @ 0x2C # t_rest t @ [10]"
    unfolding r7 r8 using strlen_append [OF n0(1)] strlen_append [OF n0(2)] by simp_all
  show ?thesis
    unfolding getRMC_def p1(1) p2(1) p3(1) p4(1) p5(1) p6(1) p7(1) p8(1) c h bind.bind_lunit m Let_def using f by auto
qed

section \<open>From the serial line to the coordinates\<close>

definition rmc_position :: "'f float_ops \<Rightarrow> (bytes \<Rightarrow> 'f) \<Rightarrow> rmc_text \<Rightarrow> 'f \<times> 'f" where
  "rmc_position ops atof t =
    (if t_ns t = ch CHR ''S'' then times_m1 ops (degrees ops (atof (t_lat t))) else degrees ops (atof (t_lat t)),
     if t_ew t = ch CHR ''W'' then times_m1 ops (degrees ops (atof (t_lon t))) else degrees ops (atof (t_lon t)))"

lemma is_rmc_body: "is_rmc (rmc_body t)"
  by (simp add: is_rmc_def rmc_body_def)


definition int_ops :: "int float_ops" where
  "int_ops = \<lparr>div_100 = (\<lambda>x. x div 100), to_int = (\<lambda>x. x), sub_int = (-), div_06 = (\<lambda>x. x * 5 div 3), int_add = (+),
    times_m1 = uminus\<rparr>"

definition rmc_example :: rmc_text where
  "rmc_example = \<lparr>t_time = asc ''084852.000'', t_lat = asc ''2236.9453'', t_ns = ch CHR ''N'', t_lon = asc ''11408.4790'',
    t_ew = ch CHR ''E'', t_speed = asc ''0.53'', t_course = asc ''292.44'', t_rest = asc ''141216,,,A*75''\<rparr>"


text \<open>Nothing bounds the position in the buffer: 129 bytes of noise without a dollar sign or a line end leave it.\<close>

lemma gps_noise_overflows:
  assumes "length (uart_buf1 g) = 128" "pos1 g = 0" "length cs = 128" "\<forall>c\<in>set (cs @ [d]). c \<noteq> 0x24 \<and> c \<noteq> 10"
  shows "uart_gps_cb below (cs @ [d]) g = None"
proof -
  have "uart_gps_cb below cs g = Some (g\<lparr>uart_buf1 := ([] @ cs) @ drop (length cs) (uart_buf1 g), pos1 := of_nat (length ([] @ cs))\<rparr>)"
    by (rule rx_chars) (use assms in auto)
  then have "uart_gps_cb below cs g = Some (g\<lparr>uart_buf1 := cs, pos1 := 128\<rparr>)" using assms by simp
  then show ?thesis using assms(3,4) by (simp add: cb_append uart_gps_rx_handler_def)
qed

text \<open>In exact arithmetic the formula turns degrees and minutes, as a receiver writes them, into degrees.\<close>

definition exact_ops :: "rat float_ops" where
  "exact_ops = \<lparr>div_100 = (\<lambda>x. x / 100), to_int = floor, sub_int = (\<lambda>x k. x - of_int k), div_06 = (\<lambda>x. x / (6 / 10)),
    int_add = (\<lambda>k x. of_int k + x), times_m1 = uminus\<rparr>"

lemma degrees_exact:
  assumes "0 \<le> m" "m < 100"
  shows "degrees exact_ops (of_nat (100 * d) + m) = of_nat d + m / 60"
proof -
  have e: "(of_nat (100 * d) + m) / 100 = of_nat d + m / 100" by (simp add: add_divide_distrib)
  moreover have "floor (of_nat d + m / 100) = int d" using assms by (intro floor_unique) simp_all
  ultimately show ?thesis unfolding degrees_def exact_ops_def Let_def float_ops.simps e by simp
qed

end
