(* ===== verification/Mqtt.thy ===== *)
theory Mqtt
  imports Errno MqttConfig Modem
begin

text \<open>
  \<^verbatim>\<open>mqtt/mqtt.c\<close>: the client of the broker.  The MQTT library of the operating system is a
  parameter: its events are inputs, with what reading the payload of a message will return, and the
  calls the tracker makes of it are recorded.  The two LEDs are whether they are lit.
\<close>

section \<open>Names and topics\<close>

definition MODEM_IMEI_LEN :: nat where "MODEM_IMEI_LEN = 15"

definition CLIENT_ID_LEN :: nat where "CLIENT_ID_LEN = MODEM_IMEI_LEN + 4"

definition MQTT_TOPIC_SIZE :: nat where "MQTT_TOPIC_SIZE = CLIENT_ID_LEN + 31"

text \<open>\<^verbatim>\<open>err\<close> and \<^verbatim>\<open>imei_buf\<close> are what the modem answered.\<close>

definition iotex_mqtt_get_client_id :: "int \<Rightarrow> bytes \<Rightarrow> bytes option" where
  "iotex_mqtt_get_client_id err imei_buf = do {
     (_, b) \<leftarrow> snprintf (replicate (CLIENT_ID_LEN + 1) 0) 0 (CLIENT_ID_LEN + 1) (asc ''nrf-%s'')
       [FmtS (iotex_modem_get_imei err imei_buf)];
     Some b
   }"

definition iotex_mqtt_get_topic :: "bytes \<Rightarrow> bytes \<Rightarrow> bytes option" where
  "iotex_mqtt_get_topic client_id buf = map_option snd (snprintf buf 0 (length buf) (asc ''device/%s/data'') [FmtS client_id])"

definition iotex_mqtt_get_config_topic :: "bytes \<Rightarrow> bytes \<Rightarrow> bytes option" where
  "iotex_mqtt_get_config_topic client_id buf = map_option snd (snprintf buf 0 (length buf) (asc ''topic/config/%s'') [FmtS client_id])"

definition iotex_get_heart_beat_topic :: "bytes \<Rightarrow> bytes \<Rightarrow> bytes option" where
  "iotex_get_heart_beat_topic client_id buf = map_option snd (snprintf buf 0 (length buf) (asc ''device/%s/connect'') [FmtS client_id])"

section \<open>Messages\<close>

text \<open>What is handed to the library: topic, payload, quality of service, message id.\<close>

record mqtt_message =
  m_topic :: bytes
  m_payload :: bytes
  m_qos :: nat
  m_id :: u16

datatype mqtt_call = Subscribe bytes nat u16 | Publish mqtt_message | Puback u16 | Disconnect

definition string_of :: "bytes \<Rightarrow> bytes option" where
  "string_of b = do { n \<leftarrow> strlen b; Some (take n b) }"

text \<open>\<^verbatim>\<open>buf\<close> is the uninitialised array of the topic, \<^verbatim>\<open>random\<close> the number of the generator.\<close>

definition iotex_mqtt_publish_data :: "bytes \<Rightarrow> bytes \<Rightarrow> u32 \<Rightarrow> nat \<Rightarrow> bytes \<Rightarrow> mqtt_call option" where
  "iotex_mqtt_publish_data client_id buf random qos data = do {
     t \<leftarrow> iotex_mqtt_get_topic client_id buf;
     topic \<leftarrow> string_of t;
     payload \<leftarrow> string_of data;
     Some (Publish \<lparr>m_topic = topic, m_payload = payload, m_qos = qos, m_id = ucast random\<rparr>)
   }"

definition iotex_mqtt_heart_beat :: "bytes \<Rightarrow> bytes \<Rightarrow> u32 \<Rightarrow> nat \<Rightarrow> mqtt_call option" where
  "iotex_mqtt_heart_beat client_id buf random qos = do {
     t \<leftarrow> iotex_get_heart_beat_topic client_id buf;
     topic \<leftarrow> string_of t;
     Some (Publish \<lparr>m_topic = topic, m_payload = asc ''a'', m_qos = qos, m_id = ucast random\<rparr>)
   }"

definition subscribe_config_topic :: "bytes \<Rightarrow> bytes \<Rightarrow> mqtt_call option" where
  "subscribe_config_topic client_id buf = do {
     t \<leftarrow> iotex_mqtt_get_config_topic client_id buf;
     topic \<leftarrow> string_of t;
     Some (Subscribe topic 1 1234)
   }"

section \<open>The payload of a message\<close>

text \<open>
  Each read of the library fails with a negative number or writes some bytes, none at the end of the
  stream, and never more than it was asked for.  \<^term>\<open>None\<close>: it writes more, or the script of its
  answers ends, that is, it blocks.
\<close>

fun read_payload :: "(int + bytes) list \<Rightarrow> bytes \<Rightarrow> nat \<Rightarrow> nat \<Rightarrow> (int \<times> bytes) option" where
  "read_payload rs buf p e =
    (if p < e then
       (case rs of
          [] \<Rightarrow> None
        | Inl ret # rs' \<Rightarrow> if ret < 0 then Some (ret, buf) else None
        | Inr d # rs' \<Rightarrow>
            if d = [] then Some (- EIO, buf)
            else do { guard (p + length d \<le> e); buf' \<leftarrow> wr_bytes buf p d; read_payload rs' buf' (p + length d) e })
     else Some (0, buf))"

declare read_payload.simps [simp del]

definition publish_get_payload :: "(int + bytes) list \<Rightarrow> bytes \<Rightarrow> nat \<Rightarrow> (int \<times> bytes) option" where
  "publish_get_payload rs payload_buf len =
    (if len > CONFIG_MQTT_PAYLOAD_BUFFER_SIZE then Some (- EMSGSIZE, payload_buf) else read_payload rs payload_buf 0 len)"

section \<open>Events\<close>

record 's mqtt_state =
  connected :: bool
  send_enabled :: bool
  reboot_work :: bool
  reboot_cnt :: u32
  led_blue :: bool
  led_green :: bool
  mq_cfg :: iotex_mqtt_config
  mq_nvs :: 's
  payload_buf :: bytes
  unanswered :: u32
  calls :: "mqtt_call list"
  effects_done :: "cfg_effect list"

datatype mqtt_evt =
    MQTT_EVT_CONNACK int
  | MQTT_EVT_DISCONNECT int
  | MQTT_EVT_PUBLISH nat u16 nat "(int + bytes) list"
  | MQTT_EVT_PUBACK int u16
  | MQTT_EVT_SUBACK int u16
  | MQTT_EVT_OTHER

text \<open>
  \<^verbatim>\<open>client_id\<close> and the array \<^verbatim>\<open>buf\<close> are used for the topic of the configuration; the results
  of subscribing, of disconnecting and of the acknowledgement are only printed.
\<close>

fun mqtt_evt_handler ::
  "(bytes \<Rightarrow> cjson_doc option) \<Rightarrow> 's nvs_ops \<Rightarrow> bytes \<Rightarrow> bytes \<Rightarrow> mqtt_evt \<Rightarrow> 's mqtt_state \<Rightarrow> 's mqtt_state option" where
  "mqtt_evt_handler parse nvs client_id buf (MQTT_EVT_CONNACK result) st =
    (if result \<noteq> 0 then Some st
     else do {
       let st1 = st\<lparr>reboot_work := False, connected := True, send_enabled := True, led_blue := True, led_green := False\<rparr>;
       sub \<leftarrow> subscribe_config_topic client_id buf;
       Some (st1\<lparr>calls := calls st1 @ [sub]\<rparr>)
     })"
| "mqtt_evt_handler parse nvs client_id buf (MQTT_EVT_DISCONNECT result) st =
    Some (st\<lparr>connected := False, send_enabled := False, led_blue := False, led_green := True\<rparr>)"
| "mqtt_evt_handler parse nvs client_id buf (MQTT_EVT_PUBLISH qos message_id len reads) st = do {
     (err, pb) \<leftarrow> publish_get_payload reads (payload_buf st) len;
     let st1 = st\<lparr>payload_buf := pb\<rparr>;
     if err \<ge> 0 then do {
       (c, s, es) \<leftarrow> iotex_mqtt_update_config parse nvs pb len (mq_cfg st1) (mq_nvs st1);
       let st2 = st1\<lparr>mq_cfg := c, mq_nvs := s, effects_done := effects_done st1 @ es\<rparr>;
       Some (if qos = 1 then st2\<lparr>calls := calls st2 @ [Puback message_id]\<rparr> else st2)
     }
     else Some (st1\<lparr>calls := calls st1 @ [Disconnect]\<rparr>)
   }"
| "mqtt_evt_handler parse nvs client_id buf (MQTT_EVT_PUBACK result message_id) st = Some st"
| "mqtt_evt_handler parse nvs client_id buf (MQTT_EVT_SUBACK result message_id) st = Some st"
| "mqtt_evt_handler parse nvs client_id buf MQTT_EVT_OTHER st = Some (st\<lparr>unanswered := 0\<rparr>)"

definition CLOUD_CONNACK_WAIT_DURATION :: u32 where "CLOUD_CONNACK_WAIT_DURATION = 30"

text \<open>The work that counts the seconds: whether it reboots the device.\<close>

definition cloud_reboot_work_fn :: "'s mqtt_state \<Rightarrow> bool \<times> 's mqtt_state" where
  "cloud_reboot_work_fn st =
    (let st1 = st\<lparr>reboot_cnt := reboot_cnt st + 1, reboot_work := False\<rparr> in
     if reboot_cnt st1 \<ge> CLOUD_CONNACK_WAIT_DURATION then (True, st1) else (False, st1\<lparr>reboot_work := True\<rparr>))"

text \<open>The result of \<^verbatim>\<open>mqtt_connect\<close> is returned; the connection goes on with its events.\<close>

definition iotex_mqtt_client_init :: "'s nvs_ops \<Rightarrow> int \<Rightarrow> 's mqtt_state \<Rightarrow> int \<times> 's mqtt_state" where
  "iotex_mqtt_client_init nvs connect_result st =
    (connect_result, st\<lparr>connected := False, mq_cfg := iotex_mqtt_load_config nvs (mq_cfg st) (mq_nvs st), reboot_work := True\<rparr>)"

text \<open>What the device has after power-on: static data, and the flash.\<close>

definition boot :: "iotex_mqtt_config \<Rightarrow> 's \<Rightarrow> 's mqtt_state" where
  "boot c0 s = \<lparr>connected = False, send_enabled = False, reboot_work = False, reboot_cnt = 0, led_blue = False, led_green = True,
     mq_cfg = c0, mq_nvs = s, payload_buf = replicate CONFIG_MQTT_PAYLOAD_BUFFER_SIZE 0, unanswered = 0, calls = [], effects_done = []\<rparr>"

section \<open>Names are never cut\<close>

lemma string_of_append: "0 \<notin> set s \<Longrightarrow> string_of (s @ 0 # r) = Some s"
  by (simp add: string_of_def strlen_append)

lemma format_client_id: "0 \<in> set m \<Longrightarrow> c_format (asc ''nrf-%s'') [FmtS m] = Some (asc ''nrf-'' @ cstr m)"
  by (simp add: strlen_eq take_cstr)

lemma client_id_exact:
  assumes "length imei = MODEM_IMEI_LEN" "0 \<notin> set imei" "0 \<in> set rest"
  shows "iotex_mqtt_get_client_id 0 (imei @ rest) = Some (asc ''nrf-'' @ imei @ [0])"
proof -
  have "cstr (imei @ rest) = imei @ cstr rest" using assms(2) by (induction imei) (simp_all add: cstr_def)
  then have "c_format (asc ''nrf-%s'') [FmtS (imei @ rest)] = Some (asc ''nrf-'' @ imei @ cstr rest)"
    using assms(3) by (subst format_client_id) simp_all
  then show ?thesis using assms(1)
    by (simp add: iotex_mqtt_get_client_id_def iotex_modem_get_imei_def snprintf_def CLIENT_ID_LEN_def MODEM_IMEI_LEN_def)
qed

lemma format_topics:
  assumes "0 \<notin> set c"
  shows "c_format (asc ''device/%s/data'') [FmtS (c @ 0 # r)] = Some (asc ''device/'' @ c @ asc ''/data'')"
    "c_format (asc ''topic/config/%s'') [FmtS (c @ 0 # r)] = Some (asc ''topic/config/'' @ c)"
    "c_format (asc ''device/%s/connect'') [FmtS (c @ 0 # r)] = Some (asc ''device/'' @ c @ asc ''/connect'')"
  using assms by (simp_all add: strlen_append)

text \<open>The device is named after the 15 digits of its IMEI, whatever the modem wrote behind them; its documents go to
  the data topic of that name, unchanged and whole, its heart beat to the connect topic, and it subscribes to the
  configuration topic of that name; no name is cut by the buffers it is printed into.\<close>

theorem mqtt_topics_name_device:
  assumes "length imei = MODEM_IMEI_LEN" "0 \<notin> set imei" "0 \<in> set rest" "length buf = MQTT_TOPIC_SIZE" "0 \<notin> set doc"
  shows "\<exists>cid. iotex_mqtt_get_client_id 0 (imei @ rest) = Some cid \<and>
    iotex_mqtt_publish_data cid buf random qos (doc @ 0 # r) = Some (Publish
      \<lparr>m_topic = asc ''device/nrf-'' @ imei @ asc ''/data'', m_payload = doc, m_qos = qos, m_id = ucast random\<rparr>) \<and>
    iotex_mqtt_heart_beat cid buf random qos = Some (Publish
      \<lparr>m_topic = asc ''device/nrf-'' @ imei @ asc ''/connect'', m_payload = asc ''a'', m_qos = qos, m_id = ucast random\<rparr>) \<and>
    subscribe_config_topic cid buf = Some (Subscribe (asc ''topic/config/nrf-'' @ imei) 1 1234)"
proof -
  let ?c = "asc ''nrf-'' @ imei"
  have c: "0 \<notin> set ?c" "length ?c = 19" using assms(1,2) by (simp_all add: MODEM_IMEI_LEN_def)
  have b: "length buf = 50" using assms(4) by (simp add: MQTT_TOPIC_SIZE_def CLIENT_ID_LEN_def MODEM_IMEI_LEN_def)
  note f = format_topics [OF c(1), where r = "[]"]
  note sn = snprintf_text [OF f(1), of _ buf] snprintf_text [OF f(2), of _ buf] snprintf_text [OF f(3), of _ buf]
  have t: "iotex_mqtt_get_topic (?c @ [0]) buf = Some ((asc ''device/'' @ ?c @ asc ''/data'') @ 0 # drop 32 buf)"
    "iotex_mqtt_get_config_topic (?c @ [0]) buf = Some ((asc ''topic/config/'' @ ?c) @ 0 # drop 33 buf)"
    "iotex_get_heart_beat_topic (?c @ [0]) buf = Some ((asc ''device/'' @ ?c @ asc ''/connect'') @ 0 # drop 35 buf)"
    unfolding iotex_mqtt_get_topic_def iotex_mqtt_get_config_topic_def iotex_get_heart_beat_topic_def
    using sn c(2) b by simp_all
  have n: "0 \<notin> set (asc ''device/'' @ ?c @ asc ''/data'')" "0 \<notin> set (asc ''topic/config/'' @ ?c)"
    "0 \<notin> set (asc ''device/'' @ ?c @ asc ''/connect'')" using assms(2) by simp_all
  have i: "iotex_mqtt_get_client_id 0 (imei @ rest) = Some (?c @ [0])" using client_id_exact [OF assms(1-3)] by simp
  show ?thesis
    unfolding i iotex_mqtt_publish_data_def iotex_mqtt_heart_beat_def subscribe_config_topic_def
    by (intro exI [of _ "?c @ [0]"] conjI refl)
      (simp_all only: t n bind.bind_lunit string_of_append [OF n(1)] string_of_append [OF n(2)] string_of_append [OF n(3)]
        string_of_append [OF assms(5)], simp_all)
qed

lemma mqtt_topics_name_device_witness:
  "\<exists>cid. iotex_mqtt_get_client_id 0 (asc ''352656100367872'' @ [13, 10, 0]) = Some cid \<and>
    iotex_mqtt_publish_data cid (replicate 50 7) 0x12345 0 (asc ''{}'' @ 0 # []) = Some (Publish
      \<lparr>m_topic = asc ''device/nrf-'' @ asc ''352656100367872'' @ asc ''/data'', m_payload = asc ''{}'', m_qos = 0, m_id = ucast (0x12345 :: u32)\<rparr>) \<and>
    iotex_mqtt_heart_beat cid (replicate 50 7) 0x12345 0 = Some (Publish
      \<lparr>m_topic = asc ''device/nrf-'' @ asc ''352656100367872'' @ asc ''/connect'', m_payload = asc ''a'', m_qos = 0, m_id = ucast (0x12345 :: u32)\<rparr>) \<and>
    subscribe_config_topic cid (replicate 50 7) = Some (Subscribe (asc ''topic/config/nrf-'' @ asc ''352656100367872'') 1 1234)"
  by (rule mqtt_topics_name_device) (simp_all add: MQTT_TOPIC_SIZE_def CLIENT_ID_LEN_def MODEM_IMEI_LEN_def)

section \<open>The payload arrives whole\<close>

lemma read_payload_chunks:
  assumes "\<forall>d\<in>set ds. d \<noteq> []" "buf = w @ r" "p = length w" "length (concat ds) \<le> length r" "e = p + length (concat ds)"
  shows "read_payload (map Inr ds) buf p e = Some (0, w @ concat ds @ drop (length (concat ds)) r)"
  using assms
proof (induction ds arbitrary: buf w r p)
  case Nil
  then show ?case by (simp add: read_payload.simps)
next
  case (Cons d ds)
  have w: "wr_bytes buf p d = Some ((w @ d) @ drop (length d) r)"
    unfolding Cons.prems(2) by (rule wr_bytes_append) (use Cons.prems in auto)
  have "read_payload (map Inr ds) ((w @ d) @ drop (length d) r) (p + length d) e =
      Some (0, (w @ d) @ concat ds @ drop (length (concat ds)) (drop (length d) r))"
    by (rule Cons.IH) (use Cons.prems in auto)
  moreover have "0 < length d" using Cons.prems(1) by simp
  ultimately show ?case using Cons.prems(4,5) w by (subst list.map, subst read_payload.simps) (simp add: add.commute add.left_commute)
qed

lemma publish_get_payload_chunks:
  assumes "\<forall>d\<in>set ds. d \<noteq> []" "length (concat ds) \<le> CONFIG_MQTT_PAYLOAD_BUFFER_SIZE" "length buf = CONFIG_MQTT_PAYLOAD_BUFFER_SIZE"
  shows "publish_get_payload (map Inr ds) buf (length (concat ds)) = Some (0, concat ds @ drop (length (concat ds)) buf)"
  using read_payload_chunks [OF assms(1), of buf "[]" buf 0 "length (concat ds)"] assms(2,3)
  by (simp add: publish_get_payload_def)

lemma update_config_prefix:
  "iotex_mqtt_update_config parse nvs (m @ r) (length m) c s = iotex_mqtt_update_config parse nvs m (length m) c s"
  by (simp add: iotex_mqtt_update_config_def iotex_mqtt_parse_config_def)

text \<open>C34: A message of the configuration topic reaches the configuration exactly: in however many pieces its payload
  arrives, the configuration, its copy in the flash and the effects are those of the whole text; nothing else of the
  state changes, and a message of quality 1 is acknowledged by its number.\<close>

theorem mqtt_message_updates_config:
  assumes "\<forall>d\<in>set ds. d \<noteq> []" "length (concat ds) \<le> CONFIG_MQTT_PAYLOAD_BUFFER_SIZE"
    "length (payload_buf st) = CONFIG_MQTT_PAYLOAD_BUFFER_SIZE"
    "iotex_mqtt_update_config parse nvs (concat ds) (length (concat ds)) (mq_cfg st) (mq_nvs st) = Some (c, s, es)"
  shows "mqtt_evt_handler parse nvs cid buf (MQTT_EVT_PUBLISH qos mid (length (concat ds)) (map Inr ds)) st =
    Some (st\<lparr>payload_buf := concat ds @ drop (length (concat ds)) (payload_buf st), mq_cfg := c, mq_nvs := s,
      effects_done := effects_done st @ es, calls := calls st @ (if qos = 1 then [Puback mid] else [])\<rparr>)"
  using publish_get_payload_chunks [OF assms(1-3)] assms(4) by (simp add: update_config_prefix)

definition example_boot :: "(nat \<Rightarrow> bytes list) mqtt_state" where
  "example_boot = boot (initial_config 1 5) (\<lambda>i. [])"

lemma mqtt_message_updates_config_witness:
  "mqtt_evt_handler (\<lambda>_. Some doc_channel) ref_nvs [] [] (MQTT_EVT_PUBLISH 1 77 (length (concat [asc ''{'', asc ''}''])) (map Inr [asc ''{'', asc ''}'']))
      example_boot =
    Some (example_boot\<lparr>payload_buf := concat [asc ''{'', asc ''}''] @
        drop (length (concat [asc ''{'', asc ''}''])) (payload_buf example_boot),
      mq_cfg := (initial_config 1 5)\<lparr>data_channel := 38\<rparr>,
      mq_nvs := snd (save_mqtt_config ref_nvs ((initial_config 1 5)\<lparr>data_channel := 38\<rparr>) (\<lambda>i. [])),
      effects_done := effects_done example_boot @ [],
      calls := calls example_boot @ (if (1 :: nat) = 1 then [Puback 77] else [])\<rparr>)"
proof (rule mqtt_message_updates_config [where ds = "[asc ''{'', asc ''}'']" and st = "example_boot" and
      qos = 1 and c = "(initial_config 1 5)\<lparr>data_channel := 38\<rparr>" and es = "[]"])
  have "iotex_mqtt_parse_config (\<lambda>_. Some doc_channel) (asc ''{}'') (Suc (Suc 0)) (initial_config 1 5) =
      Some (1, (initial_config 1 5)\<lparr>data_channel := 38\<rparr>, [])" by code_simp
  then show "iotex_mqtt_update_config (\<lambda>_. Some doc_channel) ref_nvs (concat [asc ''{'', asc ''}''])
      (length (concat [asc ''{'', asc ''}''])) (mq_cfg example_boot) (mq_nvs example_boot) =
      Some ((initial_config 1 5)\<lparr>data_channel := 38\<rparr>, snd (save_mqtt_config ref_nvs ((initial_config 1 5)\<lparr>data_channel := 38\<rparr>) (\<lambda>i. [])), [])"
    by (simp add: iotex_mqtt_update_config_def example_boot_def boot_def)
qed (simp_all add: example_boot_def boot_def CONFIG_MQTT_PAYLOAD_BUFFER_SIZE_def)

section \<open>What always holds\<close>

text \<open>
  The states of a device that has been started: events in any order, the seconds of the reboot work
  while it is pending, and the changes the periodic work makes to the configuration.
\<close>

inductive mqtt_reach for parse nvs cid c0 s0 where
  client_init: "mqtt_reach parse nvs cid c0 s0 (snd (iotex_mqtt_client_init nvs r (boot c0 s0)))"
| event: "\<lbrakk>mqtt_reach parse nvs cid c0 s0 st; mqtt_evt_handler parse nvs cid buf e st = Some st'\<rbrakk> \<Longrightarrow>
    mqtt_reach parse nvs cid c0 s0 st'"
| second: "\<lbrakk>mqtt_reach parse nvs cid c0 s0 st; reboot_work st; cloud_reboot_work_fn st = (False, st')\<rbrakk> \<Longrightarrow>
    mqtt_reach parse nvs cid c0 s0 st'"
| sample: "\<lbrakk>mqtt_reach parse nvs cid c0 s0 st;
    iotex_mqtt_inc_current_sampling_count nvs (set_block_size n (mq_cfg st)) (mq_nvs st) = (b, c, s)\<rbrakk> \<Longrightarrow>
    mqtt_reach parse nvs cid c0 s0 (st\<lparr>mq_cfg := c, mq_nvs := s\<rparr>)"
| upload: "\<lbrakk>mqtt_reach parse nvs cid c0 s0 st;
    iotex_mqtt_inc_current_upload_count nvs (mq_cfg st) (mq_nvs st) = (b, c, s)\<rbrakk> \<Longrightarrow>
    mqtt_reach parse nvs cid c0 s0 (st\<lparr>mq_cfg := c, mq_nvs := s\<rparr>)"

definition flags_agree :: "'s mqtt_state \<Rightarrow> bool" where
  "flags_agree st \<longleftrightarrow> connected st = send_enabled st \<and> (connected st \<longrightarrow> \<not> reboot_work st) \<and>
    led_blue st = connected st \<and> led_green st = (\<not> connected st) \<and> reboot_cnt st < CLOUD_CONNACK_WAIT_DURATION \<and>
    length (payload_buf st) = CONFIG_MQTT_PAYLOAD_BUFFER_SIZE"

lemma read_payload_length: "read_payload rs buf p e = Some (r, buf') \<Longrightarrow> length buf' = length buf"
proof (induction rs buf p e arbitrary: buf' rule: read_payload.induct)
  case (1 rs buf p e)
  from "1.prems" show ?case
    by (subst (asm) read_payload.simps)
      (auto split: if_splits list.splits sum.splits bind_splits dest!: "1.IH" dest: wr_bytes_Some_length)
qed

lemma publish_get_payload_length: "publish_get_payload rs buf len = Some (r, buf') \<Longrightarrow> length buf' = length buf"
  by (auto simp: publish_get_payload_def split: if_splits dest: read_payload_length)

text \<open>What a received message can change.\<close>

lemma publish_elim:
  assumes "mqtt_evt_handler parse nvs cid buf (MQTT_EVT_PUBLISH qos mid len reads) st = Some st'"
  obtains pb es cs where "length pb = length (payload_buf st)"
      "st' = st\<lparr>payload_buf := pb, mq_cfg := mq_cfg st', mq_nvs := mq_nvs st', effects_done := es, calls := cs\<rparr>"
      "(mq_cfg st' = mq_cfg st \<and> mq_nvs st' = mq_nvs st) \<or>
       (\<exists>es'. iotex_mqtt_update_config parse nvs pb len (mq_cfg st) (mq_nvs st) = Some (mq_cfg st', mq_nvs st', es'))"
proof -
  obtain err pb where p: "publish_get_payload reads (payload_buf st) len = Some (err, pb)"
    using assms by (auto split: bind_splits)
  note l = publish_get_payload_length [OF p]
  show ?thesis
  proof (cases "err \<ge> 0")
    case True
    then obtain c s es where "iotex_mqtt_update_config parse nvs pb len (mq_cfg st) (mq_nvs st) = Some (c, s, es)"
      "st' = (let st2 = st\<lparr>payload_buf := pb, mq_cfg := c, mq_nvs := s, effects_done := effects_done st @ es\<rparr> in
        if qos = 1 then st2\<lparr>calls := calls st2 @ [Puback mid]\<rparr> else st2)"
      using assms p by (auto simp: Let_def split: bind_splits)
    then show ?thesis by (intro that [of pb "calls st'" "effects_done st'"] l) (auto simp: Let_def)
  next
    case False
    then have "st' = st\<lparr>payload_buf := pb, calls := calls st @ [Disconnect]\<rparr>" using assms p by (simp add: Let_def)
    then show ?thesis by (intro that [of pb "calls st'" "effects_done st'"] l) auto
  qed
qed

lemma handler_flags:
  assumes "mqtt_evt_handler parse nvs cid buf e st = Some st'" "flags_agree st"
  shows "flags_agree st'"
proof (cases e)
  case (MQTT_EVT_PUBLISH qos mid len reads)
  obtain pb es cs where l: "length pb = length (payload_buf st)" and
      eq: "st' = st\<lparr>payload_buf := pb, mq_cfg := mq_cfg st', mq_nvs := mq_nvs st', effects_done := es, calls := cs\<rparr>"
    by (rule publish_elim [OF assms(1) [unfolded MQTT_EVT_PUBLISH]]) blast
  have "connected st' = connected st" "send_enabled st' = send_enabled st" "reboot_work st' = reboot_work st"
      "led_blue st' = led_blue st" "led_green st' = led_green st" "reboot_cnt st' = reboot_cnt st" "payload_buf st' = pb"
    by (subst eq, simp)+
  then show ?thesis using assms(2) l by (simp add: flags_agree_def)
qed (use assms in \<open>auto simp: flags_agree_def split: if_splits bind_splits\<close>)

text \<open>The configuration in memory is what a restart would load.\<close>

definition cfg_durable :: "'s nvs_ops \<Rightarrow> iotex_mqtt_config \<Rightarrow> 's mqtt_state \<Rightarrow> bool" where
  "cfg_durable nvs c0 st \<longleftrightarrow> iotex_mqtt_load_config nvs c0 (mq_nvs st) = mq_cfg st"

lemma save_durable:
  assumes "nvs_spec nvs hist cap" "\<And>c s. fst (save_mqtt_config nvs c s)"
  shows "iotex_mqtt_load_config nvs c0 (snd (save_mqtt_config nvs c s)) = c"
  using nvs_spec.saved_config_is_loaded [OF assms(1), of c s] assms(2) [of c s] by (metis prod.collapse)

lemma with_string_ret:
  "with_string item f x = Some y \<Longrightarrow> fst x \<noteq> 0 \<Longrightarrow> (\<And>n z. fst z \<noteq> 0 \<Longrightarrow> fst (f n z) \<noteq> 0) \<Longrightarrow> fst y \<noteq> (0 :: int)"
  by (cases x) (auto simp: with_string_def split: option.splits cjson.splits)

lemma setters_ret:
  "fst z \<noteq> 0 \<Longrightarrow> fst (set_bulk_upload n z) \<noteq> 0" "fst z \<noteq> 0 \<Longrightarrow> fst (set_data_channel n z) \<noteq> 0"
  "fst z \<noteq> 0 \<Longrightarrow> fst (set_upload_period n z) \<noteq> 0" "fst z \<noteq> 0 \<Longrightarrow> fst (set_sampling_cnt n z) \<noteq> 0"
  "fst z \<noteq> 0 \<Longrightarrow> fst (set_sampling_freq n z) \<noteq> 0" "fst z \<noteq> 0 \<Longrightarrow> fst (server_beep n z) \<noteq> 0"
  by (auto simp: set_bulk_upload_def set_data_channel_def set_upload_period_def set_sampling_cnt_def set_sampling_freq_def
      server_beep_def Let_def split: prod.splits)

lemma parse_unchanged:
  assumes "iotex_mqtt_parse_config parse m len c = Some (0, c', es)"
  shows "c' = c"
proof (rule ccontr)
  assume "c' \<noteq> c"
  then obtain item s1 s2 s3 s4 s5 where
    "with_string (item ''bulk_upload'') set_bulk_upload (1, c, []) = Some s1" "with_string (item ''data_channel'') set_data_channel s1 = Some s2"
    "with_string (item ''upload_period'') set_upload_period s2 = Some s3" "with_string (item ''bulk_upload_sampling_cnt'') set_sampling_cnt s3 = Some s4"
    "with_string (item ''bulk_upload_sampling_freq'') set_sampling_freq s4 = Some s5" "with_string (item ''beep'') server_beep s5 = Some (0, c', es)"
    using assms by (auto simp: iotex_mqtt_parse_config_def split: if_splits bind_splits option.splits)
  then have "fst (0 :: int, c', es) \<noteq> 0"
    by (elim with_string_ret setters_ret) simp_all
  then show False by simp
qed

lemma update_durable:
  assumes "nvs_spec nvs hist cap" "\<And>c s. fst (save_mqtt_config nvs c s)"
    "iotex_mqtt_update_config parse nvs m len c s = Some (c', s', es)" "iotex_mqtt_load_config nvs c0 s = c"
  shows "iotex_mqtt_load_config nvs c0 s' = c'"
  using assms(3,4) save_durable [OF assms(1,2), of c0]
  by (auto simp: iotex_mqtt_update_config_def Let_def split: bind_splits if_splits dest: parse_unchanged)

lemma handler_durable:
  assumes "nvs_spec nvs hist cap" "\<And>c s. fst (save_mqtt_config nvs c s)"
    "mqtt_evt_handler parse nvs cid buf e st = Some st'" "cfg_durable nvs c0 st"
  shows "cfg_durable nvs c0 st'"
proof (cases e)
  case (MQTT_EVT_PUBLISH qos mid len reads)
  show ?thesis
    by (rule publish_elim [OF assms(3) [unfolded MQTT_EVT_PUBLISH]])
      (use assms(4) update_durable [OF assms(1,2)] in \<open>auto simp: cfg_durable_def\<close>)
qed (use assms(3,4) in \<open>auto simp: cfg_durable_def split: if_splits bind_splits\<close>)

lemma counters_durable:
  assumes "nvs_spec nvs hist cap" "\<And>c s. fst (save_mqtt_config nvs c s)"
  shows "iotex_mqtt_inc_current_sampling_count nvs c s = (b, c', s') \<Longrightarrow> iotex_mqtt_load_config nvs c0 s' = c'"
    "iotex_mqtt_inc_current_upload_count nvs c s = (b, c', s') \<Longrightarrow> iotex_mqtt_load_config nvs c0 s' = c'"
  using save_durable [OF assms, of c0]
  by (auto simp: iotex_mqtt_inc_current_sampling_count_def iotex_mqtt_inc_current_upload_count_def Let_def split: if_splits)



section \<open>Without an acknowledgement the device restarts\<close>

datatype mqtt_input = Second | Event mqtt_evt

text \<open>A run from the moment the client was started: whether it ends with a reboot.\<close>

fun mqtt_run :: "(bytes \<Rightarrow> cjson_doc option) \<Rightarrow> 's nvs_ops \<Rightarrow> bytes \<Rightarrow> bytes \<Rightarrow> mqtt_input list \<Rightarrow> 's mqtt_state \<Rightarrow>
    (bool \<times> 's mqtt_state) option" where
  "mqtt_run parse nvs cid buf [] st = Some (False, st)"
| "mqtt_run parse nvs cid buf (Second # is) st =
    (if reboot_work st then
       (let (r, st') = cloud_reboot_work_fn st in if r then Some (True, st') else mqtt_run parse nvs cid buf is st')
     else mqtt_run parse nvs cid buf is st)"
| "mqtt_run parse nvs cid buf (Event e # is) st = do {
     st' \<leftarrow> mqtt_evt_handler parse nvs cid buf e st;
     mqtt_run parse nvs cid buf is st'
   }"

text \<open>What can happen before the broker acknowledged the connection: no success, and no message.\<close>

fun before_connack :: "mqtt_input \<Rightarrow> bool" where
  "before_connack Second = True"
| "before_connack (Event (MQTT_EVT_CONNACK result)) = (result \<noteq> 0)"
| "before_connack (Event (MQTT_EVT_PUBLISH qos mid len reads)) = False"
| "before_connack (Event e) = True"

definition seconds :: "mqtt_input list \<Rightarrow> nat" where
  "seconds is = length (filter (\<lambda>i. i = Second) is)"

lemma seconds_simps [simp]: "seconds [] = 0" "seconds (Second # is) = Suc (seconds is)" "seconds (Event e # is) = seconds is"
  by (simp_all add: seconds_def)

lemma before_connack_handler:
  assumes "before_connack (Event e)"
  shows "\<exists>st'. mqtt_evt_handler parse nvs cid buf e st = Some st' \<and> reboot_work st' = reboot_work st \<and> reboot_cnt st' = reboot_cnt st"
  using assms by (cases e) auto

lemma waiting_run:
  assumes "\<forall>i\<in>set is. before_connack i" "reboot_work st" "unat (reboot_cnt st) < 30"
  shows "\<exists>st'. mqtt_run parse nvs cid buf is st = Some (30 \<le> unat (reboot_cnt st) + seconds is, st') \<and>
    (unat (reboot_cnt st) + seconds is < 30 \<longrightarrow> reboot_work st')"
  using assms
proof (induction "is" arbitrary: st)
  case Nil
  then show ?case by simp
next
  case (Cons i "is")
  show ?case
  proof (cases i)
    case Second
    have u: "unat (reboot_cnt st + 1) = Suc (unat (reboot_cnt st))"
      using Cons.prems(3) by (simp add: unat_word_ariths)
    show ?thesis
    proof (cases "unat (reboot_cnt st) = 29")
      case True
      then show ?thesis using Second Cons.prems(2) u
        by (simp add: cloud_reboot_work_fn_def Let_def CLOUD_CONNACK_WAIT_DURATION_def word_le_nat_alt)
    next
      case False
      then have "cloud_reboot_work_fn st = (False, st\<lparr>reboot_cnt := reboot_cnt st + 1, reboot_work := True\<rparr>)"
        using Cons.prems(3) u by (simp add: cloud_reboot_work_fn_def Let_def CLOUD_CONNACK_WAIT_DURATION_def word_le_nat_alt)
      then show ?thesis using Second Cons.prems False u
          Cons.IH [of "st\<lparr>reboot_cnt := reboot_cnt st + 1, reboot_work := True\<rparr>"] by simp
    qed
  next
    case (Event e)
    then obtain st' where "mqtt_evt_handler parse nvs cid buf e st = Some st'" "reboot_work st' = reboot_work st" "reboot_cnt st' = reboot_cnt st"
      using before_connack_handler [of e parse nvs cid buf st] Cons.prems(1) by auto
    then show ?thesis using Event Cons.prems Cons.IH [of st'] by simp
  qed
qed

lemma handler_reboot_work:
  assumes "mqtt_evt_handler parse nvs cid buf e st = Some st'" "\<not> reboot_work st"
  shows "\<not> reboot_work st'"
proof (cases e)
  case (MQTT_EVT_PUBLISH qos mid len reads)
  obtain pb es cs where
    eq: "st' = st\<lparr>payload_buf := pb, mq_cfg := mq_cfg st', mq_nvs := mq_nvs st', effects_done := es, calls := cs\<rparr>"
    by (rule publish_elim [OF assms(1) [unfolded MQTT_EVT_PUBLISH]]) blast
  show ?thesis by (subst eq) (use assms(2) in simp)
qed (use assms in \<open>auto split: if_splits bind_splits\<close>)

lemma no_reboot_work_run:
  "mqtt_run parse nvs cid buf is st = Some (r, st') \<Longrightarrow> \<not> reboot_work st \<Longrightarrow> \<not> r"
proof (induction "is" arbitrary: st)
  case (Cons i "is")
  show ?case
  proof (cases i)
    case (Event e)
    then obtain st1 where h: "mqtt_evt_handler parse nvs cid buf e st = Some st1" "mqtt_run parse nvs cid buf is st1 = Some (r, st')"
      using Cons.prems(1) by (auto split: bind_splits)
    then have "\<not> reboot_work st1" using handler_reboot_work Cons.prems(2) by blast
    then show ?thesis using Cons.IH h(2) by blast
  qed (use Cons in simp)
qed simp

lemma mqtt_run_append:
  "mqtt_run parse nvs cid buf (is @ js) st = do {
     (r, st') \<leftarrow> mqtt_run parse nvs cid buf is st; if r then Some (True, st') else mqtt_run parse nvs cid buf js st' }"
proof (induction "is" arbitrary: st)
  case (Cons i "is")
  show ?case
  proof (cases i)
    case Second
    then show ?thesis using Cons.IH by (auto simp: Let_def split: prod.splits)
  next
    case (Event e)
    then show ?thesis using Cons.IH by (cases "mqtt_evt_handler parse nvs cid buf e st") simp_all
  qed
qed simp

text \<open>C33: A device whose connection is not acknowledged restarts, and never before its time: with any events of a
  connection that fails in between, it restarts exactly when 30 seconds have been counted; and once the broker has
  acknowledged the connection in time, this work never restarts it, whatever happens afterwards.\<close>

theorem mqtt_connack_timeout:
  assumes "\<forall>i\<in>set is. before_connack i"
  shows "(\<exists>st'. mqtt_run parse nvs cid buf is (snd (iotex_mqtt_client_init nvs r (boot c0 s0))) = Some (30 \<le> seconds is, st')) \<and>
    (seconds is < 30 \<longrightarrow> mqtt_run parse nvs cid buf (is @ Event (MQTT_EVT_CONNACK 0) # js)
      (snd (iotex_mqtt_client_init nvs r (boot c0 s0))) = Some (out, st2) \<longrightarrow> \<not> out)"
proof -
  let ?st = "snd (iotex_mqtt_client_init nvs r (boot c0 s0))"
  have i: "reboot_work ?st" "unat (reboot_cnt ?st) = 0" by (simp_all add: iotex_mqtt_client_init_def boot_def)
  obtain st' where st': "mqtt_run parse nvs cid buf is ?st = Some (30 \<le> seconds is, st')"
    using waiting_run [OF assms i(1), of parse nvs cid buf] i(2) by (simp add: i(2)) blast
  moreover have "\<not> out" if s: "seconds is < 30"
      and o: "mqtt_run parse nvs cid buf (is @ Event (MQTT_EVT_CONNACK 0) # js) ?st = Some (out, st2)"
  proof -
    have "mqtt_run parse nvs cid buf (Event (MQTT_EVT_CONNACK 0) # js) st' = Some (out, st2)"
      using o s by (simp only: mqtt_run_append st' bind.bind_lunit) simp
    then obtain st1 where "mqtt_run parse nvs cid buf js st1 = Some (out, st2)" "\<not> reboot_work st1"
      by (auto split: bind_splits)
    then show ?thesis by (rule no_reboot_work_run)
  qed
  ultimately show ?thesis by blast
qed

lemma mqtt_connack_timeout_witness:
  "(\<exists>st'. mqtt_run (\<lambda>_. None) ref_nvs (asc ''n'' @ [0]) (replicate 50 0) [Event (MQTT_EVT_CONNACK 5), Second]
      (snd (iotex_mqtt_client_init ref_nvs 0 (boot (initial_config 1 5) (\<lambda>i. [])))) =
      Some (30 \<le> seconds [Event (MQTT_EVT_CONNACK 5), Second], st')) \<and>
    (\<forall>st2. mqtt_run (\<lambda>_. None) ref_nvs (asc ''n'' @ [0]) (replicate 50 0)
        ([Event (MQTT_EVT_CONNACK 5), Second] @ Event (MQTT_EVT_CONNACK 0) # replicate 31 Second)
        (snd (iotex_mqtt_client_init ref_nvs 0 (boot (initial_config 1 5) (\<lambda>i. [])))) \<noteq> Some (True, st2))"
proof -
  note t = mqtt_connack_timeout [where ?is = "[Event (MQTT_EVT_CONNACK 5), Second]" and nvs = ref_nvs and r = 0 and
      parse = "\<lambda>_. None" and cid = "asc ''n'' @ [0]" and buf = "replicate 50 0" and ?c0.0 = "initial_config 1 5" and
      ?s0.0 = "\<lambda>i. []" and js = "replicate 31 Second" and out = True]
  show ?thesis using t by (simp only: list.set) fastforce
qed

end
