(* ===== verification/CloudCodec.thy ===== *)
theory CloudCodec
  imports CFormat Errno Complex_Main
begin

text \<open>
  \<^verbatim>\<open>cloud_codec/cloud_codec.c\<close> and \<^verbatim>\<open>cloud_codec/service_info.c\<close>: the messages of the cloud.  Commands are
  looked up in a table of groups, channels and types, change the rule by which a sensor value may be
  sent, and are handed to a callback; readings and the state of the device are encoded as JSON.  A
  finite \<^verbatim>\<open>double\<close> is the rational it stands for (the code only compares and copies them); parsing
  and printing JSON texts are parameters.
\<close>

section \<open>JSON items\<close>

datatype cj = CJNull | CJBool bool | CJNum rat | CJStr bytes | CJArr "cj list" | CJObj "(bytes \<times> cj) list"

text \<open>The first item whose key is the given one, in any case; \<^term>\<open>None\<close> is \<^verbatim>\<open>NULL\<close>, and so is an item that has no keys.\<close>

fun cJSON_GetObjectItem :: "cj option \<Rightarrow> bytes \<Rightarrow> cj option" where
  "cJSON_GetObjectItem (Some (CJObj fs)) name =
    map_option snd (find (\<lambda>f. map tolower (fst f) = map tolower name) fs)"
| "cJSON_GetObjectItem _ name = None"

fun cJSON_GetStringValue :: "cj option \<Rightarrow> bytes option" where
  "cJSON_GetStringValue (Some (CJStr s)) = Some s"
| "cJSON_GetStringValue _ = None"

definition json_object_decode :: "cj option \<Rightarrow> bytes \<Rightarrow> cj option" where
  "json_object_decode obj str = (if obj \<noteq> None then cJSON_GetObjectItem obj str else None)"

definition json_value_string_compare :: "cj option \<Rightarrow> bytes \<Rightarrow> bool" where
  "json_value_string_compare obj str =
    (case cJSON_GetStringValue obj of None \<Rightarrow> False | Some json_str \<Rightarrow> json_str = str)"

text \<open>
  Taking an item out of its object: the item; the object it leaves is not looked at again.
\<close>

definition cJSON_DetachItemFromObject :: "cj option \<Rightarrow> bytes \<Rightarrow> cj option" where
  "cJSON_DetachItemFromObject obj str = cJSON_GetObjectItem obj str"

section \<open>Channels, groups and types\<close>

datatype cloud_channel =
    CLOUD_CHANNEL_GPS | CLOUD_CHANNEL_FLIP | CLOUD_CHANNEL_IMPACT | CLOUD_CHANNEL_BUTTON | CLOUD_CHANNEL_PIN
  | CLOUD_CHANNEL_RGB_LED | CLOUD_CHANNEL_BUZZER | CLOUD_CHANNEL_ENVIRONMENT | CLOUD_CHANNEL_TEMP
  | CLOUD_CHANNEL_HUMID | CLOUD_CHANNEL_AIR_PRESS | CLOUD_CHANNEL_AIR_QUAL | CLOUD_CHANNEL_LTE_LINK_RSRP
  | CLOUD_CHANNEL_DEVICE_INFO | CLOUD_CHANNEL_LIGHT_SENSOR | CLOUD_CHANNEL_LIGHT_RED | CLOUD_CHANNEL_LIGHT_GREEN
  | CLOUD_CHANNEL_LIGHT_BLUE | CLOUD_CHANNEL_LIGHT_IR | CLOUD_CHANNEL_ASSISTED_GPS | CLOUD_CHANNEL_MODEM

datatype cloud_cmd_group =
    CLOUD_CMD_GROUP_HELLO | CLOUD_CMD_GROUP_START | CLOUD_CMD_GROUP_STOP | CLOUD_CMD_GROUP_INIT | CLOUD_CMD_GROUP_GET
  | CLOUD_CMD_GROUP_STATUS | CLOUD_CMD_GROUP_DATA | CLOUD_CMD_GROUP_OK | CLOUD_CMD_GROUP_CFG_SET
  | CLOUD_CMD_GROUP_CFG_GET | CLOUD_CMD_GROUP_COMMAND

datatype cloud_cmd_type =
    CLOUD_CMD_EMPTY | CLOUD_CMD_ENABLE | CLOUD_CMD_THRESHOLD_HIGH | CLOUD_CMD_THRESHOLD_LOW | CLOUD_CMD_INTERVAL
  | CLOUD_CMD_COLOR | CLOUD_CMD_MODEM_PARAM | CLOUD_CMD_DATA_STRING

datatype cloud_cmd_state = CLOUD_CMD_STATE_UNDEFINED | CLOUD_CMD_STATE_FALSE | CLOUD_CMD_STATE_TRUE

fun state_value :: "cloud_cmd_state \<Rightarrow> rat" where
  "state_value CLOUD_CMD_STATE_UNDEFINED = -1"
| "state_value CLOUD_CMD_STATE_FALSE = 0"
| "state_value CLOUD_CMD_STATE_TRUE = 1"

fun channel_type_str :: "cloud_channel \<Rightarrow> bytes" where
  "channel_type_str CLOUD_CHANNEL_GPS = asc ''GPS''"
| "channel_type_str CLOUD_CHANNEL_FLIP = asc ''FLIP''"
| "channel_type_str CLOUD_CHANNEL_IMPACT = asc ''''"
| "channel_type_str CLOUD_CHANNEL_BUTTON = asc ''BUTTON''"
| "channel_type_str CLOUD_CHANNEL_PIN = asc ''''"
| "channel_type_str CLOUD_CHANNEL_RGB_LED = asc ''LED''"
| "channel_type_str CLOUD_CHANNEL_BUZZER = asc ''''"
| "channel_type_str CLOUD_CHANNEL_ENVIRONMENT = asc ''ENV''"
| "channel_type_str CLOUD_CHANNEL_TEMP = asc ''TEMP''"
| "channel_type_str CLOUD_CHANNEL_HUMID = asc ''HUMID''"
| "channel_type_str CLOUD_CHANNEL_AIR_PRESS = asc ''AIR_PRESS''"
| "channel_type_str CLOUD_CHANNEL_AIR_QUAL = asc ''AIR_QUAL''"
| "channel_type_str CLOUD_CHANNEL_LTE_LINK_RSRP = asc ''RSRP''"
| "channel_type_str CLOUD_CHANNEL_DEVICE_INFO = asc ''DEVICE''"
| "channel_type_str CLOUD_CHANNEL_LIGHT_SENSOR = asc ''LIGHT''"
| "channel_type_str CLOUD_CHANNEL_LIGHT_RED = asc ''LIGHT_RED''"
| "channel_type_str CLOUD_CHANNEL_LIGHT_GREEN = asc ''LIGHT_GREEN''"
| "channel_type_str CLOUD_CHANNEL_LIGHT_BLUE = asc ''LIGHT_BLUE''"
| "channel_type_str CLOUD_CHANNEL_LIGHT_IR = asc ''LIGHT_IR''"
| "channel_type_str CLOUD_CHANNEL_ASSISTED_GPS = asc ''AGPS''"
| "channel_type_str CLOUD_CHANNEL_MODEM = asc ''MODEM''"

fun cmd_group_str :: "cloud_cmd_group \<Rightarrow> bytes" where
  "cmd_group_str CLOUD_CMD_GROUP_HELLO = asc ''HELLO''"
| "cmd_group_str CLOUD_CMD_GROUP_START = asc ''START''"
| "cmd_group_str CLOUD_CMD_GROUP_STOP = asc ''STOP''"
| "cmd_group_str CLOUD_CMD_GROUP_INIT = asc ''INIT''"
| "cmd_group_str CLOUD_CMD_GROUP_GET = asc ''GET''"
| "cmd_group_str CLOUD_CMD_GROUP_STATUS = asc ''STATUS''"
| "cmd_group_str CLOUD_CMD_GROUP_DATA = asc ''DATA''"
| "cmd_group_str CLOUD_CMD_GROUP_OK = asc ''OK''"
| "cmd_group_str CLOUD_CMD_GROUP_CFG_SET = asc ''CFG_SET''"
| "cmd_group_str CLOUD_CMD_GROUP_CFG_GET = asc ''CFG_GET''"
| "cmd_group_str CLOUD_CMD_GROUP_COMMAND = asc ''CMD''"

fun cmd_type_str :: "cloud_cmd_type \<Rightarrow> bytes" where
  "cmd_type_str CLOUD_CMD_EMPTY = asc ''empty''"
| "cmd_type_str CLOUD_CMD_ENABLE = asc ''enable''"
| "cmd_type_str CLOUD_CMD_THRESHOLD_HIGH = asc ''thresh_hi''"
| "cmd_type_str CLOUD_CMD_THRESHOLD_LOW = asc ''thresh_lo''"
| "cmd_type_str CLOUD_CMD_INTERVAL = asc ''interval''"
| "cmd_type_str CLOUD_CMD_COLOR = asc ''color''"
| "cmd_type_str CLOUD_CMD_MODEM_PARAM = asc ''modemParams''"
| "cmd_type_str CLOUD_CMD_DATA_STRING = asc ''data_string''"

definition CMD_GROUP_KEY_STR :: bytes where "CMD_GROUP_KEY_STR = asc ''messageType''"
definition CMD_CHAN_KEY_STR :: bytes where "CMD_CHAN_KEY_STR = asc ''appId''"
definition CMD_DATA_TYPE_KEY_STR :: bytes where "CMD_DATA_TYPE_KEY_STR = asc ''data''"
definition DISABLE_SEND_INTERVAL_VAL :: rat where "DISABLE_SEND_INTERVAL_VAL = 0"
definition MIN_INTERVAL_VAL_SECONDS :: rat where "MIN_INTERVAL_VAL_SECONDS = 5"
definition MODEM_PARAM_BLOB_KEY_STR :: bytes where "MODEM_PARAM_BLOB_KEY_STR = asc ''blob''"
definition MODEM_PARAM_CHECKSUM_KEY_STR :: bytes where "MODEM_PARAM_CHECKSUM_KEY_STR = asc ''checksum''"

section \<open>The table of commands\<close>

text \<open>A group has channels and a channel has types; the JSON key of a level is the same for all its entries.\<close>

type_synonym chan_cmd = "cloud_channel \<times> cloud_cmd_type list"

definition thresholds :: "cloud_cmd_type list" where
  "thresholds = [CLOUD_CMD_ENABLE, CLOUD_CMD_THRESHOLD_HIGH, CLOUD_CMD_THRESHOLD_LOW]"

definition group_cfg_set :: "chan_cmd list" where
  "group_cfg_set =
    [(CLOUD_CHANNEL_HUMID, thresholds), (CLOUD_CHANNEL_AIR_PRESS, thresholds), (CLOUD_CHANNEL_TEMP, thresholds),
     (CLOUD_CHANNEL_AIR_QUAL, thresholds), (CLOUD_CHANNEL_GPS, [CLOUD_CMD_ENABLE, CLOUD_CMD_INTERVAL]),
     (CLOUD_CHANNEL_LIGHT_SENSOR, [CLOUD_CMD_INTERVAL]), (CLOUD_CHANNEL_LIGHT_RED, thresholds),
     (CLOUD_CHANNEL_LIGHT_GREEN, thresholds), (CLOUD_CHANNEL_LIGHT_BLUE, thresholds),
     (CLOUD_CHANNEL_LIGHT_IR, thresholds), (CLOUD_CHANNEL_RGB_LED, [CLOUD_CMD_COLOR, CLOUD_CMD_ENABLE]),
     (CLOUD_CHANNEL_ENVIRONMENT, [CLOUD_CMD_INTERVAL])]"

definition group_get :: "chan_cmd list" where
  "group_get = [(CLOUD_CHANNEL_LTE_LINK_RSRP, [CLOUD_CMD_EMPTY]), (CLOUD_CHANNEL_DEVICE_INFO, [CLOUD_CMD_EMPTY])]"

definition group_data :: "chan_cmd list" where
  "group_data = [(CLOUD_CHANNEL_ASSISTED_GPS, [CLOUD_CMD_MODEM_PARAM])]"

definition group_command :: "chan_cmd list" where
  "group_command = [(CLOUD_CHANNEL_MODEM, [CLOUD_CMD_DATA_STRING])]"

definition cmd_groups :: "(cloud_cmd_group \<times> chan_cmd list) list" where
  "cmd_groups =
    [(CLOUD_CMD_GROUP_CFG_SET, group_cfg_set), (CLOUD_CMD_GROUP_GET, group_get),
     (CLOUD_CMD_GROUP_DATA, group_data), (CLOUD_CMD_GROUP_COMMAND, group_command)]"

section \<open>The rules of the sensor channels\<close>

datatype sensor_chan_cfg_item_type =
    SENSOR_CHAN_CFG_ITEM_TYPE_SEND_ENABLE | SENSOR_CHAN_CFG_ITEM_TYPE_THRESH_LOW_VALUE
  | SENSOR_CHAN_CFG_ITEM_TYPE_THRESH_LOW_ENABLE | SENSOR_CHAN_CFG_ITEM_TYPE_THRESH_HIGH_VALUE
  | SENSOR_CHAN_CFG_ITEM_TYPE_THRESH_HIGH_ENABLE

text \<open>\<^verbatim>\<open>struct sensor_chan_cfg\<close>: an array indexed by the item types.\<close>

type_synonym sensor_chan_cfg = "sensor_chan_cfg_item_type \<Rightarrow> rat"

definition sensor_channels :: "cloud_channel list" where
  "sensor_channels =
    [CLOUD_CHANNEL_GPS, CLOUD_CHANNEL_ENVIRONMENT, CLOUD_CHANNEL_TEMP, CLOUD_CHANNEL_HUMID, CLOUD_CHANNEL_AIR_PRESS,
     CLOUD_CHANNEL_AIR_QUAL, CLOUD_CHANNEL_LIGHT_RED, CLOUD_CHANNEL_LIGHT_GREEN, CLOUD_CHANNEL_LIGHT_BLUE,
     CLOUD_CHANNEL_LIGHT_IR]"

text \<open>
  The union of a command's data.  Writing a member of the pair of value and state keeps the other one
  if the pair is what the union holds; after another member was written it is indeterminate.
\<close>

datatype cmd_data = SV "rat option" "cloud_cmd_state option" | MP "bytes option" "bytes option" | DataString "bytes option"

fun sv_value :: "cmd_data \<Rightarrow> rat option" where
  "sv_value (SV v s) = v"
| "sv_value _ = None"

fun sv_state :: "cmd_data \<Rightarrow> cloud_cmd_state option" where
  "sv_state (SV v s) = s"
| "sv_state _ = None"

definition set_state :: "cloud_cmd_state \<Rightarrow> cmd_data \<Rightarrow> cmd_data" where
  "set_state s d = SV (sv_value d) (Some s)"

definition set_value :: "rat \<Rightarrow> cmd_data \<Rightarrow> cmd_data" where
  "set_value v d = SV (Some v) (sv_state d)"

record cloud_command =
  cmd_group :: cloud_cmd_group
  cmd_channel :: cloud_channel
  cmd_type :: cloud_cmd_type
  cmd_data :: cmd_data

text \<open>The static state of the module, and the commands the callback was called with.\<close>

record codec =
  sensor_cfg :: "(cloud_channel \<times> sensor_chan_cfg) list"
  cmd_parsed :: cloud_command
  cloud_command_cb :: bool
  delivered :: "cloud_command list"

text \<open>Static data is zero when the device starts.\<close>

definition zero_command :: cloud_command where
  "zero_command = \<lparr>cmd_group = CLOUD_CMD_GROUP_HELLO, cmd_channel = CLOUD_CHANNEL_GPS, cmd_type = CLOUD_CMD_EMPTY,
     cmd_data = SV (Some 0) (Some CLOUD_CMD_STATE_FALSE)\<rparr>"

definition codec_boot :: codec where
  "codec_boot = \<lparr>sensor_cfg = map (\<lambda>c. (c, \<lambda>i. 0)) sensor_channels, cmd_parsed = zero_command,
     cloud_command_cb = False, delivered = []\<rparr>"

definition cfg_undefined :: "sensor_chan_cfg \<Rightarrow> sensor_chan_cfg" where
  "cfg_undefined v = v(
     SENSOR_CHAN_CFG_ITEM_TYPE_SEND_ENABLE := state_value CLOUD_CMD_STATE_UNDEFINED,
     SENSOR_CHAN_CFG_ITEM_TYPE_THRESH_LOW_ENABLE := state_value CLOUD_CMD_STATE_UNDEFINED,
     SENSOR_CHAN_CFG_ITEM_TYPE_THRESH_HIGH_ENABLE := state_value CLOUD_CMD_STATE_UNDEFINED)"

definition cloud_decode_init :: "bool \<Rightarrow> codec \<Rightarrow> codec" where
  "cloud_decode_init cb st = st\<lparr>cloud_command_cb := cb,
     sensor_cfg := map (\<lambda>(c, v). (c, cfg_undefined v)) (sensor_cfg st)\<rparr>"

definition sensor_chan_cfg_set_item :: "sensor_chan_cfg_item_type \<Rightarrow> rat \<Rightarrow> sensor_chan_cfg \<Rightarrow> sensor_chan_cfg" where
  "sensor_chan_cfg_set_item t v cfg = cfg(t := v)"

definition sensor_chan_cfg_is_send_allowed :: "sensor_chan_cfg \<Rightarrow> rat \<Rightarrow> bool" where
  "sensor_chan_cfg_is_send_allowed cfg sensor_value =
    (if cfg SENSOR_CHAN_CFG_ITEM_TYPE_SEND_ENABLE = state_value CLOUD_CMD_STATE_FALSE then False
     else if cfg SENSOR_CHAN_CFG_ITEM_TYPE_THRESH_LOW_ENABLE = state_value CLOUD_CMD_STATE_TRUE \<and>
       sensor_value < cfg SENSOR_CHAN_CFG_ITEM_TYPE_THRESH_LOW_VALUE then True
     else if cfg SENSOR_CHAN_CFG_ITEM_TYPE_THRESH_HIGH_ENABLE = state_value CLOUD_CMD_STATE_TRUE \<and>
       sensor_value > cfg SENSOR_CHAN_CFG_ITEM_TYPE_THRESH_HIGH_VALUE then True
     else cfg SENSOR_CHAN_CFG_ITEM_TYPE_THRESH_LOW_ENABLE \<noteq> state_value CLOUD_CMD_STATE_TRUE \<and>
       cfg SENSOR_CHAN_CFG_ITEM_TYPE_THRESH_HIGH_ENABLE \<noteq> state_value CLOUD_CMD_STATE_TRUE)"

text \<open>The loop over the channels: the first one with the right name.\<close>

fun set_chan_item ::
  "cloud_channel \<Rightarrow> sensor_chan_cfg_item_type \<Rightarrow> rat \<Rightarrow> (cloud_channel \<times> sensor_chan_cfg) list \<Rightarrow>
   int \<times> (cloud_channel \<times> sensor_chan_cfg) list" where
  "set_chan_item channel t v [] = (- ENOTSUP, [])"
| "set_chan_item channel t v ((c, cfg) # cs) =
    (if c = channel then (0, (c, sensor_chan_cfg_set_item t v cfg) # cs)
     else (let (r, cs') = set_chan_item channel t v cs in (r, (c, cfg) # cs')))"

definition cloud_set_chan_cfg_item ::
  "cloud_channel \<Rightarrow> sensor_chan_cfg_item_type \<Rightarrow> rat \<Rightarrow> codec \<Rightarrow> int \<times> codec" where
  "cloud_set_chan_cfg_item channel t v st =
    (let (r, cs) = set_chan_item channel t v (sensor_cfg st) in (r, st\<lparr>sensor_cfg := cs\<rparr>))"

text \<open>A \<^verbatim>\<open>double\<close> converted to an enumeration is cut towards zero.\<close>

definition cloud_get_channel_enable_state :: "cloud_channel \<Rightarrow> codec \<Rightarrow> int" where
  "cloud_get_channel_enable_state channel st =
    (case map_of (sensor_cfg st) channel of
       Some cfg \<Rightarrow> (let v = cfg SENSOR_CHAN_CFG_ITEM_TYPE_SEND_ENABLE in if v < 0 then - \<lfloor>- v\<rfloor> else \<lfloor>v\<rfloor>)
     | None \<Rightarrow> -1)"

definition cloud_set_channel_enable_state :: "cloud_channel \<Rightarrow> cloud_cmd_state \<Rightarrow> codec \<Rightarrow> codec" where
  "cloud_set_channel_enable_state channel state st = st\<lparr>sensor_cfg := map (\<lambda>(c, cfg).
     (c, if c = channel then cfg(SENSOR_CHAN_CFG_ITEM_TYPE_SEND_ENABLE := state_value state) else cfg)) (sensor_cfg st)\<rparr>"

definition cloud_is_send_allowed :: "cloud_channel \<Rightarrow> rat \<Rightarrow> codec \<Rightarrow> bool" where
  "cloud_is_send_allowed channel v st =
    (case map_of (sensor_cfg st) channel of
       Some cfg \<Rightarrow> sensor_chan_cfg_is_send_allowed cfg v
     | None \<Rightarrow> False)"

text \<open>A threshold that came as a number (its state is undefined) is stored and switched on; otherwise its state is stored.\<close>

definition handle_threshold ::
  "sensor_chan_cfg_item_type \<Rightarrow> sensor_chan_cfg_item_type \<Rightarrow> cloud_command \<Rightarrow> codec \<Rightarrow> (int \<times> codec) option" where
  "handle_threshold val_item enable_item cmd st = do {
     state \<leftarrow> sv_state (cmd_data cmd);
     if state = CLOUD_CMD_STATE_UNDEFINED then do {
       v \<leftarrow> sv_value (cmd_data cmd);
       let (err, st1) = cloud_set_chan_cfg_item (cmd_channel cmd) val_item v st;
       let (r, st2) = cloud_set_chan_cfg_item (cmd_channel cmd) enable_item (state_value CLOUD_CMD_STATE_TRUE) st1;
       Some (err, st2)
     }
     else Some (cloud_set_chan_cfg_item (cmd_channel cmd) enable_item (state_value state) st)
   }"

definition cloud_cmd_handle_sensor_set_chan_cfg :: "cloud_command \<Rightarrow> codec \<Rightarrow> (int \<times> codec) option" where
  "cloud_cmd_handle_sensor_set_chan_cfg cmd st =
    (if cmd_group cmd \<noteq> CLOUD_CMD_GROUP_CFG_SET then Some (- EINVAL, st)
     else (case cmd_type cmd of
       CLOUD_CMD_ENABLE \<Rightarrow> do {
         state \<leftarrow> sv_state (cmd_data cmd);
         Some (cloud_set_chan_cfg_item (cmd_channel cmd) SENSOR_CHAN_CFG_ITEM_TYPE_SEND_ENABLE (state_value state) st)
       }
     | CLOUD_CMD_THRESHOLD_HIGH \<Rightarrow>
         handle_threshold SENSOR_CHAN_CFG_ITEM_TYPE_THRESH_HIGH_VALUE SENSOR_CHAN_CFG_ITEM_TYPE_THRESH_HIGH_ENABLE cmd st
     | CLOUD_CMD_THRESHOLD_LOW \<Rightarrow>
         handle_threshold SENSOR_CHAN_CFG_ITEM_TYPE_THRESH_LOW_VALUE SENSOR_CHAN_CFG_ITEM_TYPE_THRESH_LOW_ENABLE cmd st
     | _ \<Rightarrow> Some (- ENOTSUP, st)))"

section \<open>Decoding\<close>

definition cloud_decode_modem_params :: "cj option \<Rightarrow> cmd_data \<Rightarrow> int \<times> cmd_data" where
  "cloud_decode_modem_params data_obj params =
    (case data_obj of
       None \<Rightarrow> (- EINVAL, params)
     | Some (CJObj fs) \<Rightarrow>
         (let blob = cJSON_GetStringValue (json_object_decode data_obj MODEM_PARAM_BLOB_KEY_STR);
              checksum = cJSON_GetStringValue (json_object_decode data_obj MODEM_PARAM_CHECKSUM_KEY_STR)
          in (if blob = None \<or> checksum = None then - ESRCH else 0, MP blob checksum))
     | Some _ \<Rightarrow> (- ESRCH, params))"

text \<open>\<^verbatim>\<open>strtol(s, NULL, 16)\<close> with a 32-bit \<^verbatim>\<open>long\<close>: blanks, a sign, an optional \<^verbatim>\<open>0x\<close>, digits; too large values are cut to the range.\<close>

definition is_space :: "u8 \<Rightarrow> bool" where
  "is_space c \<longleftrightarrow> c = 32 \<or> 9 \<le> c \<and> c \<le> 13"

definition hex_digit :: "u8 \<Rightarrow> nat option" where
  "hex_digit c =
    (if 48 \<le> c \<and> c \<le> 57 then Some (unat c - 48)
     else if 65 \<le> c \<and> c \<le> 70 then Some (unat c - 55)
     else if 97 \<le> c \<and> c \<le> 102 then Some (unat c - 87) else None)"

fun hex_value :: "nat \<Rightarrow> bytes \<Rightarrow> nat" where
  "hex_value acc [] = acc"
| "hex_value acc (c # cs) = (case hex_digit c of None \<Rightarrow> acc | Some d \<Rightarrow> hex_value (16 * acc + d) cs)"

definition skip_0x :: "bytes \<Rightarrow> bytes" where
  "skip_0x s =
    (case s of a # x # d # r \<Rightarrow> if a = 48 \<and> (x = 120 \<or> x = 88) \<and> hex_digit d \<noteq> None then d # r else s | _ \<Rightarrow> s)"

definition strtol16 :: "bytes \<Rightarrow> int" where
  "strtol16 s =
    (let t = dropWhile is_space s;
         neg = (t \<noteq> [] \<and> hd t = ch CHR ''-'');
         u = (if t \<noteq> [] \<and> (hd t = ch CHR ''-'' \<or> hd t = ch CHR ''+'') then tl t else t);
         v = int (hex_value 0 (skip_0x u))
     in if neg then max (- (2 ^ 31)) (- v) else min (2 ^ 31 - 1) v)"

text \<open>A type that is on (true), off (false or null), or not understood.\<close>

definition parse_enable :: "cj option \<Rightarrow> cmd_data \<Rightarrow> int \<times> cmd_data" where
  "parse_enable decoded_obj d =
    (case decoded_obj of
       Some CJNull \<Rightarrow> (0, set_state CLOUD_CMD_STATE_FALSE d)
     | Some (CJBool b) \<Rightarrow> (0, set_state (if b then CLOUD_CMD_STATE_TRUE else CLOUD_CMD_STATE_FALSE) d)
     | _ \<Rightarrow> (- ESRCH, d))"

definition parse_number :: "cj option \<Rightarrow> cmd_data \<Rightarrow> int \<times> cmd_data" where
  "parse_number decoded_obj d =
    (case decoded_obj of
       Some CJNull \<Rightarrow> (0, set_state CLOUD_CMD_STATE_FALSE d)
     | Some (CJNum v) \<Rightarrow> (0, set_value v (set_state CLOUD_CMD_STATE_UNDEFINED d))
     | _ \<Rightarrow> (- ESRCH, d))"

fun parse_data :: "cloud_cmd_type \<Rightarrow> cj \<Rightarrow> cj option \<Rightarrow> cmd_data \<Rightarrow> int \<times> cmd_data" where
  "parse_data CLOUD_CMD_ENABLE type_obj decoded_obj d = parse_enable decoded_obj d"
| "parse_data CLOUD_CMD_INTERVAL type_obj decoded_obj d = parse_number decoded_obj d"
| "parse_data CLOUD_CMD_THRESHOLD_LOW type_obj decoded_obj d = parse_number decoded_obj d"
| "parse_data CLOUD_CMD_THRESHOLD_HIGH type_obj decoded_obj d = parse_number decoded_obj d"
| "parse_data CLOUD_CMD_COLOR type_obj decoded_obj d =
    (case cJSON_GetStringValue decoded_obj of None \<Rightarrow> (- ESRCH, d) | Some s \<Rightarrow> (0, set_value (of_int (strtol16 s)) d))"
| "parse_data CLOUD_CMD_MODEM_PARAM type_obj decoded_obj d = cloud_decode_modem_params decoded_obj d"
| "parse_data CLOUD_CMD_DATA_STRING type_obj decoded_obj d =
    (let s = cJSON_GetStringValue (Some type_obj) in (if s = None then - ESRCH else 0, DataString s))"
| "parse_data CLOUD_CMD_EMPTY type_obj decoded_obj d = (- ENOTSUP, d)"

text \<open>The check of an interval: 0 switches off, and it is at least the smallest one.\<close>

definition check_interval :: "cloud_cmd_type \<Rightarrow> cmd_data \<Rightarrow> cmd_data option" where
  "check_interval t d =
    (if t \<noteq> CLOUD_CMD_INTERVAL then Some d
     else do {
       state \<leftarrow> sv_state d;
       if state \<noteq> CLOUD_CMD_STATE_UNDEFINED then Some d
       else do {
         v \<leftarrow> sv_value d;
         Some (if v = DISABLE_SEND_INTERVAL_VAL then set_state CLOUD_CMD_STATE_FALSE d
               else if v < MIN_INTERVAL_VAL_SECONDS then set_value MIN_INTERVAL_VAL_SECONDS d else d)
       }
     })"

definition cloud_cmd_parse_type :: "cloud_cmd_type \<Rightarrow> cj option \<Rightarrow> cloud_command \<Rightarrow> (int \<times> cloud_command) option" where
  "cloud_cmd_parse_type t type_obj parsed =
    (let finish = (\<lambda>d. do { d' \<leftarrow> check_interval t d; Some (0, parsed\<lparr>cmd_data := d', cmd_type := t\<rparr>) })
     in case type_obj of
       Some obj \<Rightarrow>
         (let decoded_obj = (if t \<noteq> CLOUD_CMD_DATA_STRING then json_object_decode type_obj (cmd_type_str t) else None)
          in if t \<noteq> CLOUD_CMD_DATA_STRING \<and> decoded_obj = None then Some (- ENOENT, parsed)
             else (let (err, d) = parse_data t obj decoded_obj (cmd_data parsed)
                   in if err \<noteq> 0 then Some (err, parsed\<lparr>cmd_data := d\<rparr>) else finish d))
     | None \<Rightarrow> if t \<noteq> CLOUD_CMD_EMPTY then Some (- EINVAL, parsed) else finish (cmd_data parsed))"

text \<open>A command that was found changes the rules and goes to the callback.\<close>

definition found_cmd :: "cloud_command \<Rightarrow> codec \<Rightarrow> codec option" where
  "found_cmd cmd st = do {
     (err, st1) \<leftarrow> cloud_cmd_handle_sensor_set_chan_cfg cmd st;
     Some (if cloud_command_cb st1 then st1\<lparr>delivered := delivered st1 @ [cmd]\<rparr> else st1)
   }"

text \<open>The loops over the types of a channel: of a command, in the static structure, and of a configuration, in a local one.\<close>

fun cmd_types :: "cj option \<Rightarrow> cloud_cmd_type list \<Rightarrow> codec \<Rightarrow> codec option" where
  "cmd_types doc [] st = Some st"
| "cmd_types doc (t # ts) st = do {
     (ret, cmd) \<leftarrow> cloud_cmd_parse_type t (json_object_decode doc CMD_DATA_TYPE_KEY_STR) (cmd_parsed st);
     let st1 = st\<lparr>cmd_parsed := cmd\<rparr>;
     if ret \<noteq> 0 then cmd_types doc ts st1 else do { st2 \<leftarrow> found_cmd cmd st1; cmd_types doc ts st2 }
   }"

fun config_types :: "cj option \<Rightarrow> cloud_cmd_type list \<Rightarrow> cloud_command \<Rightarrow> codec \<Rightarrow> codec option" where
  "config_types channel_obj [] item st = Some st"
| "config_types channel_obj (t # ts) item st = do {
     (ret, cmd) \<leftarrow> cloud_cmd_parse_type t channel_obj item;
     if ret \<noteq> 0 then config_types channel_obj ts cmd st
     else do { st2 \<leftarrow> found_cmd cmd st; config_types channel_obj ts cmd st2 }
   }"

definition cloud_search_cmd :: "cj option \<Rightarrow> codec \<Rightarrow> (int \<times> codec) option" where
  "cloud_search_cmd doc st =
    (if doc = None then Some (- EINVAL, st)
     else case find (\<lambda>(g, chans). json_value_string_compare (json_object_decode doc CMD_GROUP_KEY_STR) (cmd_group_str g))
       cmd_groups of
       None \<Rightarrow> Some (- ENOTSUP, st)
     | Some (g, chans) \<Rightarrow>
         (let st1 = st\<lparr>cmd_parsed := (cmd_parsed st)\<lparr>cmd_group := g\<rparr>\<rparr>
          in case find (\<lambda>(c, ts). json_value_string_compare (json_object_decode doc CMD_CHAN_KEY_STR) (channel_type_str c))
            chans of
            None \<Rightarrow> Some (- ENOTSUP, st1)
          | Some (c, ts) \<Rightarrow> do {
              st2 \<leftarrow> cmd_types doc ts (st1\<lparr>cmd_parsed := (cmd_parsed st1)\<lparr>cmd_channel := c\<rparr>\<rparr>);
              Some (0, st2)
            }))"

fun config_channels :: "cj option \<Rightarrow> chan_cmd list \<Rightarrow> codec \<Rightarrow> codec option" where
  "config_channels config_obj [] st = Some st"
| "config_channels config_obj ((c, ts) # cs) st =
    (let channel_obj = json_object_decode config_obj (channel_type_str c)
     in if channel_obj = None then config_channels config_obj cs st
        else do {
          st1 \<leftarrow> config_types channel_obj ts
            (zero_command\<lparr>cmd_group := CLOUD_CMD_GROUP_CFG_SET, cmd_channel := c\<rparr>) st;
          config_channels config_obj cs st1
        })"

definition cloud_search_config :: "cj option \<Rightarrow> codec \<Rightarrow> (int \<times> codec) option" where
  "cloud_search_config doc st =
    (if doc = None then Some (- EINVAL, st)
     else
       (let state_obj = cJSON_GetObjectItem doc (asc ''state'');
            config_obj = cJSON_DetachItemFromObject (if state_obj \<noteq> None then state_obj else doc) (asc ''config'')
        in if config_obj = None then Some (0, st)
           else do { st1 \<leftarrow> config_channels config_obj group_cfg_set st; Some (0, st1) }))"

definition cloud_decode_command :: "(bytes \<Rightarrow> cj option) \<Rightarrow> bytes option \<Rightarrow> codec \<Rightarrow> (int \<times> codec) option" where
  "cloud_decode_command cJSON_Parse input st =
    (case input of
       None \<Rightarrow> Some (- EINVAL, st)
     | Some text_in \<Rightarrow>
         (case cJSON_Parse text_in of
            None \<Rightarrow> Some (- ENOENT, st)
          | Some doc \<Rightarrow> do {
              (r1, st1) \<leftarrow> cloud_search_cmd (Some doc) st;
              (r2, st2) \<leftarrow> cloud_search_config (Some doc) st1;
              Some (0, st2)
            }))"

section \<open>Encoding\<close>

text \<open>
  Each call that creates an item allocates; the script says which succeed, and when it ends all do.
  A text that cannot be printed is \<^verbatim>\<open>NULL\<close>, on which \<^verbatim>\<open>strlen\<close> is undefined.
\<close>

definition cJSON_Create :: "cj \<Rightarrow> bool list \<Rightarrow> cj option \<times> bool list" where
  "cJSON_Create item al = (case al of [] \<Rightarrow> (Some item, []) | ok # al' \<Rightarrow> (if ok then Some item else None, al'))"

type_synonym cj_fields = "(bytes \<times> cj) list"

definition json_add_obj :: "cj_fields \<Rightarrow> bytes \<Rightarrow> cj \<Rightarrow> int \<times> cj_fields" where
  "json_add_obj parent str item = (0, parent @ [(str, item)])"

definition json_add_str :: "cj_fields \<Rightarrow> bytes \<Rightarrow> bytes \<Rightarrow> bool list \<Rightarrow> int \<times> cj_fields \<times> bool list" where
  "json_add_str parent str item al =
    (case cJSON_Create (CJStr item) al of
       (None, al') \<Rightarrow> (- ENOMEM, parent, al')
     | (Some j, al') \<Rightarrow> (let (r, p) = json_add_obj parent str j in (r, p, al')))"

definition json_add_bool :: "cj_fields \<Rightarrow> bytes \<Rightarrow> bool \<Rightarrow> bool list \<Rightarrow> int \<times> cj_fields \<times> bool list" where
  "json_add_bool parent str v al =
    (case cJSON_Create (CJBool v) al of
       (None, al') \<Rightarrow> (- ENOMEM, parent, al')
     | (Some j, al') \<Rightarrow> (let (r, p) = json_add_obj parent str j in (r, p, al')))"

text \<open>\<^verbatim>\<open>struct cloud_channel_data\<close>: the text may be \<^verbatim>\<open>NULL\<close>, the length is only compared with 0.\<close>

record cloud_channel_data =
  data_chan :: cloud_channel
  data_buf :: "bytes option"
  data_len :: nat

definition cloud_encode_data ::
  "(cj \<Rightarrow> bytes option) \<Rightarrow> bool list \<Rightarrow> cloud_channel_data \<Rightarrow> cloud_cmd_group \<Rightarrow> (int \<times> bytes option) option" where
  "cloud_encode_data cJSON_Print al channel grp =
    (case data_buf channel of
       None \<Rightarrow> Some (- EINVAL, None)
     | Some buf \<Rightarrow>
         if data_len channel = 0 then Some (- EINVAL, None)
         else (case cJSON_Create (CJObj []) al of
           (None, _) \<Rightarrow> Some (- ENOMEM, None)
         | (Some _, al0) \<Rightarrow>
             (let (r1, f1, al1) = json_add_str [] CMD_CHAN_KEY_STR (channel_type_str (data_chan channel)) al0;
                  (r2, f2, al2) = json_add_str f1 CMD_DATA_TYPE_KEY_STR buf al1;
                  (r3, f3, al3) = json_add_str f2 CMD_GROUP_KEY_STR (cmd_group_str grp) al2
              in if r1 + r2 + r3 \<noteq> 0 then Some (- ENOMEM, None)
                 else do { out \<leftarrow> cJSON_Print (CJObj f3); Some (0, Some out) })))"

text \<open>The environment and the orientation; \<^verbatim>\<open>fmt_1f\<close> is \<^verbatim>\<open>"%.1f"\<close>, whose text is cut to five characters.\<close>

datatype env_sensor_type =
    ENV_SENSOR_TEMPERATURE | ENV_SENSOR_HUMIDITY | ENV_SENSOR_AIR_PRESSURE | ENV_SENSOR_AIR_QUALITY | ENV_SENSOR_OTHER

fun env_channel :: "env_sensor_type \<Rightarrow> cloud_channel option" where
  "env_channel ENV_SENSOR_TEMPERATURE = Some CLOUD_CHANNEL_TEMP"
| "env_channel ENV_SENSOR_HUMIDITY = Some CLOUD_CHANNEL_HUMID"
| "env_channel ENV_SENSOR_AIR_PRESSURE = Some CLOUD_CHANNEL_AIR_PRESS"
| "env_channel ENV_SENSOR_AIR_QUALITY = Some CLOUD_CHANNEL_AIR_QUAL"
| "env_channel ENV_SENSOR_OTHER = None"

definition cloud_encode_env_sensors_data ::
  "(cj \<Rightarrow> bytes option) \<Rightarrow> (rat \<Rightarrow> bytes) \<Rightarrow> bool list \<Rightarrow> env_sensor_type \<Rightarrow> rat \<Rightarrow> (int \<times> bytes option) option" where
  "cloud_encode_env_sensors_data cJSON_Print fmt_1f al t v =
    (case env_channel t of
       None \<Rightarrow> Some (-1, None)
     | Some c \<Rightarrow>
         (let out = fmt_1f v; len = length out mod 256
          in cloud_encode_data cJSON_Print al \<lparr>data_chan = c, data_buf = Some (take 5 out), data_len = len\<rparr>
               CLOUD_CMD_GROUP_DATA))"

datatype motion_orientation =
  MOTION_ORIENTATION_NOT_KNOWN | MOTION_ORIENTATION_NORMAL | MOTION_ORIENTATION_UPSIDE_DOWN | MOTION_ORIENTATION_ON_SIDE

definition cloud_encode_motion_data ::
  "(cj \<Rightarrow> bytes option) \<Rightarrow> bool list \<Rightarrow> motion_orientation \<Rightarrow> (int \<times> bytes option) option" where
  "cloud_encode_motion_data cJSON_Print al orientation =
    (let send = (\<lambda>s. cloud_encode_data cJSON_Print al
       \<lparr>data_chan = CLOUD_CHANNEL_FLIP, data_buf = Some s, data_len = 3\<rparr> CLOUD_CMD_GROUP_DATA)
     in case orientation of
       MOTION_ORIENTATION_NORMAL \<Rightarrow> send (asc ''NORMAL'')
     | MOTION_ORIENTATION_UPSIDE_DOWN \<Rightarrow> send (asc ''UPSIDE_DOWN'')
     | _ \<Rightarrow> Some (-1, None))"

text \<open>The light: red, green, blue and infrared, each replaced by -1 where its channel may not send it.\<close>

definition LIGHT_SENSOR_DATA_STRING_MAX_LEN :: nat where "LIGHT_SENSOR_DATA_STRING_MAX_LEN = (4 * 11) + 3 + 1"

definition light_value :: "codec \<Rightarrow> cloud_channel \<Rightarrow> int \<Rightarrow> int" where
  "light_value st c v = (if cloud_is_send_allowed c (of_int v) st then v else -1)"

definition cloud_encode_light_sensor_data ::
  "(cj \<Rightarrow> bytes option) \<Rightarrow> bool list \<Rightarrow> int \<times> int \<times> int \<times> int \<Rightarrow> codec \<Rightarrow> (int \<times> bytes option) option" where
  "cloud_encode_light_sensor_data cJSON_Print al data st =
    (case data of (red, green, blue, ir) \<Rightarrow> do {
       (n, b) \<leftarrow> snprintf (replicate LIGHT_SENSOR_DATA_STRING_MAX_LEN 0) 0 LIGHT_SENSOR_DATA_STRING_MAX_LEN (asc ''%d %d %d %d'')
         [FmtD (light_value st CLOUD_CHANNEL_LIGHT_RED red), FmtD (light_value st CLOUD_CHANNEL_LIGHT_GREEN green),
          FmtD (light_value st CLOUD_CHANNEL_LIGHT_BLUE blue), FmtD (light_value st CLOUD_CHANNEL_LIGHT_IR ir)];
       k \<leftarrow> strlen b;
       cloud_encode_data cJSON_Print al
         \<lparr>data_chan = CLOUD_CHANNEL_LIGHT_SENSOR, data_buf = Some (take k b), data_len = n mod 256\<rparr> CLOUD_CMD_GROUP_DATA
     })"

text \<open>Several objects created one after the other.\<close>

fun create_all :: "nat \<Rightarrow> bool list \<Rightarrow> bool \<times> bool list" where
  "create_all 0 al = (True, al)"
| "create_all (Suc n) al = (let (j, al') = cJSON_Create (CJObj []) al; (ok, al'') = create_all n al' in (j \<noteq> None \<and> ok, al''))"

definition cloud_encode_config_data ::
  "(cj \<Rightarrow> bytes option) \<Rightarrow> bool list \<Rightarrow> codec \<Rightarrow> (int \<times> bytes option) option" where
  "cloud_encode_config_data cJSON_Print al st =
    (let (ok, al1) = create_all 5 al
     in if \<not> ok then Some (- ENOMEM, None)
        else
          (let gps_state = cloud_get_channel_enable_state CLOUD_CHANNEL_GPS st;
               (ret, chan_obj, al2) =
                 (if gps_state \<noteq> -1 then json_add_bool [] (cmd_type_str CLOUD_CMD_ENABLE) (gps_state = 1) al1
                  else (0, [], al1))
           in if ret \<noteq> 0 then Some (- ENOMEM, None)
              else if length chan_obj = 0 then Some (ret, None)
              else do {
                out \<leftarrow> cJSON_Print (CJObj [(asc ''state'', CJObj [(asc ''reported'', CJObj [(asc ''config'',
                  CJObj [(channel_type_str CLOUD_CHANNEL_GPS, CJObj chan_obj)])])])]);
                Some (0, Some out)
              }))"

section \<open>Service information and device status\<close>

definition SERVICE_INFO_JSON_NAME :: bytes where "SERVICE_INFO_JSON_NAME = asc ''serviceInfo''"
definition UI_JSON_NAME :: bytes where "UI_JSON_NAME = asc ''ui''"
definition FOTAS_JSON_NAME :: bytes where "FOTAS_JSON_NAME = asc ''fota_v''"
definition FOTAS_JSON_NAME_SIZE :: nat where "FOTAS_JSON_NAME_SIZE = 7 + 5"

text \<open>The strings of an array that are not \<^verbatim>\<open>NULL\<close>; without any, the array becomes a null item.\<close>

fun add_strings :: "bytes option list \<Rightarrow> bytes list \<Rightarrow> bool list \<Rightarrow> bytes list option \<times> bool list" where
  "add_strings [] acc al = (Some acc, al)"
| "add_strings (None # items) acc al = add_strings items acc al"
| "add_strings (Some s # items) acc al =
    (case cJSON_Create (CJStr s) al of (None, al') \<Rightarrow> (None, al') | (Some _, al') \<Rightarrow> add_strings items (acc @ [s]) al')"

definition add_array_obj :: "bytes option list \<Rightarrow> bytes \<Rightarrow> cj_fields \<Rightarrow> bool list \<Rightarrow> int \<times> cj_fields \<times> bool list" where
  "add_array_obj items item_name obj al =
    (case cJSON_Create (CJArr []) al of
       (None, al') \<Rightarrow> (- ENOMEM, obj, al')
     | (Some _, al') \<Rightarrow>
         (case add_strings items [] al' of
            (None, al'') \<Rightarrow> (- ENOMEM, obj, al'')
          | (Some ss, al'') \<Rightarrow> (0, obj @ [(item_name, if ss = [] then CJNull else CJArr (map CJStr ss))], al'')))"

definition service_info_json_object_encode ::
  "bytes option list \<Rightarrow> bytes option list \<Rightarrow> u16 \<Rightarrow> cj_fields \<Rightarrow> bool list \<Rightarrow> (int \<times> cj_fields \<times> bool list) option" where
  "service_info_json_object_encode ui fota fota_version obj_out al =
    (case cJSON_Create (CJObj []) al of
       (None, al') \<Rightarrow> Some (- ENOMEM, obj_out, al')
     | (Some _, al0) \<Rightarrow>
         (let (err1, o1, al1) = add_array_obj ui UI_JSON_NAME [] al0
          in if err1 \<noteq> 0 then Some (err1, obj_out, al1)
             else do {
               (n, b) \<leftarrow> snprintf (replicate FOTAS_JSON_NAME_SIZE 0) 0 FOTAS_JSON_NAME_SIZE (asc ''%s%u'')
                 [FmtS (FOTAS_JSON_NAME @ [0]), FmtU (unat fota_version)];
               k \<leftarrow> strlen b;
               let (err2, o2, al2) = add_array_obj fota (take k b) o1 al1;
               Some (if err2 \<noteq> 0 then (err2, obj_out, al2)
                     else (0, obj_out @ [(SERVICE_INFO_JSON_NAME, CJObj o2)], al2))
             }))"

text \<open>
  The status of the device: what the modem library adds and how many items it reports (\<^term>\<open>None\<close>:
  no modem parameters), and the service information.  Allocations: four objects, then a null item.
\<close>

definition cloud_encode_device_status_data ::
  "(cj \<Rightarrow> bytes option) \<Rightarrow> (int \<times> cj_fields) option \<Rightarrow> bytes option list \<Rightarrow> bytes option list \<Rightarrow> u16 \<Rightarrow> bool list \<Rightarrow>
   (int \<times> bytes option) option" where
  "cloud_encode_device_status_data cJSON_Print modem ui fota fota_version al =
    (let (ok, al1) = create_all 4 al
     in if \<not> ok then Some (- ENOMEM, None)
        else
          (let (dummy, al2) = cJSON_Create CJNull al1;
               dev_str = channel_type_str CLOUD_CHANNEL_DEVICE_INFO;
               reported0 = (case dummy of None \<Rightarrow> [] | Some j \<Rightarrow> [(dev_str, j)]);
               channel_type = map tolower dev_str;
               (cnt0, device0) = (case modem of None \<Rightarrow> (0, []) | Some (val, fs) \<Rightarrow> (if val > 0 then nat val else 0, fs))
           in do {
             (r, device, al3) \<leftarrow> service_info_json_object_encode ui fota fota_version device0 al2;
             let item_cnt = (if r = 0 then cnt0 + 1 else cnt0);
             if item_cnt = 0 then Some (- EAGAIN, None)
             else do {
               out \<leftarrow> cJSON_Print (CJObj [(asc ''state'', CJObj [(asc ''reported'',
                 CJObj (reported0 @ [(channel_type, CJObj device)]))])]);
               Some (0, Some out)
             }
           }))"

section \<open>The rules as the cloud sees them\<close>

text \<open>A channel may be switched off, and have limits below and above which values are sent; without limits all values are.\<close>

record rule =
  sends :: bool
  low :: "rat option"
  high :: "rat option"

type_synonym rules = "cloud_channel \<Rightarrow> rule option"

fun allowed :: "rule option \<Rightarrow> rat \<Rightarrow> bool" where
  "allowed None v = False"
| "allowed (Some r) v =
    (sends r \<and>
     (low r = None \<and> high r = None \<or>
      (case low r of None \<Rightarrow> False | Some l \<Rightarrow> v < l) \<or>
      (case high r of None \<Rightarrow> False | Some h \<Rightarrow> v > h)))"

definition set_sends :: "cj option \<Rightarrow> rule \<Rightarrow> rule" where
  "set_sends obj r =
    (case cJSON_GetObjectItem obj (asc ''enable'') of
       Some CJNull \<Rightarrow> r\<lparr>sends := False\<rparr> | Some (CJBool b) \<Rightarrow> r\<lparr>sends := b\<rparr> | _ \<Rightarrow> r)"

definition set_low :: "cj option \<Rightarrow> rule \<Rightarrow> rule" where
  "set_low obj r =
    (case cJSON_GetObjectItem obj (asc ''thresh_lo'') of
       Some CJNull \<Rightarrow> r\<lparr>low := None\<rparr> | Some (CJNum v) \<Rightarrow> r\<lparr>low := Some v\<rparr> | _ \<Rightarrow> r)"

definition set_high :: "cj option \<Rightarrow> rule \<Rightarrow> rule" where
  "set_high obj r =
    (case cJSON_GetObjectItem obj (asc ''thresh_hi'') of
       Some CJNull \<Rightarrow> r\<lparr>high := None\<rparr> | Some (CJNum v) \<Rightarrow> r\<lparr>high := Some v\<rparr> | _ \<Rightarrow> r)"

text \<open>The settings a channel obeys.\<close>

definition limited :: "cloud_channel list" where
  "limited = [CLOUD_CHANNEL_HUMID, CLOUD_CHANNEL_AIR_PRESS, CLOUD_CHANNEL_TEMP, CLOUD_CHANNEL_AIR_QUAL,
     CLOUD_CHANNEL_LIGHT_RED, CLOUD_CHANNEL_LIGHT_GREEN, CLOUD_CHANNEL_LIGHT_BLUE, CLOUD_CHANNEL_LIGHT_IR]"

definition obey :: "cloud_channel \<Rightarrow> cj option \<Rightarrow> rule \<Rightarrow> rule" where
  "obey c obj r =
    (if c \<in> set limited then set_low obj (set_high obj (set_sends obj r))
     else if c = CLOUD_CHANNEL_GPS \<or> c = CLOUD_CHANNEL_RGB_LED then set_sends obj r else r)"

text \<open>
  A message may be a command for one channel, and may carry a configuration of any of them; a
  configuration is in the state of a delta, or in the message itself.
\<close>

definition commanded :: "cj \<Rightarrow> rules \<Rightarrow> rules" where
  "commanded doc rs c =
    (if cJSON_GetStringValue (cJSON_GetObjectItem (Some doc) (asc ''messageType'')) = Some (asc ''CFG_SET'') \<and>
        cJSON_GetStringValue (cJSON_GetObjectItem (Some doc) (asc ''appId'')) = Some (channel_type_str c)
     then map_option (obey c (cJSON_GetObjectItem (Some doc) (asc ''data''))) (rs c) else rs c)"

definition config_of :: "cj \<Rightarrow> cj option" where
  "config_of doc =
    (let state = cJSON_GetObjectItem (Some doc) (asc ''state'')
     in cJSON_GetObjectItem (if state = None then Some doc else state) (asc ''config''))"

definition configured :: "cj \<Rightarrow> rules \<Rightarrow> rules" where
  "configured doc rs c =
    map_option (obey c (cJSON_GetObjectItem (config_of doc) (channel_type_str c))) (rs c)"

text \<open>What happens to the module: messages, and calls of the application that switch a channel.\<close>

datatype cloud_input = Message "bytes option" | Switch cloud_channel cloud_cmd_state

fun cloud_run :: "(bytes \<Rightarrow> cj option) \<Rightarrow> cloud_input list \<Rightarrow> codec \<Rightarrow> codec option" where
  "cloud_run parse [] st = Some st"
| "cloud_run parse (Message m # ins) st = do { (r, st') \<leftarrow> cloud_decode_command parse m st; cloud_run parse ins st' }"
| "cloud_run parse (Switch c s # ins) st = cloud_run parse ins (cloud_set_channel_enable_state c s st)"

fun rules_after :: "(bytes \<Rightarrow> cj option) \<Rightarrow> cloud_input list \<Rightarrow> rules \<Rightarrow> rules" where
  "rules_after parse [] rs = rs"
| "rules_after parse (Message m # ins) rs =
    rules_after parse ins (case Option.bind m parse of None \<Rightarrow> rs | Some doc \<Rightarrow> configured doc (commanded doc rs))"
| "rules_after parse (Switch c s # ins) rs =
    rules_after parse ins (rs(c := map_option (sends_update (\<lambda>_. s \<noteq> CLOUD_CMD_STATE_FALSE)) (rs c)))"

definition first_rules :: rules where
  "first_rules c = (if c \<in> set sensor_channels then Some \<lparr>sends = True, low = None, high = None\<rparr> else None)"

text \<open>The rules a state implements.\<close>

definition rule_of :: "sensor_chan_cfg \<Rightarrow> rule" where
  "rule_of cfg = \<lparr>sends = (cfg SENSOR_CHAN_CFG_ITEM_TYPE_SEND_ENABLE \<noteq> 0),
     low = (if cfg SENSOR_CHAN_CFG_ITEM_TYPE_THRESH_LOW_ENABLE = 1 then Some (cfg SENSOR_CHAN_CFG_ITEM_TYPE_THRESH_LOW_VALUE) else None),
     high = (if cfg SENSOR_CHAN_CFG_ITEM_TYPE_THRESH_HIGH_ENABLE = 1 then Some (cfg SENSOR_CHAN_CFG_ITEM_TYPE_THRESH_HIGH_VALUE) else None)\<rparr>"

definition rules_of :: "codec \<Rightarrow> rules" where
  "rules_of st c = map_option rule_of (map_of (sensor_cfg st) c)"

lemma allowed_rules: "cloud_is_send_allowed c v st = allowed (rules_of st c) v"
  by (auto simp: cloud_is_send_allowed_def rules_of_def rule_of_def sensor_chan_cfg_is_send_allowed_def split: option.splits)

lemma map_of_map_keep: "map_of (map (\<lambda>(c, x). (c, f c x)) cs) c = map_option (f c) (map_of cs c)"
  by (induction cs) auto

lemma map_of_same: "map_of (map (\<lambda>c. (c, x)) cs) c = (if c \<in> set cs then Some x else None)"
  by (induction cs) auto

lemma rules_of_init: "rules_of (cloud_decode_init cb codec_boot) = first_rules"
  by (auto simp: fun_eq_iff rules_of_def cloud_decode_init_def codec_boot_def first_rules_def map_of_map_keep map_of_same
      rule_of_def cfg_undefined_def simp del: map_map)

text \<open>A change of one channel's entry that follows a change of its rule.\<close>

lemma rules_of_upd:
  assumes "map_of (sensor_cfg st') = (map_of (sensor_cfg st))(c := map_option f (map_of (sensor_cfg st) c))"
    and "\<And>cfg. rule_of (f cfg) = g (rule_of cfg)"
  shows "rules_of st' = (rules_of st)(c := map_option g (rules_of st c))"
  using assms by (auto simp: fun_eq_iff rules_of_def option.map_comp comp_def)

lemma rules_of_switch:
  "rules_of (cloud_set_channel_enable_state c s st) =
   (rules_of st)(c := map_option (sends_update (\<lambda>_. s \<noteq> CLOUD_CMD_STATE_FALSE)) (rules_of st c))"
proof (rule rules_of_upd)
  show "map_of (sensor_cfg (cloud_set_channel_enable_state c s st)) = (map_of (sensor_cfg st))
    (c := map_option (\<lambda>cfg. cfg(SENSOR_CHAN_CFG_ITEM_TYPE_SEND_ENABLE := state_value s)) (map_of (sensor_cfg st) c))"
    by (auto simp: fun_eq_iff cloud_set_channel_enable_state_def map_of_map_keep option.map_id0 id_def[symmetric])
qed (cases s; simp add: rule_of_def)

text \<open>Setting one item of a channel.\<close>

lemma set_chan_item_map:
  "map_of (snd (set_chan_item c t v cs)) = (map_of cs)(c := map_option (\<lambda>cfg. cfg(t := v)) (map_of cs c))"
  by (induction cs) (auto simp: fun_eq_iff sensor_chan_cfg_set_item_def Let_def split: prod.splits)

lemma set_item_map:
  "map_of (sensor_cfg (snd (cloud_set_chan_cfg_item c t v st))) =
   (map_of (sensor_cfg st))(c := map_option (\<lambda>cfg. cfg(t := v)) (map_of (sensor_cfg st) c))"
  by (simp add: cloud_set_chan_cfg_item_def Let_def split_beta set_chan_item_map)

lemma set_item_keeps [simp]:
  "delivered (snd (cloud_set_chan_cfg_item c t v st)) = delivered st"
  "cloud_command_cb (snd (cloud_set_chan_cfg_item c t v st)) = cloud_command_cb st"
  by (simp_all add: cloud_set_chan_cfg_item_def Let_def split_beta)

text \<open>What a type found in an object changes.\<close>

fun setting :: "cloud_cmd_type \<Rightarrow> cj option \<Rightarrow> rule \<Rightarrow> rule" where
  "setting CLOUD_CMD_ENABLE obj r = set_sends obj r"
| "setting CLOUD_CMD_THRESHOLD_HIGH obj r = set_high obj r"
| "setting CLOUD_CMD_THRESHOLD_LOW obj r = set_low obj r"
| "setting _ obj r = r"

text \<open>The data of a command fit its type.\<close>

fun data_ok :: "cloud_cmd_type \<Rightarrow> cmd_data \<Rightarrow> bool" where
  "data_ok CLOUD_CMD_ENABLE (SV v (Some s)) = (s \<noteq> CLOUD_CMD_STATE_UNDEFINED)"
| "data_ok CLOUD_CMD_THRESHOLD_HIGH (SV v (Some s)) = (s = CLOUD_CMD_STATE_FALSE \<or> s = CLOUD_CMD_STATE_UNDEFINED \<and> v \<noteq> None)"
| "data_ok CLOUD_CMD_THRESHOLD_LOW (SV v (Some s)) = (s = CLOUD_CMD_STATE_FALSE \<or> s = CLOUD_CMD_STATE_UNDEFINED \<and> v \<noteq> None)"
| "data_ok CLOUD_CMD_INTERVAL (SV v (Some s)) =
    (s = CLOUD_CMD_STATE_FALSE \<or> s = CLOUD_CMD_STATE_UNDEFINED \<and> (case v of None \<Rightarrow> False | Some n \<Rightarrow> 5 \<le> n))"
| "data_ok CLOUD_CMD_COLOR (SV v s) = (v \<noteq> None)"
| "data_ok CLOUD_CMD_MODEM_PARAM (MP b c) = (b \<noteq> None \<and> c \<noteq> None)"
| "data_ok CLOUD_CMD_DATA_STRING (DataString s) = (s \<noteq> None)"
| "data_ok CLOUD_CMD_EMPTY d = True"
| "data_ok _ _ = False"

definition in_table :: "cloud_cmd_group \<Rightarrow> cloud_channel \<Rightarrow> cloud_cmd_type \<Rightarrow> bool" where
  "in_table g c t = list_ex (\<lambda>(g', chans). g' = g \<and> list_ex (\<lambda>(c', ts). c' = c \<and> t \<in> set ts) chans) cmd_groups"

definition cmd_ok :: "cloud_command \<Rightarrow> bool" where
  "cmd_ok cmd \<longleftrightarrow> in_table (cmd_group cmd) (cmd_channel cmd) (cmd_type cmd) \<and> data_ok (cmd_type cmd) (cmd_data cmd)"

text \<open>What the data of a command change.\<close>

fun data_rule :: "cloud_cmd_type \<Rightarrow> cmd_data \<Rightarrow> rule \<Rightarrow> rule" where
  "data_rule CLOUD_CMD_ENABLE d r = r\<lparr>sends := sv_state d \<noteq> Some CLOUD_CMD_STATE_FALSE\<rparr>"
| "data_rule CLOUD_CMD_THRESHOLD_HIGH d r =
    r\<lparr>high := (if sv_state d = Some CLOUD_CMD_STATE_UNDEFINED then sv_value d else None)\<rparr>"
| "data_rule CLOUD_CMD_THRESHOLD_LOW d r =
    r\<lparr>low := (if sv_state d = Some CLOUD_CMD_STATE_UNDEFINED then sv_value d else None)\<rparr>"
| "data_rule _ d r = r"

lemma data_rule_other [simp]:
  "data_rule CLOUD_CMD_EMPTY d = id" "data_rule CLOUD_CMD_INTERVAL d = id" "data_rule CLOUD_CMD_COLOR d = id"
  "data_rule CLOUD_CMD_MODEM_PARAM d = id" "data_rule CLOUD_CMD_DATA_STRING d = id"
  by (simp_all add: fun_eq_iff)

lemma modem_params_ok: "cloud_decode_modem_params obj d0 = (0, d) \<Longrightarrow> data_ok CLOUD_CMD_MODEM_PARAM d"
  by (auto simp: cloud_decode_modem_params_def Let_def errno_defs split: option.splits cj.splits if_splits)

text \<open>Parsing a type succeeds with fitting data, or leaves the group, the channel and the rule alone.\<close>

lemma parse_type_cases:
  obtains (found) d where
    "cloud_cmd_parse_type t obj item = Some (0, item\<lparr>cmd_data := d, cmd_type := t\<rparr>)" "data_ok t d"
    "data_rule t d = setting t obj"
  | (other) r d where "cloud_cmd_parse_type t obj item = Some (r, item\<lparr>cmd_data := d\<rparr>)" "r \<noteq> 0" "setting t obj = id"
proof -
  note defs = cloud_cmd_parse_type_def Let_def json_object_decode_def errno_defs parse_enable_def parse_number_def check_interval_def
    set_state_def set_value_def cloud_decode_modem_params_def DISABLE_SEND_INTERVAL_VAL_def MIN_INTERVAL_VAL_SECONDS_def
    set_sends_def set_low_def set_high_def
  have same: "item = item\<lparr>cmd_data := cmd_data item\<rparr>" by simp
  show thesis
  proof (cases obj)
    case None
    then show ?thesis using found [of "cmd_data item"] other [of _ "cmd_data item"]
      by (cases t) (auto simp: defs fun_eq_iff)
  next
    case x: (Some x)
    consider "t = CLOUD_CMD_DATA_STRING" | "t \<noteq> CLOUD_CMD_DATA_STRING" "cJSON_GetObjectItem obj (cmd_type_str t) = None"
      | y where "t \<noteq> CLOUD_CMD_DATA_STRING" "cJSON_GetObjectItem obj (cmd_type_str t) = Some y" by blast
    then show ?thesis
    proof cases
      case 1
      then show ?thesis using x found other by (cases x) (auto simp: defs fun_eq_iff)
    next
      case 2
      then show ?thesis using x found other [of _ "cmd_data item"] by (cases t) (auto simp: defs fun_eq_iff)
    next
      case (3 y)
      show ?thesis
      proof (cases "t = CLOUD_CMD_MODEM_PARAM")
        case True
        obtain r d where "cloud_decode_modem_params (Some y) (cmd_data item) = (r, d)" by (rule prod.exhaust)
        then show ?thesis using True 3 x found [of d] other [of r d] modem_params_ok
          by (cases "r = 0") (auto simp: cloud_cmd_parse_type_def json_object_decode_def check_interval_def fun_eq_iff)
      next
        case False
        then show ?thesis using 3 x found other [of _ "cmd_data item"]
          by (cases t) ((cases y, auto simp: defs fun_eq_iff)+)
      qed
    qed
  qed
qed

definition obeyed :: "cloud_cmd_group \<Rightarrow> cloud_channel \<Rightarrow> (rule \<Rightarrow> rule) \<Rightarrow> rules \<Rightarrow> rules" where
  "obeyed g c f rs = (if g = CLOUD_CMD_GROUP_CFG_SET then rs(c := map_option f (rs c)) else rs)"

lemma obeyed_simps [simp]: "obeyed g c id rs = rs" "obeyed g c f' (obeyed g c f rs) = obeyed g c (f' \<circ> f) rs"
  by (auto simp: obeyed_def fun_eq_iff option.map_comp option.map_id id_def[symmetric])

lemma handle_enable_ok:
  assumes "cmd_group cmd = CLOUD_CMD_GROUP_CFG_SET" "cmd_type cmd = CLOUD_CMD_ENABLE" "data_ok CLOUD_CMD_ENABLE (cmd_data cmd)"
  shows "\<exists>err st1. cloud_cmd_handle_sensor_set_chan_cfg cmd st = Some (err, st1) \<and> delivered st1 = delivered st \<and>
    cloud_command_cb st1 = cloud_command_cb st \<and>
    rules_of st1 = (rules_of st)(cmd_channel cmd := map_option (data_rule CLOUD_CMD_ENABLE (cmd_data cmd)) (rules_of st (cmd_channel cmd)))"
proof -
  obtain v s where d: "cmd_data cmd = SV v (Some s)" using assms(3) by (cases "cmd_data cmd"; cases "sv_state (cmd_data cmd)") auto
  let ?st1 = "snd (cloud_set_chan_cfg_item (cmd_channel cmd) SENSOR_CHAN_CFG_ITEM_TYPE_SEND_ENABLE (state_value s) st)"
  have "rules_of ?st1 = (rules_of st)(cmd_channel cmd := map_option (data_rule CLOUD_CMD_ENABLE (cmd_data cmd)) (rules_of st (cmd_channel cmd)))"
    by (rule rules_of_upd [OF set_item_map]) (cases s; simp add: rule_of_def d)
  then show ?thesis using assms(1,2)
    by (intro exI [of _ "fst (cloud_set_chan_cfg_item (cmd_channel cmd) SENSOR_CHAN_CFG_ITEM_TYPE_SEND_ENABLE (state_value s) st)"]
        exI [of _ ?st1]) (simp add: cloud_cmd_handle_sensor_set_chan_cfg_def d)
qed

text \<open>Both thresholds: the entry after the value, if there is one, and the switch were written.\<close>

lemma handle_threshold_ok:
  assumes "data_ok CLOUD_CMD_THRESHOLD_LOW d" "cmd_data cmd = d" "t \<noteq> e"
    and "\<And>cfg v. rule_of (cfg(t := v, e := 1)) = upd (Some v) (rule_of cfg)"
    and "\<And>cfg. rule_of (cfg(e := 0)) = upd None (rule_of cfg)"
  shows "\<exists>err st1. handle_threshold t e cmd st = Some (err, st1) \<and> delivered st1 = delivered st \<and>
    cloud_command_cb st1 = cloud_command_cb st \<and>
    rules_of st1 = (rules_of st)(cmd_channel cmd :=
      map_option (upd (if sv_state d = Some CLOUD_CMD_STATE_UNDEFINED then sv_value d else None)) (rules_of st (cmd_channel cmd)))"
proof -
  consider v where "d = SV v (Some CLOUD_CMD_STATE_FALSE)" | v where "d = SV (Some v) (Some CLOUD_CMD_STATE_UNDEFINED)"
    using assms(1) by (cases d; cases "sv_state d") auto
  then show ?thesis
  proof cases
    case 1
    let ?r = "cloud_set_chan_cfg_item (cmd_channel cmd) e 0 st"
    have "rules_of (snd ?r) = (rules_of st)(cmd_channel cmd := map_option (upd None) (rules_of st (cmd_channel cmd)))"
      by (rule rules_of_upd [OF set_item_map]) (rule assms(5))
    then show ?thesis using 1 assms(2)
      by (intro exI [of _ "fst ?r"] exI [of _ "snd ?r"]) (simp add: handle_threshold_def)
  next
    case (2 v)
    let ?r = "cloud_set_chan_cfg_item (cmd_channel cmd) t v st"
    let ?st2 = "snd (cloud_set_chan_cfg_item (cmd_channel cmd) e 1 (snd ?r))"
    have "map_of (sensor_cfg ?st2) = (map_of (sensor_cfg st))(cmd_channel cmd :=
        map_option (\<lambda>cfg. cfg(t := v, e := 1)) (map_of (sensor_cfg st) (cmd_channel cmd)))"
      by (simp add: set_item_map fun_eq_iff option.map_comp comp_def)
    then have "rules_of ?st2 = (rules_of st)(cmd_channel cmd := map_option (upd (Some v)) (rules_of st (cmd_channel cmd)))"
      by (rule rules_of_upd) (rule assms(4))
    then show ?thesis using 2 assms(2)
      by (intro exI [of _ "fst ?r"] exI [of _ ?st2]) (simp add: handle_threshold_def Let_def split_beta)
  qed
qed

lemma threshold_low_ok:
  assumes "data_ok CLOUD_CMD_THRESHOLD_LOW d" "cmd_data cmd = d"
  shows "\<exists>err st1. handle_threshold SENSOR_CHAN_CFG_ITEM_TYPE_THRESH_LOW_VALUE SENSOR_CHAN_CFG_ITEM_TYPE_THRESH_LOW_ENABLE cmd st =
      Some (err, st1) \<and> delivered st1 = delivered st \<and> cloud_command_cb st1 = cloud_command_cb st \<and>
    rules_of st1 = (rules_of st)(cmd_channel cmd := map_option (data_rule CLOUD_CMD_THRESHOLD_LOW d) (rules_of st (cmd_channel cmd)))"
  using handle_threshold_ok [OF assms, of SENSOR_CHAN_CFG_ITEM_TYPE_THRESH_LOW_VALUE SENSOR_CHAN_CFG_ITEM_TYPE_THRESH_LOW_ENABLE
      "\<lambda>x. low_update (\<lambda>_. x)" st]
  by (simp add: rule_of_def fun_eq_iff cong: option.map_cong)

lemma threshold_high_ok:
  assumes "data_ok CLOUD_CMD_THRESHOLD_HIGH d" "cmd_data cmd = d"
  shows "\<exists>err st1. handle_threshold SENSOR_CHAN_CFG_ITEM_TYPE_THRESH_HIGH_VALUE SENSOR_CHAN_CFG_ITEM_TYPE_THRESH_HIGH_ENABLE cmd st =
      Some (err, st1) \<and> delivered st1 = delivered st \<and> cloud_command_cb st1 = cloud_command_cb st \<and>
    rules_of st1 = (rules_of st)(cmd_channel cmd := map_option (data_rule CLOUD_CMD_THRESHOLD_HIGH d) (rules_of st (cmd_channel cmd)))"
proof -
  have "data_ok CLOUD_CMD_THRESHOLD_LOW d" using assms(1) by (cases d; cases "sv_state d") auto
  from handle_threshold_ok [OF this assms(2), of SENSOR_CHAN_CFG_ITEM_TYPE_THRESH_HIGH_VALUE
      SENSOR_CHAN_CFG_ITEM_TYPE_THRESH_HIGH_ENABLE "\<lambda>x. high_update (\<lambda>_. x)" st]
  show ?thesis by (simp add: rule_of_def fun_eq_iff cong: option.map_cong)
qed

lemma found_cmd_ok:
  assumes "data_ok (cmd_type cmd) (cmd_data cmd)"
  obtains st' where "found_cmd cmd st = Some st'" "cloud_command_cb st' = cloud_command_cb st"
    "delivered st' = delivered st @ (if cloud_command_cb st then [cmd] else [])"
    "rules_of st' = obeyed (cmd_group cmd) (cmd_channel cmd) (data_rule (cmd_type cmd) (cmd_data cmd)) (rules_of st)"
proof -
  have "\<exists>err st1. cloud_cmd_handle_sensor_set_chan_cfg cmd st = Some (err, st1) \<and> delivered st1 = delivered st \<and>
      cloud_command_cb st1 = cloud_command_cb st \<and>
      rules_of st1 = obeyed (cmd_group cmd) (cmd_channel cmd) (data_rule (cmd_type cmd) (cmd_data cmd)) (rules_of st)"
  proof (cases "cmd_group cmd = CLOUD_CMD_GROUP_CFG_SET")
    case True
    then show ?thesis
    proof (cases "cmd_type cmd")
      case CLOUD_CMD_ENABLE
      then show ?thesis using handle_enable_ok [OF True CLOUD_CMD_ENABLE] assms True by (simp add: obeyed_def)
    next
      case CLOUD_CMD_THRESHOLD_HIGH
      then show ?thesis using threshold_high_ok [of "cmd_data cmd" cmd st] True assms
        by (simp add: cloud_cmd_handle_sensor_set_chan_cfg_def obeyed_def)
    next
      case CLOUD_CMD_THRESHOLD_LOW
      then show ?thesis using threshold_low_ok [of "cmd_data cmd" cmd st] True assms
        by (simp add: cloud_cmd_handle_sensor_set_chan_cfg_def obeyed_def)
    qed (simp_all add: cloud_cmd_handle_sensor_set_chan_cfg_def obeyed_def option.map_id)
  qed (simp add: cloud_cmd_handle_sensor_set_chan_cfg_def obeyed_def)
  then show thesis using that by (fastforce simp: found_cmd_def rules_of_def fun_eq_iff)
qed

text \<open>A step keeps what was delivered, and adds only commands of the table with fitting data.\<close>

definition delivers :: "codec \<Rightarrow> codec \<Rightarrow> bool" where
  "delivers st st' \<longleftrightarrow> cloud_command_cb st' = cloud_command_cb st \<and>
    (\<exists>ds. delivered st' = delivered st @ ds \<and> list_all cmd_ok ds)"

lemma delivers_refl [simp]: "delivers st st" "delivers st (st\<lparr>cmd_parsed := cmd\<rparr>)"
  by (simp_all add: delivers_def)

lemma delivers_trans: "delivers st st1 \<Longrightarrow> delivers st1 st2 \<Longrightarrow> delivers st st2"
  by (auto simp: delivers_def)

lemma delivers_parsed: "delivers (st\<lparr>cmd_parsed := cmd\<rparr>) st' \<longleftrightarrow> delivers st st'"
  by (simp add: delivers_def)

lemma rules_parsed [simp]: "rules_of (st\<lparr>cmd_parsed := cmd\<rparr>) = rules_of st"
  by (simp add: rules_of_def fun_eq_iff)

lemma found_cmd_delivers:
  assumes "cmd_ok cmd"
  obtains st' where "found_cmd cmd st = Some st'" "delivers st st'" "cmd_parsed st' = cmd_parsed st"
    "rules_of st' = obeyed (cmd_group cmd) (cmd_channel cmd) (data_rule (cmd_type cmd) (cmd_data cmd)) (rules_of st)"
proof -
  obtain st' where st': "found_cmd cmd st = Some st'" "cloud_command_cb st' = cloud_command_cb st"
    "delivered st' = delivered st @ (if cloud_command_cb st then [cmd] else [])"
    "rules_of st' = obeyed (cmd_group cmd) (cmd_channel cmd) (data_rule (cmd_type cmd) (cmd_data cmd)) (rules_of st)"
    using assms found_cmd_ok by (metis cmd_ok_def)
  have "delivers st st'" using st'(2,3) assms
    by (auto simp: delivers_def intro!: exI [of _ "if cloud_command_cb st then [cmd] else []"])
  moreover have "cmd_parsed st' = cmd_parsed st" using st'(1)
    by (auto simp: found_cmd_def cloud_cmd_handle_sensor_set_chan_cfg_def handle_threshold_def cloud_set_chan_cfg_item_def Let_def
        split: cloud_cmd_type.splits if_splits bind_splits prod.splits)
  ultimately show thesis using that st' by blast
qed

definition settings :: "cloud_cmd_type list \<Rightarrow> cj option \<Rightarrow> rule \<Rightarrow> rule" where
  "settings ts obj = fold (\<lambda>t. setting t obj) ts"

lemma settings_simps: "settings [] obj = id" "settings (t # ts) obj = settings ts obj \<circ> setting t obj"
  by (simp_all add: settings_def fun_eq_iff)

lemma cmd_types_ok:
  assumes "\<forall>t\<in>set ts. in_table g c t" "cmd_group (cmd_parsed st) = g" "cmd_channel (cmd_parsed st) = c"
  shows "\<exists>st'. cmd_types doc ts st = Some st' \<and> delivers st st' \<and>
    rules_of st' = obeyed g c (settings ts (json_object_decode doc CMD_DATA_TYPE_KEY_STR)) (rules_of st)"
  using assms
proof (induction ts arbitrary: st)
  case (Cons t ts)
  let ?obj = "json_object_decode doc CMD_DATA_TYPE_KEY_STR"
  show ?case
  proof (cases rule: parse_type_cases [of t ?obj "cmd_parsed st"])
    case (found d)
    let ?cmd = "(cmd_parsed st)\<lparr>cmd_data := d, cmd_type := t\<rparr>"
    have "cmd_ok ?cmd" using Cons.prems found(2) by (simp add: cmd_ok_def)
    then obtain st1 where st1: "found_cmd ?cmd (st\<lparr>cmd_parsed := ?cmd\<rparr>) = Some st1" "delivers st st1" "cmd_parsed st1 = ?cmd"
      "rules_of st1 = obeyed g c (setting t ?obj) (rules_of st)"
      using found_cmd_delivers [of ?cmd "st\<lparr>cmd_parsed := ?cmd\<rparr>"] Cons.prems(2,3) found(3) by (auto simp: delivers_parsed)
    obtain st' where "cmd_types doc ts st1 = Some st'" "delivers st1 st'"
      "rules_of st' = obeyed g c (settings ts ?obj) (rules_of st1)"
      using Cons.IH [of st1] Cons.prems st1(3) by auto
    then show ?thesis using st1 found(1) by (auto simp: settings_simps comp_def intro: delivers_trans)
  next
    case (other r d)
    obtain st' where "cmd_types doc ts (st\<lparr>cmd_parsed := (cmd_parsed st)\<lparr>cmd_data := d\<rparr>\<rparr>) = Some st'"
      "delivers st st'" "rules_of st' = obeyed g c (settings ts ?obj) (rules_of st)"
      using Cons.IH [of "st\<lparr>cmd_parsed := (cmd_parsed st)\<lparr>cmd_data := d\<rparr>\<rparr>"] Cons.prems by (auto simp: delivers_parsed)
    then show ?thesis using other by (auto simp: settings_simps)
  qed
qed (simp add: settings_simps)

lemma config_types_ok:
  assumes "\<forall>t\<in>set ts. in_table g c t" "cmd_group item = g" "cmd_channel item = c"
  shows "\<exists>st'. config_types obj ts item st = Some st' \<and> delivers st st' \<and>
    rules_of st' = obeyed g c (settings ts obj) (rules_of st)"
  using assms
proof (induction ts arbitrary: st item)
  case (Cons t ts)
  show ?case
  proof (cases rule: parse_type_cases [of t obj item])
    case (found d)
    let ?cmd = "item\<lparr>cmd_data := d, cmd_type := t\<rparr>"
    have "cmd_ok ?cmd" using Cons.prems found(2) by (simp add: cmd_ok_def)
    then obtain st1 where st1: "found_cmd ?cmd st = Some st1" "delivers st st1"
      "rules_of st1 = obeyed g c (setting t obj) (rules_of st)"
      using found_cmd_delivers [of ?cmd st] Cons.prems(2,3) found(3) by auto
    obtain st' where "config_types obj ts ?cmd st1 = Some st'" "delivers st1 st'"
      "rules_of st' = obeyed g c (settings ts obj) (rules_of st1)"
      using Cons.IH [of ?cmd st1] Cons.prems by auto
    then show ?thesis using st1 found(1) by (auto simp: settings_simps comp_def intro: delivers_trans)
  next
    case (other r d)
    obtain st' where "config_types obj ts (item\<lparr>cmd_data := d\<rparr>) st = Some st'"
      "delivers st st'" "rules_of st' = obeyed g c (settings ts obj) (rules_of st)"
      using Cons.IH [of "item\<lparr>cmd_data := d\<rparr>" st] Cons.prems by auto
    then show ?thesis using other by (auto simp: settings_simps)
  qed
qed (simp add: settings_simps)

text \<open>The table of the settings against what the channels obey.\<close>

lemma settings_obey: "(c, ts) \<in> set group_cfg_set \<Longrightarrow> settings ts obj = obey c obj"
  by (auto simp: group_cfg_set_def thresholds_def settings_def obey_def limited_def fun_eq_iff)

lemma settings_none: "settings ts None = id"
proof -
  have "setting t None = id" for t by (cases t) (simp_all add: fun_eq_iff set_sends_def set_low_def set_high_def)
  then show ?thesis by (induction ts) (simp_all add: settings_simps)
qed

lemma obey_other: "c \<notin> fst ` set group_cfg_set \<Longrightarrow> obey c obj = id"
  by (auto simp: group_cfg_set_def obey_def limited_def fun_eq_iff)

lemma cfg_channel_names:
  "c \<in> fst ` set group_cfg_set \<Longrightarrow> channel_type_str c' = channel_type_str c \<Longrightarrow> c' = c"
  by (cases c') (auto simp: group_cfg_set_def)

lemma cfg_in_table: "(c, ts) \<in> set group_cfg_set \<Longrightarrow> \<forall>t\<in>set ts. in_table CLOUD_CMD_GROUP_CFG_SET c t"
  by (auto simp: in_table_def cmd_groups_def list_ex_iff)

lemma group_in_table: "(g, chans) \<in> set cmd_groups \<Longrightarrow> (c, ts) \<in> set chans \<Longrightarrow> \<forall>t\<in>set ts. in_table g c t"
  by (auto simp: in_table_def list_ex_iff)

lemma string_compare: "json_value_string_compare (json_object_decode (Some doc) key) str \<longleftrightarrow>
    cJSON_GetStringValue (cJSON_GetObjectItem (Some doc) key) = Some str"
  by (auto simp: json_value_string_compare_def json_object_decode_def split: option.splits)

lemma group_names: "(g, chans) \<in> set cmd_groups \<Longrightarrow>
    cmd_group_str g = asc ''CFG_SET'' \<longleftrightarrow> g = CLOUD_CMD_GROUP_CFG_SET \<and> chans = group_cfg_set"
  by (auto simp: cmd_groups_def)

lemma find_SomeD: "find P xs = Some x \<Longrightarrow> x \<in> set xs \<and> P x"
  by (metis find_Some_iff nth_mem)

lemma search_cmd_ok:
  "\<exists>r st'. cloud_search_cmd (Some doc) st = Some (r, st') \<and> delivers st st' \<and> rules_of st' = commanded doc (rules_of st)"
proof -
  let ?type = "cJSON_GetStringValue (cJSON_GetObjectItem (Some doc) (asc ''messageType''))"
  let ?name = "cJSON_GetStringValue (cJSON_GetObjectItem (Some doc) (asc ''appId''))"
  let ?P = "\<lambda>(g, chans :: chan_cmd list). json_value_string_compare (json_object_decode (Some doc) CMD_GROUP_KEY_STR) (cmd_group_str g)"
  let ?Q = "\<lambda>(c, ts :: cloud_cmd_type list). json_value_string_compare (json_object_decode (Some doc) CMD_CHAN_KEY_STR) (channel_type_str c)"
  have P: "?P (g, chans) \<longleftrightarrow> ?type = Some (cmd_group_str g)" for g chans by (simp add: string_compare CMD_GROUP_KEY_STR_def)
  have Q: "?Q (c, ts) \<longleftrightarrow> ?name = Some (channel_type_str c)" for c ts by (simp add: string_compare CMD_CHAN_KEY_STR_def)
  have other: "commanded doc rs = rs" if "?type \<noteq> Some (asc ''CFG_SET'')" for rs
    using that by (simp add: commanded_def fun_eq_iff)
  show ?thesis
  proof (cases "find ?P cmd_groups")
    case None
    have "?type \<noteq> Some (asc ''CFG_SET'')"
      using None P [of CLOUD_CMD_GROUP_CFG_SET group_cfg_set] by (auto simp: find_None_iff cmd_groups_def)
    then show ?thesis using None other by (simp add: cloud_search_cmd_def)
  next
    case (Some gc)
    obtain g chans where gc: "gc = (g, chans)" by (rule prod.exhaust)
    have g: "(g, chans) \<in> set cmd_groups" "?type = Some (cmd_group_str g)" using find_SomeD [OF Some] P gc by auto
    let ?st1 = "st\<lparr>cmd_parsed := (cmd_parsed st)\<lparr>cmd_group := g\<rparr>\<rparr>"
    show ?thesis
    proof (cases "find ?Q chans")
      case None
      have "commanded doc rs c = rs c" for rs c
      proof (cases "?type = Some (asc ''CFG_SET'') \<and> ?name = Some (channel_type_str c)")
        case True
        then have "cmd_group_str g = asc ''CFG_SET''" using g(2) by (simp only: option.inject)
        then have "chans = group_cfg_set" using group_names [OF g(1)] by blast
        then have "\<not> ?Q (c, ts)" if "(c, ts) \<in> set group_cfg_set" for ts
          using None that unfolding find_None_iff by blast
        then have "c \<notin> fst ` set group_cfg_set" using Q [of c] True by auto
        then show ?thesis by (simp add: commanded_def obey_other option.map_id)
      qed (auto simp: commanded_def)
      then have "commanded doc rs = rs" for rs by (rule ext)
      then show ?thesis using Some None gc by (simp add: cloud_search_cmd_def)
    next
      case (Some ct)
      obtain c ts where ct: "ct = (c, ts)" by (rule prod.exhaust)
      have c: "(c, ts) \<in> set chans" "?name = Some (channel_type_str c)" using find_SomeD [OF Some] Q ct by auto
      let ?obj = "json_object_decode (Some doc) CMD_DATA_TYPE_KEY_STR"
      obtain st' where st': "cmd_types (Some doc) ts (?st1\<lparr>cmd_parsed := (cmd_parsed ?st1)\<lparr>cmd_channel := c\<rparr>\<rparr>) = Some st'"
        "delivers st st'" "rules_of st' = obeyed g c (settings ts ?obj) (rules_of st)"
        using cmd_types_ok [OF group_in_table [OF g(1) c(1)], of "?st1\<lparr>cmd_parsed := (cmd_parsed ?st1)\<lparr>cmd_channel := c\<rparr>\<rparr>" "Some doc"]
        by (auto simp: delivers_parsed)
      have "obeyed g c (settings ts ?obj) (rules_of st) = commanded doc (rules_of st)"
      proof (cases "g = CLOUD_CMD_GROUP_CFG_SET")
        case True
        then have cs: "(c, ts) \<in> set group_cfg_set" using c(1) g(1) by (auto simp: cmd_groups_def)
        have "?name = Some (channel_type_str c') \<longleftrightarrow> c' = c" for c'
          using c(2) cfg_channel_names [OF rev_image_eqI [OF cs], of c c'] by auto
        then show ?thesis using True g(2) unfolding settings_obey [OF cs]
          by (auto simp: obeyed_def commanded_def fun_eq_iff json_object_decode_def CMD_DATA_TYPE_KEY_STR_def)
      next
        case False
        then show ?thesis using other g group_names [OF g(1)] by (simp add: obeyed_def)
      qed
      then show ?thesis using st' Some \<open>find ?P cmd_groups = Some gc\<close> gc ct
        by (simp add: cloud_search_cmd_def Let_def)
    qed
  qed
qed

lemma config_channels_ok:
  assumes "set cs \<subseteq> set group_cfg_set" "distinct (map fst cs)"
  shows "\<exists>st'. config_channels (Some conf) cs st = Some st' \<and> delivers st st' \<and>
    (\<forall>c. rules_of st' c = (if c \<in> fst ` set cs
      then map_option (obey c (cJSON_GetObjectItem (Some conf) (channel_type_str c))) (rules_of st c) else rules_of st c))"
  using assms
proof (induction cs arbitrary: st)
  case (Cons ct cs)
  obtain c ts where ct: "ct = (c, ts)" by (rule prod.exhaust)
  have c: "(c, ts) \<in> set group_cfg_set" using Cons.prems(1) ct by auto
  let ?obj = "cJSON_GetObjectItem (Some conf) (channel_type_str c)"
  have "\<exists>st1. (if ?obj = None then Some st
      else config_types ?obj ts (zero_command\<lparr>cmd_group := CLOUD_CMD_GROUP_CFG_SET, cmd_channel := c\<rparr>) st) = Some st1 \<and>
      delivers st st1 \<and> rules_of st1 = obeyed CLOUD_CMD_GROUP_CFG_SET c (obey c ?obj) (rules_of st)"
  proof (cases ?obj)
    case None
    then show ?thesis using settings_none settings_obey [OF c] by (metis delivers_refl(1) obeyed_simps(1))
  next
    case (Some obj)
    then show ?thesis using config_types_ok [OF cfg_in_table [OF c], of "zero_command\<lparr>cmd_group := CLOUD_CMD_GROUP_CFG_SET, cmd_channel := c\<rparr>" ?obj st]
        settings_obey [OF c] by auto
  qed
  then obtain st1 where st1: "(if ?obj = None then Some st
      else config_types ?obj ts (zero_command\<lparr>cmd_group := CLOUD_CMD_GROUP_CFG_SET, cmd_channel := c\<rparr>) st) = Some st1"
      "delivers st st1" "rules_of st1 = obeyed CLOUD_CMD_GROUP_CFG_SET c (obey c ?obj) (rules_of st)" by blast
  obtain st' where st': "config_channels (Some conf) cs st1 = Some st'" "delivers st1 st'"
    "\<And>c. rules_of st' c = (if c \<in> fst ` set cs
      then map_option (obey c (cJSON_GetObjectItem (Some conf) (channel_type_str c))) (rules_of st1 c) else rules_of st1 c)"
    using Cons.IH [of st1] Cons.prems by auto
  have "config_channels (Some conf) (ct # cs) st = Some st'"
    using st1(1) st'(1) by (cases ?obj) (simp_all add: ct json_object_decode_def Let_def)
  moreover have "delivers st st'" using st1(2) st'(2) by (rule delivers_trans)
  moreover have "c \<notin> fst ` set cs" using Cons.prems(2) ct by simp
  ultimately show ?case using st'(3) st1(3) by (auto simp: ct obeyed_def)
qed simp

lemma search_config_ok:
  "\<exists>r st'. cloud_search_config (Some doc) st = Some (r, st') \<and> delivers st st' \<and> rules_of st' = configured doc (rules_of st)"
proof -
  have c: "cJSON_DetachItemFromObject (if cJSON_GetObjectItem (Some doc) (asc ''state'') \<noteq> None
      then cJSON_GetObjectItem (Some doc) (asc ''state'') else Some doc) (asc ''config'') = config_of doc"
    by (simp add: cJSON_DetachItemFromObject_def config_of_def Let_def)
  show ?thesis
  proof (cases "config_of doc")
    case None
    have "obey c None = id" for c by (metis obey_other settings_none settings_obey imageE prod.collapse)
    then have "configured doc rs = rs" for rs using None by (intro ext) (simp add: configured_def option.map_id)
    then show ?thesis unfolding cloud_search_config_def Let_def c None by simp
  next
    case (Some conf)
    obtain st' where st': "config_channels (Some conf) group_cfg_set st = Some st'" "delivers st st'"
      "\<And>c. rules_of st' c = (if c \<in> fst ` set group_cfg_set
        then map_option (obey c (cJSON_GetObjectItem (Some conf) (channel_type_str c))) (rules_of st c) else rules_of st c)"
      using config_channels_ok [of group_cfg_set conf st] by (auto simp: group_cfg_set_def)
    have "rules_of st' = configured doc (rules_of st)"
      using st'(3) Some by (auto simp: configured_def fun_eq_iff obey_other option.map_id)
    then show ?thesis using st'(1,2) unfolding cloud_search_config_def Let_def c Some by simp
  qed
qed

lemma decode_command_ok:
  "\<exists>r st'. cloud_decode_command parse m st = Some (r, st') \<and> delivers st st' \<and>
    rules_of st' = (case Option.bind m parse of None \<Rightarrow> rules_of st | Some doc \<Rightarrow> configured doc (commanded doc (rules_of st)))"
proof (cases "Option.bind m parse")
  case None
  then show ?thesis by (auto simp: cloud_decode_command_def split: option.splits)
next
  case (Some doc)
  then obtain b where b: "m = Some b" "parse b = Some doc" by (cases m) auto
  obtain r st1 where 1: "cloud_search_cmd (Some doc) st = Some (r, st1)" "delivers st st1" "rules_of st1 = commanded doc (rules_of st)"
    using search_cmd_ok by blast
  obtain r' st2 where 2: "cloud_search_config (Some doc) st1 = Some (r', st2)" "delivers st1 st2" "rules_of st2 = configured doc (rules_of st1)"
    using search_config_ok by blast
  show ?thesis using b 1 2 delivers_trans by (auto simp: cloud_decode_command_def)
qed

lemma cloud_run_ok:
  "\<exists>st'. cloud_run parse ins st = Some st' \<and> delivers st st' \<and> rules_of st' = rules_after parse ins (rules_of st)"
proof (induction ins arbitrary: st)
  case (Cons i ins)
  show ?case
  proof (cases i)
    case (Message m)
    obtain r st1 where 1: "cloud_decode_command parse m st = Some (r, st1)" "delivers st st1"
      "rules_of st1 = (case Option.bind m parse of None \<Rightarrow> rules_of st | Some doc \<Rightarrow> configured doc (commanded doc (rules_of st)))"
      using decode_command_ok [of parse m st] by blast
    then show ?thesis using Message Cons.IH [of st1] by (auto intro: delivers_trans)
  next
    case (Switch c s)
    let ?st1 = "cloud_set_channel_enable_state c s st"
    obtain st' where st': "cloud_run parse ins ?st1 = Some st'" "delivers ?st1 st'" "rules_of st' = rules_after parse ins (rules_of ?st1)"
      using Cons.IH by blast
    have "delivers st ?st1" by (simp add: delivers_def cloud_set_channel_enable_state_def)
    from this st'(2) have "delivers st st'" by (rule delivers_trans)
    then show ?thesis using st'(1,3)
      unfolding Switch cloud_run.simps rules_after.simps rules_of_switch [symmetric] by blast
  qed
qed simp

text \<open>C6: The values that may be sent follow the messages.  After any messages, parsed or not, and any
  calls of the application, decoding never reads a part of a command that was not written, and a value
  of a channel is let through exactly when the rule of the channel, as the settings in the messages
  have changed it, lets it through: the channel is not switched off, and the value is beyond a limit,
  or there is none.\<close>

theorem send_rule_follows_messages:
  "\<exists>st. cloud_run parse ins (cloud_decode_init cb codec_boot) = Some st \<and>
    (\<forall>c v. cloud_is_send_allowed c v st = allowed (rules_after parse ins first_rules c) v)"
  using cloud_run_ok [of parse ins "cloud_decode_init cb codec_boot"] by (auto simp: allowed_rules rules_of_init)

text \<open>C39: Every command the callback is called with is one of the table, and its data are those of its
  type: on or off, a limit or none, an interval that is off or at least five seconds, a colour, both
  modem parameters, a string.\<close>

theorem callback_commands_typed:
  "\<exists>st. cloud_run parse ins (cloud_decode_init cb codec_boot) = Some st \<and> list_all cmd_ok (delivered st)"
  using cloud_run_ok [of parse ins "cloud_decode_init cb codec_boot"]
  by (auto simp: delivers_def cloud_decode_init_def codec_boot_def)

text \<open>A command that sets the upper limit of the temperature to 30.\<close>

definition limit_temp :: cj where
  "limit_temp = CJObj [(asc ''appId'', CJStr (asc ''TEMP'')), (asc ''messageType'', CJStr (asc ''CFG_SET'')),
     (asc ''data'', CJObj [(asc ''thresh_hi'', CJNum 30)])]"

lemma limit_temp_rule:
  "rules_after (\<lambda>_. Some limit_temp) [Message (Some [])] first_rules CLOUD_CHANNEL_TEMP =
     Some \<lparr>sends = True, low = None, high = Some 30\<rparr>"
  "rules_after (\<lambda>_. Some limit_temp) [Message (Some [])] first_rules CLOUD_CHANNEL_HUMID =
     Some \<lparr>sends = True, low = None, high = None\<rparr>"
  by (simp_all add: limit_temp_def configured_def commanded_def config_of_def first_rules_def sensor_channels_def obey_def limited_def
      set_sends_def set_low_def set_high_def tolower_def Let_def)

end
