(* ===== verification/Watchdog.thy ===== *)
theory Watchdog
  imports Errno
begin

text \<open>
  \<^verbatim>\<open>watchdog/watchdog.c\<close>: the watchdog timer, and the two works that feed it.  A delayed work of the
  system queue hands the feeding to a second queue, which schedules the delayed work again, so the
  timer is only fed while both queues run.  Time is counted in milliseconds; what the kernel and the
  timer do are the events: a millisecond passes, or one of the queues gets to run.
\<close>

section \<open>State\<close>

record wdt =
  armed :: bool
  since_feed :: nat
  due :: "nat option"
  primary_queued :: bool
  second_queued :: bool
  was_reset :: bool

definition wdt_boot :: wdt where
  "wdt_boot = \<lparr>armed = False, since_feed = 0, due = None, primary_queued = False, second_queued = False, was_reset = False\<rparr>"

text \<open>The results of the driver and the kernel during the start; the timeout is a configuration value.\<close>

record wdt_env =
  binding :: bool
  install_timeout :: int
  setup_err :: int
  first_feed :: int
  submit :: int
  timeout :: nat

definition WDT_FEED_WORKER_DELAY_MS :: "wdt_env \<Rightarrow> nat" where
  "WDT_FEED_WORKER_DELAY_MS env = timeout env div 2"

section \<open>Start\<close>

definition watchdog_timeout_install :: "wdt_env \<Rightarrow> int" where
  "watchdog_timeout_install env = (if install_timeout env < 0 then - EFAULT else 0)"

definition watchdog_start :: "wdt_env \<Rightarrow> wdt \<Rightarrow> int \<times> wdt" where
  "watchdog_start env st = (let err = setup_err env in (err, if err = 0 then st\<lparr>armed := True, since_feed := 0\<rparr> else st))"

text \<open>Submitting the delayed work replaces an earlier submission.\<close>

definition submit_delayed :: "nat \<Rightarrow> wdt \<Rightarrow> wdt" where
  "submit_delayed ms st = st\<lparr>due := Some ms, primary_queued := False\<rparr>"

definition watchdog_feed_enable :: "wdt_env \<Rightarrow> wdt \<Rightarrow> int \<times> wdt" where
  "watchdog_feed_enable env st =
    (let err = first_feed env
     in if err \<noteq> 0 then (err, st)
        else (let st1 = st\<lparr>since_feed := 0\<rparr>; err = submit env
              in (err, if err \<noteq> 0 then st1 else submit_delayed (WDT_FEED_WORKER_DELAY_MS env) st1)))"

definition watchdog_enable :: "wdt_env \<Rightarrow> wdt \<Rightarrow> int \<times> wdt" where
  "watchdog_enable env st =
    (if \<not> binding env then (- ENXIO, st)
     else (let err = watchdog_timeout_install env
       in if err \<noteq> 0 then (err, st)
          else (let (err, st1) = watchdog_start env st
            in if err \<noteq> 0 then (err, st1)
               else (let (err, st2) = watchdog_feed_enable env st1
                 in if err \<noteq> 0 then (err, st2) else (0, st2)))))"

definition watchdog_init_and_start :: "wdt_env \<Rightarrow> bool \<Rightarrow> wdt \<Rightarrow> int \<times> wdt" where
  "watchdog_init_and_start env work_q_null st = (if work_q_null then (- EINVAL, st) else watchdog_enable env st)"

section \<open>Feeding\<close>

definition primary_feed_worker :: "wdt \<Rightarrow> wdt" where
  "primary_feed_worker st = st\<lparr>second_queued := True\<rparr>"

definition secondary_feed_worker :: "wdt_env \<Rightarrow> int \<Rightarrow> wdt \<Rightarrow> wdt" where
  "secondary_feed_worker env err st =
    (if err \<noteq> 0 then st else submit_delayed (WDT_FEED_WORKER_DELAY_MS env) (st\<lparr>since_feed := 0\<rparr>))"

text \<open>A millisecond: the timer counts and resets the device, and a delayed work whose time is over goes to its queue.\<close>

definition tick :: "wdt_env \<Rightarrow> wdt \<Rightarrow> wdt" where
  "tick env st =
    (let n = since_feed st + 1;
         st1 = (if armed st then st\<lparr>since_feed := n, was_reset := was_reset st \<or> timeout env \<le> n\<rparr> else st)
     in case due st of
       None \<Rightarrow> st1
     | Some d \<Rightarrow> if d \<le> 1 then st1\<lparr>due := None, primary_queued := True\<rparr> else st1\<lparr>due := Some (d - 1)\<rparr>)"

datatype wdt_event = Tick | RunSystem | RunSecond int

fun wdt_step :: "wdt_env \<Rightarrow> wdt_event \<Rightarrow> wdt \<Rightarrow> wdt" where
  "wdt_step env Tick st = tick env st"
| "wdt_step env RunSystem st =
    (if primary_queued st then primary_feed_worker (st\<lparr>primary_queued := False\<rparr>) else st)"
| "wdt_step env (RunSecond err) st =
    (if second_queued st then secondary_feed_worker env err (st\<lparr>second_queued := False\<rparr>) else st)"

text \<open>After a reset the device starts anew: the run is over.\<close>

fun wdt_run :: "wdt_env \<Rightarrow> wdt_event list \<Rightarrow> wdt \<Rightarrow> wdt" where
  "wdt_run env [] st = st"
| "wdt_run env (e # es) st = (if was_reset st then st else wdt_run env es (wdt_step env e st))"

definition ticks :: "wdt_event list \<Rightarrow> nat" where
  "ticks es = length (filter (\<lambda>e. e = Tick) es)"

lemma ticks_simps [simp]: "ticks [] = 0" "ticks (Tick # es) = Suc (ticks es)" "ticks (RunSystem # es) = ticks es"
  "ticks (RunSecond err # es) = ticks es"
  by (simp_all add: ticks_def)

section \<open>Never reset while both queues run\<close>

text \<open>
  How long the work of each queue has been waiting, and that no work waits longer than its queue's
  bound and no feeding fails.
\<close>

fun prompt :: "wdt_env \<Rightarrow> nat \<Rightarrow> nat \<Rightarrow> nat \<Rightarrow> nat \<Rightarrow> wdt_event list \<Rightarrow> wdt \<Rightarrow> bool" where
  "prompt env l1 l2 w1 w2 [] st = True"
| "prompt env l1 l2 w1 w2 (e # es) st =
    (let v1 = (if e = Tick \<and> primary_queued st then w1 + 1 else if primary_queued st then w1 else 0);
         v2 = (if e = Tick \<and> second_queued st then w2 + 1 else if second_queued st then w2 else 0)
     in v1 \<le> l1 \<and> v2 \<le> l2 \<and> (case e of RunSecond err \<Rightarrow> err = 0 | _ \<Rightarrow> True) \<and>
        prompt env l1 l2 v1 v2 es (wdt_step env e st))"

text \<open>Where the feeding stands: the delay is running, or the work waits in one of the queues.\<close>

definition phase :: "wdt_env \<Rightarrow> nat \<Rightarrow> nat \<Rightarrow> nat \<Rightarrow> wdt \<Rightarrow> bool" where
  "phase env l1 w1 w2 st \<longleftrightarrow> armed st \<and> \<not> was_reset st \<and>
    ((\<exists>d. due st = Some d \<and> 0 < d \<and> since_feed st + d = WDT_FEED_WORKER_DELAY_MS env) \<and> \<not> primary_queued st \<and> \<not> second_queued st \<or>
     due st = None \<and> primary_queued st \<and> \<not> second_queued st \<and> since_feed st \<le> WDT_FEED_WORKER_DELAY_MS env + w1 \<or>
     due st = None \<and> \<not> primary_queued st \<and> second_queued st \<and> since_feed st \<le> WDT_FEED_WORKER_DELAY_MS env + l1 + w2)"

lemma phase_step:
  assumes "phase env l1 w1 w2 st" "prompt env l1 l2 w1 w2 (e # es) st"
    and "WDT_FEED_WORKER_DELAY_MS env + l1 + l2 < timeout env" "0 < WDT_FEED_WORKER_DELAY_MS env"
  shows "\<exists>v1 v2. phase env l1 v1 v2 (wdt_step env e st) \<and> prompt env l1 l2 v1 v2 es (wdt_step env e st)"
proof -
  let ?v1 = "if e = Tick \<and> primary_queued st then w1 + 1 else if primary_queued st then w1 else 0"
  let ?v2 = "if e = Tick \<and> second_queued st then w2 + 1 else if second_queued st then w2 else 0"
  have p: "?v1 \<le> l1" "?v2 \<le> l2" "prompt env l1 l2 ?v1 ?v2 es (wdt_step env e st)"
    and err: "\<And>err. e = RunSecond err \<Longrightarrow> err = 0"
    using assms(2) by (auto simp: Let_def)
  consider (delay) d where "due st = Some d" "0 < d" "since_feed st + d = WDT_FEED_WORKER_DELAY_MS env" "\<not> primary_queued st" "\<not> second_queued st"
    | (first) "due st = None" "primary_queued st" "\<not> second_queued st" "since_feed st \<le> WDT_FEED_WORKER_DELAY_MS env + w1"
    | (second) "due st = None" "\<not> primary_queued st" "second_queued st" "since_feed st \<le> WDT_FEED_WORKER_DELAY_MS env + l1 + w2"
    using assms(1) by (auto simp: phase_def)
  then have "phase env l1 ?v1 ?v2 (wdt_step env e st)"
  proof cases
    case delay
    then show ?thesis using assms(1,3) by (cases e) (auto simp: phase_def tick_def Let_def)
  next
    case first
    then show ?thesis using assms(1,3) p(1,2) by (cases e) (auto simp: phase_def tick_def Let_def primary_feed_worker_def)
  next
    case second
    then show ?thesis using assms(1,3,4) p(1,2) err
      by (cases e) (auto simp: phase_def tick_def Let_def secondary_feed_worker_def submit_delayed_def)
  qed
  then show ?thesis using p(3) by blast
qed

lemma phase_run:
  assumes "phase env l1 w1 w2 st" "prompt env l1 l2 w1 w2 es st"
    and "WDT_FEED_WORKER_DELAY_MS env + l1 + l2 < timeout env" "0 < WDT_FEED_WORKER_DELAY_MS env"
  shows "\<exists>v1 v2. phase env l1 v1 v2 (wdt_run env es st)"
  using assms(1,2)
proof (induction es arbitrary: st w1 w2)
  case (Cons e es)
  have "\<not> was_reset st" using Cons.prems(1) by (simp add: phase_def)
  moreover obtain v1 v2 where "phase env l1 v1 v2 (wdt_step env e st)" "prompt env l1 l2 v1 v2 es (wdt_step env e st)"
    using phase_step [OF Cons.prems assms(3,4)] by blast
  ultimately show ?case using Cons.IH by simp
qed auto

definition started :: "wdt_env \<Rightarrow> wdt" where
  "started env = snd (watchdog_init_and_start env False wdt_boot)"

lemma start_phase:
  assumes "fst (watchdog_init_and_start env False wdt_boot) = 0" "0 < WDT_FEED_WORKER_DELAY_MS env"
  shows "phase env l1 0 0 (started env)"
  using assms by (auto simp: started_def watchdog_init_and_start_def watchdog_enable_def watchdog_timeout_install_def watchdog_start_def
      watchdog_feed_enable_def submit_delayed_def wdt_boot_def phase_def errno_defs Let_def split: if_splits)

text \<open>As long as it has not expired, the timer is below its timeout.\<close>

definition timer_ok :: "wdt_env \<Rightarrow> wdt \<Rightarrow> bool" where
  "timer_ok env st \<longleftrightarrow> armed st \<and> (was_reset st \<or> since_feed st < timeout env)"

lemma timer_ok_step: "timer_ok env st \<Longrightarrow> 0 < timeout env \<Longrightarrow> timer_ok env (wdt_step env e st)"
  by (cases e) (auto simp: timer_ok_def tick_def Let_def primary_feed_worker_def secondary_feed_worker_def submit_delayed_def
      split: option.splits)

lemma timer_ok_run: "timer_ok env st \<Longrightarrow> 0 < timeout env \<Longrightarrow> timer_ok env (wdt_run env es st)"
  by (induction es arbitrary: st) (auto simp: timer_ok_step)

lemma start_timer_ok:
  assumes "fst (watchdog_init_and_start env False wdt_boot) = 0" "2 \<le> timeout env"
  shows "timer_ok env (started env)"
proof -
  have "0 < WDT_FEED_WORKER_DELAY_MS env" using assms(2) by (simp add: WDT_FEED_WORKER_DELAY_MS_def)
  from start_phase [OF assms(1) this, of 0] show ?thesis
    using assms(2) by (auto simp: phase_def timer_ok_def WDT_FEED_WORKER_DELAY_MS_def)
qed

text \<open>C7: A device whose queues run is not reset: when the start reports success, no work waits longer than
  its queue's bound, the two bounds fit into the part of the timeout the delay leaves, and no feeding
  fails, the timer has not expired after any events.\<close>

theorem watchdog_never_resets_running:
  assumes "fst (watchdog_init_and_start env False wdt_boot) = 0" "2 \<le> timeout env"
    and "l1 + l2 < timeout env - WDT_FEED_WORKER_DELAY_MS env"
    and "prompt env l1 l2 0 0 es (started env)"
  shows "\<not> was_reset (wdt_run env es (started env)) \<and> since_feed (wdt_run env es (started env)) < timeout env"
proof -
  have d: "0 < WDT_FEED_WORKER_DELAY_MS env" "WDT_FEED_WORKER_DELAY_MS env + l1 + l2 < timeout env"
    using assms(2,3) by (auto simp: WDT_FEED_WORKER_DELAY_MS_def)
  obtain v1 v2 where "phase env l1 v1 v2 (wdt_run env es (started env))"
    using phase_run [OF start_phase [OF assms(1) d(1)] assms(4) d(2,1)] by blast
  then have "\<not> was_reset (wdt_run env es (started env))" by (simp add: phase_def)
  moreover have "timer_ok env (wdt_run env es (started env))"
    using start_timer_ok [OF assms(1,2)] assms(2) by (intro timer_ok_run) auto
  ultimately show ?thesis by (simp add: timer_ok_def)
qed

definition example_wdt :: wdt_env where
  "example_wdt = \<lparr>binding = True, install_timeout = 0, setup_err = 0, first_feed = 0, submit = 0, timeout = 8\<rparr>"

definition one_round :: "wdt_event list" where
  "one_round = [Tick, Tick, Tick, Tick, Tick, RunSystem, Tick, RunSecond 0]"

lemma watchdog_never_resets_running_witness:
  "\<not> was_reset (wdt_run example_wdt (one_round @ one_round) (started example_wdt)) \<and>
   since_feed (wdt_run example_wdt (one_round @ one_round) (started example_wdt)) < timeout example_wdt"
  by (rule watchdog_never_resets_running [where ?l1.0 = 1 and ?l2.0 = 1])
    (simp_all add: example_wdt_def one_round_def started_def watchdog_init_and_start_def watchdog_enable_def
      watchdog_timeout_install_def watchdog_start_def watchdog_feed_enable_def submit_delayed_def wdt_boot_def
      WDT_FEED_WORKER_DELAY_MS_def tick_def primary_feed_worker_def secondary_feed_worker_def)

section \<open>Reset when a queue is stuck\<close>

text \<open>Without a successful feeding the timer only counts.\<close>

lemma unfed_run:
  "\<lbrakk>timer_ok env st; \<not> was_reset (wdt_run env es st); RunSecond 0 \<notin> set es\<rbrakk> \<Longrightarrow>
   since_feed (wdt_run env es st) = since_feed st + ticks es"
proof (induction es arbitrary: st)
  case (Cons e es)
  have nr: "\<not> was_reset st" using Cons.prems(2) by auto
  have step: "since_feed (wdt_step env e st) = since_feed st + ticks [e]"
    using Cons.prems(1,3) by (cases e) (auto simp: timer_ok_def tick_def Let_def primary_feed_worker_def secondary_feed_worker_def
        split: option.splits)
  have "timer_ok env (wdt_step env e st)" using Cons.prems(1) nr by (intro timer_ok_step) (auto simp: timer_ok_def)
  then have "since_feed (wdt_run env es (wdt_step env e st)) = since_feed (wdt_step env e st) + ticks es"
    using Cons.IH Cons.prems(2,3) nr by simp
  then show ?case using step nr by (cases e) auto
qed simp

text \<open>Without the first queue the second one can only feed once more.\<close>

lemma stuck_system_run:
  "\<lbrakk>timer_ok env st; \<not> was_reset (wdt_run env es st); RunSystem \<notin> set es\<rbrakk> \<Longrightarrow>
   since_feed st + ticks es \<le> since_feed (wdt_run env es st) + (if second_queued st then timeout env else 0)"
proof (induction es arbitrary: st)
  case (Cons e es)
  let ?st1 = "wdt_step env e st"
  have nr: "\<not> was_reset st" using Cons.prems(2) by auto
  have lt: "armed st" "since_feed st < timeout env" using Cons.prems(1) nr by (auto simp: timer_ok_def)
  have "timer_ok env ?st1" using Cons.prems(1) lt by (intro timer_ok_step) auto
  then have IH: "since_feed ?st1 + ticks es \<le> since_feed (wdt_run env es ?st1) + (if second_queued ?st1 then timeout env else 0)"
    using Cons.IH Cons.prems(2,3) nr by simp
  show ?case
  proof (cases e)
    case Tick
    have "since_feed ?st1 = since_feed st + 1" "second_queued ?st1 = second_queued st"
      using lt Tick by (auto simp: tick_def Let_def split: option.splits)
    then show ?thesis using IH nr Tick by simp
  next
    case RunSystem
    then show ?thesis using Cons.prems(3) by simp
  next
    case (RunSecond err)
    then show ?thesis using IH nr lt by (auto simp: secondary_feed_worker_def submit_delayed_def split: if_splits)
  qed
qed simp

text \<open>C16: A stuck device is reset: in every state the timer can be in, when one of the queues no longer gets to
  run, or no feeding succeeds any more, the device has been reset after at most two timeouts.\<close>

theorem watchdog_resets_stuck:
  assumes "fst (watchdog_init_and_start env False wdt_boot) = 0" "2 \<le> timeout env"
    and "RunSystem \<notin> set es \<or> RunSecond 0 \<notin> set es" "2 * timeout env \<le> ticks es"
  shows "was_reset (wdt_run env es (wdt_run env before (started env)))"
proof (rule ccontr)
  let ?st = "wdt_run env before (started env)"
  assume r: "\<not> was_reset (wdt_run env es ?st)"
  have ok: "timer_ok env ?st" "timer_ok env (wdt_run env es ?st)"
    using start_timer_ok [OF assms(1,2)] assms(2) by (auto intro!: timer_ok_run)
  have "since_feed ?st + ticks es \<le> since_feed (wdt_run env es ?st) + timeout env"
    using assms(3) unfed_run [OF ok(1) r] stuck_system_run [OF ok(1) r] by (auto split: if_splits)
  then show False using ok(2) r assms(4) by (simp add: timer_ok_def)
qed

lemma watchdog_resets_stuck_witness:
  "was_reset (wdt_run example_wdt (replicate 16 Tick) (wdt_run example_wdt one_round (started example_wdt)))"
  by (rule watchdog_resets_stuck)
    (simp_all add: example_wdt_def watchdog_init_and_start_def watchdog_enable_def watchdog_timeout_install_def watchdog_start_def
      watchdog_feed_enable_def ticks_def)

end
