(* ===== verification/MainLoop.thy ===== *)
theory MainLoop
  imports Errno Ui Mqtt
begin

text \<open>
  \<^verbatim>\<open>main.c\<close>: the start of the device and its main loop, which drive the MQTT client and the LED,
  with the interrupts and delayed works that run beside it: the buttons, the charger, the reboot work
  of the client and the power button.  What the libraries answer is part of the events.  The build is
  the one with the external GPS and without \<^verbatim>\<open>CONFIG_DEBUG\<close>, so every error ends in a restart.
  The work that samples and uploads is in the theory of the bulk upload.
\<close>

section \<open>The device\<close>

record 's device =
  ui :: ui_state
  mq :: "'s mqtt_state"
  env_work :: "nat option"
  long_press_work :: "nat option"
  power_off_work :: "nat option"

text \<open>What the device is built with: the JSON parser, the storage, its names, and floating-point operations.\<close>

record ('s, 'f) build =
  b_parse :: "bytes \<Rightarrow> cjson_doc option"
  b_nvs :: "'s nvs_ops"
  b_client_id :: bytes
  b_topic_buf :: bytes
  b_div1000 :: "u32 \<Rightarrow> 'f"
  b_below_3_3 :: "'f \<Rightarrow> bool"

text \<open>\<^verbatim>\<open>sys_reboot\<close> does not return; neither does cutting the power; \<^verbatim>\<open>main\<close> may return.\<close>

datatype 's outcome = Running "'s device" | Rebooted "'s device" | PoweredOff "'s device" | Stopped "'s device"

datatype error_type = ERROR_CLOUD | ERROR_BSD_RECOVERABLE | ERROR_LTE_LC | ERROR_SYSTEM_FAULT

definition disconnect :: "'s device \<Rightarrow> 's device" where
  "disconnect d = d\<lparr>mq := (mq d)\<lparr>calls := calls (mq d) @ [Disconnect]\<rparr>\<rparr>"

definition error_handler :: "error_type \<Rightarrow> 's device \<Rightarrow> 's outcome" where
  "error_handler err_type d = (if err_type = ERROR_CLOUD then Rebooted (disconnect d) else Rebooted d)"

definition bsd_recoverable_error_handler :: "'s device \<Rightarrow> 's outcome" where
  "bsd_recoverable_error_handler d = error_handler ERROR_BSD_RECOVERABLE d"

section \<open>Start\<close>

record startup =
  init_ecdsa :: int
  check_key :: int
  leds_bound :: bool
  chrq_pin :: bool
  lte_connect :: int
  bsdlib_ret :: int
  mqtt_connect :: int

definition MODEM_DFU_RESULTS :: "int list" where
  "MODEM_DFU_RESULTS = [0x5500001, 0x4400004, 0x4400003, 0x4400002, 0x4400001]"

text \<open>Whether the result of the modem library restarts the device: any result of a firmware update.\<close>

definition handle_bsdlib_init_ret :: "int \<Rightarrow> bool" where
  "handle_bsdlib_init_ret ret \<longleftrightarrow> ret \<in> set MODEM_DFU_RESULTS"

definition modem_configure :: "int \<Rightarrow> 's device \<Rightarrow> 's outcome option" where
  "modem_configure err d = do {
     u1 \<leftarrow> ui_led_deactive LTE_CONNECT_MASK True (ui d);
     let d1 = d\<lparr>ui := u1\<rparr>;
     if err \<noteq> 0 then Some (error_handler ERROR_LTE_LC d1)
     else do { u2 \<leftarrow> ui_led_active LTE_CONNECT_MASK True (ui d1); Some (Running (d1\<lparr>ui := u2\<rparr>)) }
   }"

definition work_init :: "'s device \<Rightarrow> 's device" where
  "work_init d = d\<lparr>env_work := None, long_press_work := None, power_off_work := None\<rparr>"

definition sensors_init :: "'s device \<Rightarrow> 's device" where
  "sensors_init d = d\<lparr>env_work := Some 10\<rparr>"

text \<open>\<^verbatim>\<open>iotex_hal_gpio_init\<close> looks at the charger twice.\<close>

definition iotex_hal_gpio_init :: "bool \<Rightarrow> 's device \<Rightarrow> 's device option" where
  "iotex_hal_gpio_init chrq d = do {
     u1 \<leftarrow> checkCHRQ chrq (ui d);
     u2 \<leftarrow> checkCHRQ chrq u1;
     Some (d\<lparr>ui := u2\<rparr>)
   }"

definition main_start :: "('s, 'f) build \<Rightarrow> startup \<Rightarrow> 's device \<Rightarrow> 's outcome option" where
  "main_start b s d =
    (if init_ecdsa s \<noteq> 0 then Some (Stopped d)
     else if check_key s \<noteq> 0 then Some (Stopped d)
     else do {
       d1 \<leftarrow> iotex_hal_gpio_init (chrq_pin s) d;
       (err, u2) \<leftarrow> ui_leds_init (leds_bound s) (ui d1);
       u3 \<leftarrow> updateLedPattern (chrq_pin s) u2;
       out \<leftarrow> modem_configure (lte_connect s) (work_init (d1\<lparr>ui := u3\<rparr>));
       (case out of
          Running d4 \<Rightarrow>
            if handle_bsdlib_init_ret (bsdlib_ret s) then Some (Rebooted d4)
            else (let (err, m) = iotex_mqtt_client_init (b_nvs b) (mqtt_connect s) (mq d4); d5 = d4\<lparr>mq := m\<rparr>
                  in Some (if err \<noteq> 0 then Rebooted d5 else Running (sensors_init d5)))
        | other \<Rightarrow> Some other)
     })"

section \<open>One pass of the main loop\<close>

record pass =
  p_poll :: int
  p_live :: int
  p_in :: bool
  p_err :: bool
  p_nval :: bool
  p_events :: "mqtt_evt list"
  p_input :: int
  p_random :: u32
  p_chrq :: bool
  p_vbat :: bytes

text \<open>\<^verbatim>\<open>mqtt_input\<close>: the handler for every event, then its result.\<close>

fun mqtt_events :: "('s, 'f) build \<Rightarrow> mqtt_evt list \<Rightarrow> 's mqtt_state \<Rightarrow> 's mqtt_state option" where
  "mqtt_events b [] m = Some m"
| "mqtt_events b (e # es) m = do {
     m' \<leftarrow> mqtt_evt_handler (b_parse b) (b_nvs b) (b_client_id b) (b_topic_buf b) e m;
     mqtt_events b es m'
   }"

text \<open>A successful \<^verbatim>\<open>mqtt_live\<close> is followed by a heart beat, readable data by \<^verbatim>\<open>mqtt_input\<close>.\<close>

definition main_live :: "('s, 'f) build \<Rightarrow> pass \<Rightarrow> 's device \<Rightarrow> 's device option" where
  "main_live b p d =
    (if p_live p = 0 then do {
       beat \<leftarrow> iotex_mqtt_heart_beat (b_client_id b) (b_topic_buf b) (p_random p) 0;
       Some (d\<lparr>mq := (mq d)\<lparr>calls := calls (mq d) @ [beat]\<rparr>\<rparr>)
     } else Some d)"

definition main_input :: "('s, 'f) build \<Rightarrow> pass \<Rightarrow> 's device \<Rightarrow> 's device option" where
  "main_input b p d =
    (if p_in p then do { m \<leftarrow> mqtt_events b (p_events p) (mq d); Some (d\<lparr>mq := m\<rparr>) } else Some d)"

definition main_pass :: "('s, 'f) build \<Rightarrow> pass \<Rightarrow> 's device \<Rightarrow> 's outcome option" where
  "main_pass b p d =
    (if p_poll p < 0 then Some (error_handler ERROR_CLOUD d)
     else if p_live p \<noteq> 0 \<and> p_live p \<noteq> - EAGAIN then Some (error_handler ERROR_CLOUD d)
     else do {
       d1 \<leftarrow> main_live b p d;
       d2 \<leftarrow> main_input b p d1;
       if p_in p \<and> p_input p \<noteq> 0 \<or> p_err p \<or> p_nval p then Some (error_handler ERROR_CLOUD d2)
       else do {
         u \<leftarrow> updateLedPattern (p_chrq p) (ui d2);
         low_power \<leftarrow> CheckPower (b_div1000 b) (b_below_3_3 b) (p_vbat p);
         Some (if low_power then PoweredOff (d2\<lparr>ui := ui_leds_stop u\<rparr>) else Running (d2\<lparr>ui := u\<rparr>))
       }
     })"

section \<open>Buttons and delayed works\<close>

definition UI_BUTTON_1 :: u8 where "UI_BUTTON_1 = 1"

fun ui_evt_handler :: "ui_evt \<Rightarrow> 's device \<Rightarrow> 's device" where
  "ui_evt_handler (UI_EVT_BUTTON_ACTIVE button) d =
    (if button = UI_BUTTON_1 then d\<lparr>long_press_work := Some 2, power_off_work := Some 5\<rparr> else d)"
| "ui_evt_handler (UI_EVT_BUTTON_INACTIVE button) d =
    (if button = UI_BUTTON_1 then d\<lparr>long_press_work := None, power_off_work := None\<rparr> else d)"

text \<open>With the external GPS a long press only looks whether the link is ready.\<close>

definition long_press_handler :: "'s device \<Rightarrow> 's device" where
  "long_press_handler d = d"

definition power_off_handler :: "'s device \<Rightarrow> 's outcome" where
  "power_off_handler d = PoweredOff d"

definition RestartEnvWork :: "nat \<Rightarrow> 's device \<Rightarrow> 's device" where
  "RestartEnvWork s d = d\<lparr>env_work := Some s\<rparr>"

text \<open>A second of a delayed work: whether it runs now, and what is left.\<close>

fun count_down :: "nat option \<Rightarrow> bool \<times> nat option" where
  "count_down None = (False, None)"
| "count_down (Some n) = (if n \<le> 1 then (True, None) else (False, Some (n - 1)))"

definition second_passes :: "'s device \<Rightarrow> 's outcome" where
  "second_passes d =
    (let (long, l) = count_down (long_press_work d); (off, p) = count_down (power_off_work d);
         d1 = d\<lparr>long_press_work := l, power_off_work := p\<rparr>;
         d2 = (if long then long_press_handler d1 else d1)
     in if off then power_off_handler d2
        else if reboot_work (mq d2) then
          (let (r, m) = cloud_reboot_work_fn (mq d2); d3 = d2\<lparr>mq := m\<rparr> in if r then Rebooted d3 else Running d3)
        else Running d2)"

text \<open>Everything that happens to a device: a pass, a change of the buttons, of the charger, a reading of the GPS, a second.\<close>

datatype event = Pass pass | Buttons u32 u32 | ChargerPin bool | GpsRead bool | Second

fun device_step :: "('s, 'f) build \<Rightarrow> event \<Rightarrow> 's device \<Rightarrow> 's outcome option" where
  "device_step b (Pass p) d = main_pass b p d"
| "device_step b (Buttons states changed) d = do {
     evts \<leftarrow> button_handler 32 states changed;
     Some (Running (fold ui_evt_handler evts d))
   }"
| "device_step b (ChargerPin pin) d = do { u \<leftarrow> checkCHRQ pin (ui d); Some (Running (d\<lparr>ui := u\<rparr>)) }"
| "device_step b (GpsRead got) d = do {
     u \<leftarrow> (if got then ui_led_active GPS_ACTIVE_MASK False (ui d) else ui_led_deactive GPS_ACTIVE_MASK False (ui d));
     Some (Running (d\<lparr>ui := u\<rparr>))
   }"
| "device_step b Second d = Some (second_passes d)"

section \<open>The states of a running device\<close>

definition power_on :: "iotex_mqtt_config \<Rightarrow> 's \<Rightarrow> 's device" where
  "power_on c0 s0 = \<lparr>ui = \<lparr>leds = \<lparr>color = [0, 0, 0], effect = None, effect_step = 0, effect_substep = 0\<rparr>,
       effects = effect_table, custom_effect = breathe_normal LED_NOCOLOR, patternIndex = 0, pwm = [255, 255, 255], work = None\<rparr>,
     mq = boot c0 s0, env_work = None, long_press_work = None, power_off_work = None\<rparr>"

inductive device_reach for b s c0 s0 where
  started: "main_start b s (power_on c0 s0) = Some (Running d) \<Longrightarrow> device_reach b s c0 s0 [] d"
| happens: "\<lbrakk>device_reach b s c0 s0 es d; device_step b e d = Some (Running d')\<rbrakk> \<Longrightarrow> device_reach b s c0 s0 (es @ [e]) d'"

inductive_cases reach_startE: "device_reach b s c0 s0 [] d"

text \<open>What the events say of GPS, charger and network, and for how many seconds the button has been held.\<close>

fun event_flags :: "event \<Rightarrow> bool \<times> bool \<times> bool \<Rightarrow> bool \<times> bool \<times> bool" where
  "event_flags (Pass p) (g, c, l) = (g, \<not> p_chrq p, l)"
| "event_flags (ChargerPin pin) (g, c, l) = (g, \<not> pin, l)"
| "event_flags (GpsRead got) (g, c, l) = (got, c, l)"
| "event_flags _ f = f"

fun held_step :: "event \<Rightarrow> nat option \<Rightarrow> nat option" where
  "held_step (Buttons states changed) h = (if bit changed 0 then if bit states 0 then Some 0 else None else h)"
| "held_step Second h = map_option Suc h"
| "held_step _ h = h"

definition held :: "event list \<Rightarrow> nat option" where
  "held es = fold held_step es None"

text \<open>The parts of the invariant: the LED, the client, and the work of the power button.\<close>

definition ui_inv :: "startup \<Rightarrow> event list \<Rightarrow> 's device \<Rightarrow> bool" where
  "ui_inv s es d \<longleftrightarrow> ui_ok (ui d) \<and> flags (ui d) = fold event_flags es (False, \<not> chrq_pin s, True)"

definition mq_inv :: "('s, 'f) build \<Rightarrow> iotex_mqtt_config \<Rightarrow> 's device \<Rightarrow> bool" where
  "mq_inv b c0 d \<longleftrightarrow> flags_agree (mq d) \<and> cfg_durable (b_nvs b) c0 (mq d)"

definition power_inv :: "event list \<Rightarrow> 's device \<Rightarrow> bool" where
  "power_inv es d \<longleftrightarrow> power_off_work d = map_option (\<lambda>n. 5 - n) (held es) \<and> (\<forall>n. held es = Some n \<longrightarrow> n < 5)"

lemma mq_inv_call [simp]:
  "mq_inv b c0 (d\<lparr>mq := (mq d)\<lparr>calls := cs\<rparr>\<rparr>) = mq_inv b c0 d"
  "mq_inv b c0 (d\<lparr>ui := u\<rparr>) = mq_inv b c0 d"
  by (simp_all add: mq_inv_def flags_agree_def cfg_durable_def)

lemma mqtt_events_inv:
  assumes "nvs_spec (b_nvs b) hist cap" "\<And>c s. fst (save_mqtt_config (b_nvs b) c s)"
  shows "mqtt_events b es m = Some m' \<Longrightarrow> flags_agree m \<Longrightarrow> cfg_durable (b_nvs b) c0 m \<Longrightarrow>
    flags_agree m' \<and> cfg_durable (b_nvs b) c0 m'"
proof (induction es arbitrary: m)
  case (Cons e es)
  then obtain m1 where "mqtt_evt_handler (b_parse b) (b_nvs b) (b_client_id b) (b_topic_buf b) e m = Some m1" "mqtt_events b es m1 = Some m'"
    by (auto split: bind_splits)
  then show ?case using Cons handler_flags handler_durable [OF assms] by blast
qed simp

text \<open>What a pass of the main loop needs to go on.\<close>

definition healthy :: "pass \<Rightarrow> bool" where
  "healthy p \<longleftrightarrow> 0 \<le> p_poll p \<and> (p_live p = 0 \<or> p_live p = - EAGAIN) \<and> (p_in p \<longrightarrow> p_input p = 0) \<and> \<not> p_err p \<and> \<not> p_nval p"

lemma main_pass_cases:
  assumes "main_pass b p d = Some out" "ui_ok (ui d)"
  obtains (unhealthy) d' where "\<not> healthy p" "out = Rebooted d'"
  | (passed) m u low where "healthy p" "updateLedPattern (p_chrq p) (ui d) = Some u" "ui_ok u"
      "flags u = flags_after (Refresh (p_chrq p)) (flags (ui d))"
      "m = mq d \<or> (\<exists>cs. m = (mq d)\<lparr>calls := cs\<rparr>) \<or> (\<exists>cs. mqtt_events b (p_events p) ((mq d)\<lparr>calls := cs\<rparr>) = Some m)"
      "CheckPower (b_div1000 b) (b_below_3_3 b) (p_vbat p) = Some low"
      "out = (if low then PoweredOff (d\<lparr>ui := ui_leds_stop u, mq := m\<rparr>) else Running (d\<lparr>ui := u, mq := m\<rparr>))"
proof -
  obtain u where u: "updateLedPattern (p_chrq p) (ui d) = Some u" "ui_ok u" "flags u = flags_after (Refresh (p_chrq p)) (flags (ui d))"
    using updateLedPattern_ok [OF assms(2)] by blast
  show thesis
  proof (cases "p_poll p < 0 \<or> p_live p \<noteq> 0 \<and> p_live p \<noteq> - EAGAIN")
    case True
    then show ?thesis using assms(1) unhealthy by (auto simp: main_pass_def error_handler_def healthy_def split: if_splits)
  next
    case False
    then have "do { d1 \<leftarrow> main_live b p d; d2 \<leftarrow> main_input b p d1;
       if p_in p \<and> p_input p \<noteq> 0 \<or> p_err p \<or> p_nval p then Some (error_handler ERROR_CLOUD d2)
       else do {
         u \<leftarrow> updateLedPattern (p_chrq p) (ui d2);
         low_power \<leftarrow> CheckPower (b_div1000 b) (b_below_3_3 b) (p_vbat p);
         Some (if low_power then PoweredOff (d2\<lparr>ui := ui_leds_stop u\<rparr>) else Running (d2\<lparr>ui := u\<rparr>))
       } } = Some out"
      using assms(1) by (auto simp: main_pass_def)
    then obtain d1 d2 where d1: "main_live b p d = Some d1" and d2: "main_input b p d1 = Some d2"
      and out: "(if p_in p \<and> p_input p \<noteq> 0 \<or> p_err p \<or> p_nval p then Some (error_handler ERROR_CLOUD d2)
         else do {
           u \<leftarrow> updateLedPattern (p_chrq p) (ui d2);
           low_power \<leftarrow> CheckPower (b_div1000 b) (b_below_3_3 b) (p_vbat p);
           Some (if low_power then PoweredOff (d2\<lparr>ui := ui_leds_stop u\<rparr>) else Running (d2\<lparr>ui := u\<rparr>))
         }) = Some out"
      unfolding bind_eq_Some_conv by blast
    have 1: "d1 = d\<lparr>mq := mq d1\<rparr> \<and> (mq d1 = mq d \<or> (\<exists>cs. mq d1 = (mq d)\<lparr>calls := cs\<rparr>))"
      using d1 by (auto simp: main_live_def split: if_splits bind_splits)
    have 2: "d2 = d1\<lparr>mq := mq d2\<rparr> \<and> (mq d2 = mq d1 \<or> mqtt_events b (p_events p) (mq d1) = Some (mq d2))"
      using d2 by (auto simp: main_input_def split: if_splits bind_splits)
    have eq: "d2 = d\<lparr>mq := mq d2\<rparr>" using 1 2 by (metis device.update_convs(2) device.surjective)
    have same: "mq d = (mq d)\<lparr>calls := calls (mq d)\<rparr>" by simp
    have m: "mq d2 = mq d \<or> (\<exists>cs. mq d2 = (mq d)\<lparr>calls := cs\<rparr>) \<or> (\<exists>cs. mqtt_events b (p_events p) ((mq d)\<lparr>calls := cs\<rparr>) = Some (mq d2))"
      using 1 2 same by metis
    show ?thesis
    proof (cases "healthy p")
      case True
      then have "\<not> (p_in p \<and> p_input p \<noteq> 0 \<or> p_err p \<or> p_nval p)" by (auto simp: healthy_def)
      moreover have "ui d2 = ui d" by (subst eq) simp
      ultimately obtain low where "CheckPower (b_div1000 b) (b_below_3_3 b) (p_vbat p) = Some low"
        "out = (if low then PoweredOff (d2\<lparr>ui := ui_leds_stop u\<rparr>) else Running (d2\<lparr>ui := u\<rparr>))"
        using out u(1) by (auto split: bind_splits)
      moreover have "d2\<lparr>ui := x\<rparr> = d\<lparr>ui := x, mq := mq d2\<rparr>" for x by (subst eq) simp
      ultimately show ?thesis using passed [OF True u m] by simp
    next
      case F: False
      then have "p_in p \<and> p_input p \<noteq> 0 \<or> p_err p \<or> p_nval p" using False by (auto simp: healthy_def)
      then show ?thesis using out unhealthy F by (auto simp: error_handler_def)
    qed
  qed
qed

text \<open>The start: with the LED calls all going through, it runs on unless a result stops it.\<close>

lemma ui_leds_init_ok:
  assumes "ui_ok s"
  shows "\<exists>err u. ui_leds_init bound s = Some (err, u) \<and> ui_ok u \<and> flags u = flags s"
  using ui_led_set_effect_ok [of s UI_LTE_DISCONNECTED] assms
  by (auto simp: ui_leds_init_def Let_def ui_ok_def flags_def ui_led_set_effect_def)

lemma iotex_hal_gpio_init_ok:
  assumes "ui_ok (ui d)"
  shows "\<exists>u. iotex_hal_gpio_init chrq d = Some (d\<lparr>ui := u\<rparr>) \<and> ui_ok u \<and> flags u = flags_after (Chrq chrq) (flags (ui d))"
proof -
  obtain u1 where 1: "checkCHRQ chrq (ui d) = Some u1" "ui_ok u1" "flags u1 = flags_after (Chrq chrq) (flags (ui d))"
    using checkCHRQ_ok [OF assms] by blast
  obtain u2 where 2: "checkCHRQ chrq u1 = Some u2" "ui_ok u2" "flags u2 = flags_after (Chrq chrq) (flags u1)"
    using checkCHRQ_ok [OF 1(2)] by blast
  show ?thesis using 1 2 by (cases "flags (ui d)") (auto simp: iotex_hal_gpio_init_def intro!: exI [of _ u2])
qed

lemma modem_configure_ok:
  assumes "ui_ok (ui d)"
  shows "\<exists>u. modem_configure err d = Some (if err = 0 then Running (d\<lparr>ui := u\<rparr>) else Rebooted (d\<lparr>ui := u\<rparr>)) \<and>
    (err = 0 \<longrightarrow> ui_ok u \<and> flags u = flags_after (Lte True True) (flags (ui d)))"
proof -
  obtain u1 where 1: "ui_led_deactive LTE_CONNECT_MASK True (ui d) = Some u1" "ui_ok u1" "flags u1 = flags_after (Lte False True) (flags (ui d))"
    using ui_call_ok [OF assms, of "Lte False True"] by auto
  obtain u2 where 2: "ui_led_active LTE_CONNECT_MASK True u1 = Some u2" "ui_ok u2" "flags u2 = flags_after (Lte True True) (flags u1)"
    using ui_call_ok [OF 1(2), of "Lte True True"] by auto
  show ?thesis
  proof (cases "err = 0")
    case True
    then show ?thesis using 1 2 by (cases "flags (ui d)") (auto simp: modem_configure_def)
  next
    case False
    then show ?thesis using 1 by (auto simp: modem_configure_def error_handler_def)
  qed
qed

text \<open>What the start comes to.\<close>

definition starts :: "startup \<Rightarrow> bool" where
  "starts s \<longleftrightarrow> init_ecdsa s = 0 \<and> check_key s = 0 \<and> lte_connect s = 0 \<and> bsdlib_ret s \<notin> set MODEM_DFU_RESULTS \<and> mqtt_connect s = 0"

lemma main_start_cases:
  obtains (stopped) "init_ecdsa s \<noteq> 0 \<or> check_key s \<noteq> 0" "main_start b s (power_on c0 s0) = Some (Stopped (power_on c0 s0))"
  | (rebooted) d where "init_ecdsa s = 0" "check_key s = 0" "\<not> starts s" "main_start b s (power_on c0 s0) = Some (Rebooted d)"
  | (running) u where "starts s" "ui_ok u" "flags u = (False, \<not> chrq_pin s, True)"
      "main_start b s (power_on c0 s0) = Some (Running (sensors_init ((power_on c0 s0)
        \<lparr>ui := u, mq := snd (iotex_mqtt_client_init (b_nvs b) 0 (boot c0 s0))\<rparr>)))"
proof -
  let ?d = "power_on c0 s0"
  have ok0: "ui_ok (ui ?d)" "flags (ui ?d) = (False, False, False)" by (simp_all add: power_on_def ui_ok_def flags_def)
  obtain u1 where 1: "iotex_hal_gpio_init (chrq_pin s) ?d = Some (?d\<lparr>ui := u1\<rparr>)" "ui_ok u1" "flags u1 = (False, \<not> chrq_pin s, False)"
    using iotex_hal_gpio_init_ok [OF ok0(1), of "chrq_pin s"] ok0(2) by auto
  obtain err u2 where 2: "ui_leds_init (leds_bound s) u1 = Some (err, u2)" "ui_ok u2" "flags u2 = flags u1"
    using ui_leds_init_ok [OF 1(2)] by blast
  obtain u3 where 3: "updateLedPattern (chrq_pin s) u2 = Some u3" "ui_ok u3" "flags u3 = (False, \<not> chrq_pin s, False)"
    using updateLedPattern_ok [OF 2(2), of "chrq_pin s"] 1(3) 2(3) by auto
  let ?d3 = "work_init (?d\<lparr>ui := u3\<rparr>)"
  have ui3: "ui ?d3 = u3" by (simp add: work_init_def)
  obtain u4 where 4: "modem_configure (lte_connect s) ?d3 = Some (if lte_connect s = 0 then Running (?d3\<lparr>ui := u4\<rparr>) else Rebooted (?d3\<lparr>ui := u4\<rparr>))"
    "lte_connect s = 0 \<longrightarrow> ui_ok u4 \<and> flags u4 = (False, \<not> chrq_pin s, True)"
    using modem_configure_ok [of ?d3 "lte_connect s"] 3(2,3) unfolding ui3 by auto
  have d4: "?d3\<lparr>ui := u4\<rparr> = ?d\<lparr>ui := u4\<rparr>" "mq (?d\<lparr>ui := u4\<rparr>) = boot c0 s0" by (simp_all add: work_init_def power_on_def)
  have m0: "modem_configure 0 ?d3 = Some (Running (?d\<lparr>ui := u4\<rparr>))" if "lte_connect s = 0" using 4(1) that d4(1) by simp
  note run = main_start_def 1(1) 2(1) 3(1) d4(2) Let_def iotex_mqtt_client_init_def handle_bsdlib_init_ret_def
  show thesis
  proof (cases "init_ecdsa s \<noteq> 0 \<or> check_key s \<noteq> 0")
    case True
    then show ?thesis by (intro stopped) (auto simp: main_start_def)
  next
    case F: False
    show ?thesis
    proof (cases "starts s")
      case True
      then show ?thesis using 4(2) m0 by (intro running [of u4]) (auto simp: run starts_def)
    next
      case False
      then have "\<exists>d. main_start b s ?d = Some (Rebooted d)" using F m0 4(1)
        by (cases "lte_connect s = 0") (auto simp: run starts_def)
      then show ?thesis using rebooted F False by blast
    qed
  qed
qed

lemma start_inv:
  assumes "main_start b s (power_on c0 s0) = Some (Running d)"
  shows "ui_inv s [] d" "mq_inv b c0 d" "power_inv [] d" "starts s"
  using assms
  by (cases rule: main_start_cases [of s b c0 s0];
      simp add: ui_inv_def mq_inv_def power_inv_def held_def sensors_init_def flags_agree_def cfg_durable_def
        iotex_mqtt_client_init_def boot_def CLOUD_CONNACK_WAIT_DURATION_def power_on_def)+

text \<open>Only the first button matters to the power.\<close>

lemma fold_button_evts:
  assumes "set is \<subseteq> {..<32}"
  shows "power_off_work (fold ui_evt_handler (map (button_evt states) is) d) =
      (if 0 \<in> set is then if bit states 0 then Some 5 else None else power_off_work d) \<and>
    ui (fold ui_evt_handler (map (button_evt states) is) d) = ui d \<and>
    mq (fold ui_evt_handler (map (button_evt states) is) d) = mq d"
  using assms
proof (induction "is" arbitrary: d)
  case (Cons i "is")
  have one: "(of_nat (i + 1) :: u8) = UI_BUTTON_1 \<longleftrightarrow> i = 0"
    using of_nat_eq_iff_bounded [of "i + 1" 1, where 'a = 8] Cons.prems by (simp add: UI_BUTTON_1_def)
  show ?case using Cons.IH [of "ui_evt_handler (button_evt states i) d"] Cons.prems one
    by (auto simp: button_evt_def)
qed simp

lemma buttons_step:
  assumes "device_step b (Buttons states changed) d = Some out"
  obtains d' where "out = Running d'" "ui d' = ui d" "mq d' = mq d"
    "power_off_work d' = (if bit changed 0 then if bit states 0 then Some 5 else None else power_off_work d)"
proof -
  have "button_handler 32 states changed = Some (map (button_evt states) (set_bits_of changed))"
    by (intro button_handler_bits) (simp add: set_bits_of_def length_filter_le [THEN order_trans])
  then have "out = Running (fold ui_evt_handler (map (button_evt states) (set_bits_of changed)) d)" using assms by simp
  moreover have "set (set_bits_of changed) \<subseteq> {..<32}" "0 \<in> set (set_bits_of changed) \<longleftrightarrow> bit changed 0"
    by (auto simp: set_bits_of_def)
  ultimately show thesis using that fold_button_evts [of "set_bits_of changed" states d] by auto
qed

lemma held_snoc: "held (es @ [e]) = held_step e (held es)"
  by (simp add: held_def)

text \<open>The seconds: the power button first, then the reboot work.\<close>

lemma second_cases:
  assumes "power_inv es d" "mq_inv b c0 d"
  obtains (off) d' where "held es = Some 4" "second_passes d = PoweredOff d'"
  | (reboot) d' where "held es \<noteq> Some 4" "reboot_work (mq d)" "reboot_cnt (mq d) = 29" "second_passes d = Rebooted d'"
  | (on) d' where "held es \<noteq> Some 4" "\<not> (reboot_work (mq d) \<and> reboot_cnt (mq d) = 29)" "second_passes d = Running d'"
      "ui d' = ui d" "mq_inv b c0 d'" "power_inv (es @ [Second]) d'"
proof -
  have p: "power_off_work d = map_option (\<lambda>n. 5 - n) (held es)" "\<And>n. held es = Some n \<Longrightarrow> n < 5"
    using assms(1) by (auto simp: power_inv_def)
  have c: "count_down (power_off_work d) = (held es = Some 4, if held es = Some 4 then None else map_option (\<lambda>n. 4 - n) (held es))"
  proof (cases "held es")
    case (Some n)
    then have "n < 5" using p(2) by blast
    then show ?thesis using Some p(1) by auto
  qed (simp add: p(1))
  obtain long l where l: "count_down (long_press_work d) = (long, l)" by (rule prod.exhaust)
  show thesis
  proof (cases "held es = Some 4")
    case True
    then show ?thesis using off c l by (simp add: second_passes_def power_off_handler_def Let_def)
  next
    case False
    let ?d2 = "d\<lparr>long_press_work := l, power_off_work := map_option (\<lambda>n. 4 - n) (held es)\<rparr>"
    have s: "second_passes d = (if reboot_work (mq d) then
          (let (r, m) = cloud_reboot_work_fn (mq d); d3 = ?d2\<lparr>mq := m\<rparr> in if r then Rebooted d3 else Running d3)
        else Running ?d2)"
      using False c l by (cases "cloud_reboot_work_fn (mq d)") (simp add: second_passes_def long_press_handler_def Let_def)
    have inv: "power_inv (es @ [Second]) d'" if "power_off_work d' = map_option (\<lambda>n. 4 - n) (held es)" for d' :: "'a device"
      using that False p(2) by (cases "held es") (auto simp: power_inv_def held_snoc less_Suc_eq dest!: meta_spec)
    have m: "reboot_cnt (mq d) < 30" "flags_agree (mq d)" "cfg_durable (b_nvs b) c0 (mq d)"
      using assms(2) by (auto simp: mq_inv_def flags_agree_def CLOUD_CONNACK_WAIT_DURATION_def)
    have cnt: "(30 \<le> reboot_cnt (mq d) + 1) = (reboot_cnt (mq d) = 29)"
      using m(1) by (auto simp: word_le_nat_alt word_less_nat_alt word_unat_eq_iff unat_word_ariths)
    show ?thesis
    proof (cases "reboot_work (mq d)")
      case True
      show ?thesis
      proof (cases "reboot_cnt (mq d) = 29")
        case r: True
        then show ?thesis using reboot False True s by (simp add: cloud_reboot_work_fn_def Let_def CLOUD_CONNACK_WAIT_DURATION_def)
      next
        case r: False
        let ?m = "(mq d)\<lparr>reboot_cnt := reboot_cnt (mq d) + 1, reboot_work := True\<rparr>"
        have "cloud_reboot_work_fn (mq d) = (False, ?m)"
          using cnt r by (simp add: cloud_reboot_work_fn_def Let_def CLOUD_CONNACK_WAIT_DURATION_def)
        then have s': "second_passes d = Running (?d2\<lparr>mq := ?m\<rparr>)" using s True by simp
        have "mq_inv b c0 (?d2\<lparr>mq := ?m\<rparr>)" using m True cnt r
          by (auto simp: mq_inv_def flags_agree_def cfg_durable_def CLOUD_CONNACK_WAIT_DURATION_def not_le)
        then show ?thesis by (intro on [OF False _ s']) (auto simp: r intro!: inv)
      qed
    next
      case nr: False
      have "mq_inv b c0 ?d2" using m by (simp add: mq_inv_def)
      then show ?thesis using s nr by (intro on [OF False, of ?d2]) (auto intro!: inv)
    qed
  qed
qed

lemma step_inv:
  assumes "nvs_spec (b_nvs b) hist cap" "\<And>c s. fst (save_mqtt_config (b_nvs b) c s)"
    and "ui_inv s es d" "mq_inv b c0 d" "power_inv es d" "device_step b e d = Some (Running d')"
  shows "ui_inv s (es @ [e]) d' \<and> mq_inv b c0 d' \<and> power_inv (es @ [e]) d'"
proof (cases e)
  case (Pass p)
  have "main_pass b p d = Some (Running d')" "ui_ok (ui d)" using assms(3,6) Pass by (simp_all add: ui_inv_def)
  then show ?thesis
  proof (cases rule: main_pass_cases)
    case (passed m u low)
    have d': "d' = d\<lparr>ui := u, mq := m\<rparr>" using passed(7) by (simp split: if_splits)
    have "mq_inv b c0 d'" using passed(5) assms(4) mqtt_events_inv [OF assms(1,2)]
      unfolding d' by (auto simp: mq_inv_def flags_agree_def cfg_durable_def)
    moreover have "flags u = event_flags e (flags (ui d))" using passed(4) Pass by (cases "flags (ui d)") simp
    ultimately show ?thesis using passed(3) assms(3,5) Pass
      by (simp add: d' ui_inv_def power_inv_def held_snoc)
  qed simp
next
  case (Buttons states changed)
  then obtain "ui d' = ui d" "mq d' = mq d"
    "power_off_work d' = (if bit changed 0 then if bit states 0 then Some 5 else None else power_off_work d)"
    using buttons_step [of b states changed d "Running d'"] assms(6) by auto
  then show ?thesis using assms(3-5) Buttons by (auto simp: ui_inv_def mq_inv_def power_inv_def held_snoc)
next
  case (ChargerPin pin)
  obtain u where "checkCHRQ pin (ui d) = Some u" "ui_ok u" "flags u = flags_after (Chrq pin) (flags (ui d))"
    using checkCHRQ_ok [of "ui d" pin] assms(3) by (auto simp: ui_inv_def)
  moreover have "flags_after (Chrq pin) (flags (ui d)) = event_flags e (flags (ui d))" using ChargerPin by (cases "flags (ui d)") simp
  ultimately show ?thesis using assms(3-6) ChargerPin by (auto simp: ui_inv_def power_inv_def held_snoc)
next
  case (GpsRead got)
  obtain u where "ui_call (Gps got) (ui d) = Some u" "ui_ok u" "flags u = flags_after (Gps got) (flags (ui d))"
    using ui_call_ok [of "ui d" "Gps got"] assms(3) by (auto simp: ui_inv_def)
  moreover have "flags_after (Gps got) (flags (ui d)) = event_flags e (flags (ui d))" using GpsRead by (cases "flags (ui d)") simp
  ultimately show ?thesis using assms(3-6) GpsRead by (auto simp: ui_inv_def power_inv_def held_snoc)
next
  case Second
  have "second_passes d = Running d'" using assms(6) Second by simp
  then show ?thesis
    by (cases rule: second_cases [OF assms(5,4)]) (use assms(3) Second in \<open>auto simp: ui_inv_def\<close>)
qed

lemma reach_inv:
  assumes "nvs_spec (b_nvs b) hist cap" "\<And>c s. fst (save_mqtt_config (b_nvs b) c s)" "device_reach b s c0 s0 es d"
  shows "ui_inv s es d \<and> mq_inv b c0 d \<and> power_inv es d"
  using assms(3)
proof (induction rule: device_reach.induct)
  case (started d)
  then show ?case by (simp add: start_inv)
next
  case (happens es d e d')
  then show ?case using step_inv [OF assms(1,2)] by blast
qed


text \<open>A device that starts.\<close>

definition example_build :: "(nat \<Rightarrow> bytes list, u32) build" where
  "example_build = \<lparr>b_parse = \<lambda>_. None, b_nvs = ref_nvs, b_client_id = asc ''n'' @ [0], b_topic_buf = replicate 50 0,
     b_div1000 = id, b_below_3_3 = (\<lambda>v. v < 3300)\<rparr>"

definition example_startup :: startup where
  "example_startup = \<lparr>init_ecdsa = 0, check_key = 0, leds_bound = True, chrq_pin = True, lte_connect = 0, bsdlib_ret = 0,
     mqtt_connect = 0\<rparr>"

lemma example_starts: "\<exists>d. main_start example_build example_startup (power_on (initial_config 1 5) (\<lambda>i. [])) = Some (Running d)"
  by (cases rule: main_start_cases [of example_startup example_build "initial_config 1 5" "\<lambda>i. []"])
    (auto simp: example_startup_def starts_def MODEM_DFU_RESULTS_def)



definition broken_pass :: pass where
  "broken_pass = \<lparr>p_poll = -1, p_live = 0, p_in = False, p_err = False, p_nval = False, p_events = [], p_input = 0, p_random = 0,
     p_chrq = True, p_vbat = []\<rparr>"


end
