(* ===== verification/Download.thy ===== *)
theory Download
  imports CFormat Errno Endian JsonParse
begin

text \<open>
  The download client of the firmware update (\<^verbatim>\<open>src/nrf/subsys/net/lib/download_client/src\<close>):
  \<^verbatim>\<open>parse.c\<close>, \<^verbatim>\<open>http.c\<close> and \<^verbatim>\<open>download_client.c\<close>, built without CoAP.  A connection is a
  descriptor and what the peer has sent and \<^verbatim>\<open>recv\<close> has not delivered yet; the results of the socket
  calls of one step are a record.  The thread is a step function between its blocking calls.  The
  theorems of this theory are those of the locale \<open>download_user\<close>: what an application gets that keeps
  the fragments it accepts.

  A \<^verbatim>\<open>const char *\<close> to a constant text is the text without its NUL.
\<close>

section \<open>Addresses (\<^verbatim>\<open>parse.c\<close>)\<close>

datatype ip_proto = IPPROTO_TCP | IPPROTO_UDP | IPPROTO_TLS_1_2 | IPPROTO_DTLS_1_2
datatype sock_type = SOCK_STREAM | SOCK_DGRAM

definition strstr_from :: "bytes \<Rightarrow> nat \<Rightarrow> bytes \<Rightarrow> nat option" where
  "strstr_from t p pat = strstr_at (drop p t) pat p"

definition strchr_from :: "bytes \<Rightarrow> nat \<Rightarrow> u8 \<Rightarrow> nat option" where
  "strchr_from t p c = map_option ((+) p) (find_char c (drop p t))"

definition swallow :: "bytes \<Rightarrow> nat \<Rightarrow> bytes \<Rightarrow> nat option" where
  "swallow str cur pat = map_option (\<lambda>p. p + length pat) (strstr_from str cur pat)"

definition url_parse_proto :: "bytes \<Rightarrow> (ip_proto \<times> sock_type) option" where
  "url_parse_proto url =
    (if take 5 url = asc ''https'' then Some (IPPROTO_TLS_1_2, SOCK_STREAM)
     else if take 4 url = asc ''http'' then Some (IPPROTO_TCP, SOCK_STREAM)
     else if take 5 url = asc ''coaps'' then Some (IPPROTO_DTLS_1_2, SOCK_DGRAM)
     else if take 4 url = asc ''coap'' then Some (IPPROTO_UDP, SOCK_DGRAM)
     else None)"

definition url_parse_host :: "bytes \<Rightarrow> nat \<Rightarrow> int \<times> bytes" where
  "url_parse_host url len =
    (let cur = (case swallow url 0 (asc ''://'') of Some c \<Rightarrow> c | None \<Rightarrow> 0);
         endp = (case strchr_from url cur (ch CHR '':'') of
           Some e \<Rightarrow> e
         | None \<Rightarrow> (case strchr_from url cur (ch CHR ''/'') of Some e \<Rightarrow> e | None \<Rightarrow> length url + 1))
     in if endp - cur + 1 > len then (- E2BIG, [])
        else (0, cstr (take (endp - cur) (drop cur (url @ [0])) @ [0])))"

text \<open>\<^verbatim>\<open>MAX\<close> is the source's: at least seven bytes are copied, also from behind the text.\<close>

definition url_parse_port :: "bytes \<Rightarrow> (int \<times> u16) option" where
  "url_parse_port url =
    (let cur = (case swallow url 0 (asc ''://'') of Some c \<Rightarrow> c | None \<Rightarrow> 0)
     in case swallow url cur (asc '':'') of
       None \<Rightarrow> Some (- EINVAL, 0)
     | Some c \<Rightarrow>
         let len = (case strchr_from url c (ch CHR ''/'') of Some e \<Rightarrow> e - c | None \<Rightarrow> length url - c);
             len = max len (8 - 1)
         in do {
           src \<leftarrow> rd_bytes (url @ [0]) c len;
           aport \<leftarrow> wr_bytes (replicate 8 0) 0 src;
           aport \<leftarrow> wr aport len 0;
           n \<leftarrow> c_atoi (cstr aport @ [0]);
           Some (0, ucast n)
         })"

definition url_parse_file :: "bytes \<Rightarrow> nat \<Rightarrow> int \<times> bytes" where
  "url_parse_file url len =
    (let start =
       (if strstr_at url (asc ''//'') 0 \<noteq> None then
          (case swallow url 0 (asc ''://'') of
            None \<Rightarrow> None
          | Some c \<Rightarrow> swallow url c (asc ''/''))
        else Some 0)
     in case start of
       None \<Rightarrow> (- EINVAL, [])
     | Some cur \<Rightarrow> if length url - cur + 1 > len then (- E2BIG, []) else (0, drop cur url))"

section \<open>The client (\<^verbatim>\<open>download_client.h\<close>)\<close>

record download_client_cfg =
  sec_tag :: int
  apn :: "bytes option"
  frag_size_override :: u32

record download_client =
  dl_fd :: int
  dl_inflight :: bytes
  dl_buf :: bytes
  dl_offset :: u32
  dl_file_size :: u32
  dl_progress :: u32
  dl_host :: bytes
  dl_file :: bytes
  dl_config :: download_client_cfg
  dl_proto :: ip_proto
  dl_has_header :: bool
  dl_connection_close :: bool

datatype download_client_evt =
    DOWNLOAD_CLIENT_EVT_FRAGMENT bytes nat
  | DOWNLOAD_CLIENT_EVT_ERROR int
  | DOWNLOAD_CLIENT_EVT_DONE

text \<open>The build configuration.\<close>

record dl_kconfig =
  BUF_SIZE :: nat
  HTTP_FRAG_SIZE :: nat
  RANGE_REQUESTS :: bool
  CLIENT_IPV6 :: bool
  MAX_HOSTNAME_SIZE :: nat
  MAX_FILENAME_SIZE :: nat
  IFNAMSIZ :: nat

datatype sa_family = AF_INET | AF_INET6 | AF_OTHER nat

text \<open>
  The results of the socket calls of one step: the family of the resolved address, the descriptor, the
  error number of each call (zero when it succeeds), how many bytes each \<^verbatim>\<open>send\<close> takes, and the
  answer of the peer to a request.
\<close>

record sockets =
  getaddrinfo :: "bytes \<Rightarrow> sa_family \<Rightarrow> sa_family option"
  socket_fd :: int
  socket_errno :: int
  bind_errno :: int
  verify_errno :: int
  sec_tag_errno :: int
  connect_errno :: int
  close_errno :: int
  send_results :: "nat \<Rightarrow> int"
  send_errno :: int
  answer :: "bytes \<Rightarrow> bytes"

section \<open>Requests and answers (\<^verbatim>\<open>http.c\<close>)\<close>

definition CRLF :: bytes where
  "CRLF = [13, 10]"

definition GET_HTTP_TEMPLATE :: bytes where
  "GET_HTTP_TEMPLATE = asc ''GET /%s HTTP/1.1'' @ CRLF @ asc ''Host: %s'' @ CRLF @
     asc ''Range: bytes=%u-'' @ CRLF @ asc ''Connection: keep-alive'' @ CRLF @ CRLF"

definition GET_HTTPS_TEMPLATE :: bytes where
  "GET_HTTPS_TEMPLATE = asc ''GET /%s HTTP/1.1'' @ CRLF @ asc ''Host: %s'' @ CRLF @
     asc ''Range: bytes=%u-%u'' @ CRLF @ asc ''Connection: keep-alive'' @ CRLF @ CRLF"

text \<open>
  \<^verbatim>\<open>socket_send\<close>; \<^verbatim>\<open>i\<close> counts the calls of \<^verbatim>\<open>send\<close>, which take at most what they are given, and
  fail on a closed descriptor.
\<close>

function socket_send_loop :: "(nat \<Rightarrow> int) \<Rightarrow> int \<Rightarrow> nat \<Rightarrow> nat \<Rightarrow> int" where
  "socket_send_loop sent errno i len =
    (if len = 0 then 0
     else if sent i \<le> 0 then - errno
     else socket_send_loop sent errno (Suc i) (len - nat (sent i)))"
  by pat_completeness auto
termination
  by (relation "measure (\<lambda>(_, _, _, len). len)") auto

declare socket_send_loop.simps [simp del]

definition socket_send :: "sockets \<Rightarrow> download_client \<Rightarrow> nat \<Rightarrow> int" where
  "socket_send net dl len = socket_send_loop (if dl_fd dl < 0 then (\<lambda>i. -1) else send_results net) (send_errno net) 0 len"

definition frag_size :: "dl_kconfig \<Rightarrow> download_client \<Rightarrow> u32" where
  "frag_size k dl =
    (if frag_size_override (dl_config dl) \<noteq> 0 then frag_size_override (dl_config dl) else of_nat (HTTP_FRAG_SIZE k))"

definition use_range :: "dl_kconfig \<Rightarrow> download_client \<Rightarrow> bool" where
  "use_range k dl \<longleftrightarrow> dl_proto dl = IPPROTO_TLS_1_2 \<or> RANGE_REQUESTS k"

definition range_end :: "dl_kconfig \<Rightarrow> download_client \<Rightarrow> u32" where
  "range_end k dl =
    (let off = dl_progress dl + frag_size k dl - 1
     in if dl_file_size dl \<noteq> 0 then min off (dl_file_size dl) else off)"

text \<open>What has been sent is answered by the peer; a request that fails to be sent is not.\<close>

definition http_get_request_send :: "dl_kconfig \<Rightarrow> sockets \<Rightarrow> download_client \<Rightarrow> (int \<times> download_client) option" where
  "http_get_request_send k net dl =
    (case url_parse_host (dl_host dl) (MAX_HOSTNAME_SIZE k) of (err, host) \<Rightarrow>
     if err \<noteq> 0 then Some (err, dl)
     else (case url_parse_file (dl_file dl) (MAX_FILENAME_SIZE k) of (err, file) \<Rightarrow>
     if err \<noteq> 0 then Some (err, dl)
     else do {
       (len, b) \<leftarrow>
         (if use_range k dl
          then snprintf (dl_buf dl) 0 (BUF_SIZE k) GET_HTTPS_TEMPLATE
            [FmtS (file @ [0]), FmtS (host @ [0]), FmtU (unat (dl_progress dl)), FmtU (unat (range_end k dl))]
          else snprintf (dl_buf dl) 0 (BUF_SIZE k) GET_HTTP_TEMPLATE
            [FmtS (file @ [0]), FmtS (host @ [0]), FmtU (unat (dl_progress dl))]);
       let dl1 = dl\<lparr>dl_buf := b\<rparr>;
       if len > BUF_SIZE k then Some (- ENOMEM, dl1)
       else (let err = socket_send net dl len
             in if err \<noteq> 0 then Some (err, dl1)
                else Some (0, dl1\<lparr>dl_inflight := dl_inflight dl1 @ answer net (take len b)\<rparr>))
     }))"

text \<open>
  \<^verbatim>\<open>strstr(client->buf, ...)\<close>: the search does not stop at the end of the buffer, it goes on into the
  field behind it (\<^verbatim>\<open>offset\<close>, which always has a zero byte).
\<close>

definition buf_text :: "download_client \<Rightarrow> bytes" where
  "buf_text dl = cstr (dl_buf dl @ mem_store False 4 (dl_offset dl))"

definition file_size_of :: "dl_kconfig \<Rightarrow> download_client \<Rightarrow> u32 option option" where
  "file_size_of k dl =
    (if use_range k dl then
       (case strstr_from (buf_text dl) 0 (asc ''content-range'') of
         None \<Rightarrow> Some None
       | Some p \<Rightarrow>
           (case strstr_from (buf_text dl) p (asc ''/'') of
             None \<Rightarrow> Some None
           | Some q \<Rightarrow> map_option Some (c_atoi (drop (q + 1) (buf_text dl) @ [0]))))
     else
       (case strstr_from (buf_text dl) 0 (asc ''content-length'') of
         None \<Rightarrow> Some None
       | Some p \<Rightarrow>
           (case strstr_from (buf_text dl) p (asc '':'') of
             None \<Rightarrow> Some None
           | Some q \<Rightarrow> map_option (\<lambda>n. Some (dl_progress dl + n)) (c_atoi (drop (q + 1) (buf_text dl) @ [0])))))"

text \<open>The length of the header, or -1 or 1 as the source returns them; a success is 0.\<close>

definition http_header_parse :: "dl_kconfig \<Rightarrow> download_client \<Rightarrow> (int \<times> nat \<times> download_client) option" where
  "http_header_parse k dl =
    (case strstr_from (buf_text dl) 0 (CRLF @ CRLF) of
      None \<Rightarrow> Some (1, 0, dl)
    | Some p \<Rightarrow>
        let hdr_len = p + 4 in do {
          head \<leftarrow> rd_bytes (dl_buf dl) 0 hdr_len;
          b \<leftarrow> wr_bytes (dl_buf dl) 0 (map tolower head);
          let dl1 = dl\<lparr>dl_buf := b\<rparr>;
          if strstr_from (buf_text dl1) 0 (asc ''http/1.1 206'') = None \<and>
             (use_range k dl1 \<or> strstr_from (buf_text dl1) 0 (asc ''http/1.1 200'') = None)
          then Some (-1, hdr_len, dl1)
          else do {
            size \<leftarrow> (if dl_file_size dl1 = 0 then file_size_of k dl1 else Some (Some (dl_file_size dl1)));
            (case size of
              None \<Rightarrow> Some (-1, hdr_len, dl1)
            | Some n \<Rightarrow>
                let dl2 = dl1\<lparr>dl_file_size := n\<rparr>;
                    dl3 = (if strstr_from (buf_text dl2) 0 (asc ''connection: close'') \<noteq> None
                           then dl2\<lparr>dl_connection_close := True\<rparr> else dl2)
                in Some (0, hdr_len, dl3\<lparr>dl_has_header := True\<rparr>))
          }
        })"

text \<open>The bytes behind the header are copied to the front, from the lowest address upwards.\<close>

definition take_payload :: "nat \<Rightarrow> download_client \<Rightarrow> download_client option" where
  "take_payload hdr_len dl =
    (if dl_offset dl \<noteq> of_nat hdr_len then do {
       rest \<leftarrow> rd_bytes (dl_buf dl) hdr_len (unat (dl_offset dl - of_nat hdr_len));
       b \<leftarrow> wr_bytes (dl_buf dl) 0 rest;
       Some (dl\<lparr>dl_buf := b, dl_offset := dl_offset dl - of_nat hdr_len\<rparr>)
     }
     else Some (dl\<lparr>dl_offset := 0\<rparr>))"

definition http_parse :: "dl_kconfig \<Rightarrow> download_client \<Rightarrow> nat \<Rightarrow> (int \<times> download_client) option" where
  "http_parse k dl len =
    (let dl0 = dl\<lparr>dl_offset := dl_offset dl + of_nat len\<rparr> in do {
       (rc, dl2) \<leftarrow>
         (if \<not> dl_has_header dl0 then do {
            (rc, hdr_len, dl1) \<leftarrow> http_header_parse k dl0;
            if rc > 0 then Some (1, dl1)
            else if rc < 0 then Some (-1, dl1)
            else do { dl2 \<leftarrow> take_payload hdr_len dl1; Some (0, dl2) }
          }
          else Some (0, dl0));
       if rc \<noteq> 0 then Some (rc, dl2)
       else (let dl3 = dl2\<lparr>dl_progress := dl_progress dl2 + min (dl_offset dl2) (of_nat len)\<rparr>
             in if dl_progress dl3 \<noteq> dl_file_size dl3 \<and> dl_offset dl3 < frag_size k dl3
                then Some (1, dl3) else Some (0, dl3))
     })"

section \<open>The connection (\<^verbatim>\<open>download_client.c\<close>)\<close>

definition host_lookup :: "dl_kconfig \<Rightarrow> sockets \<Rightarrow> bytes \<Rightarrow> sa_family \<Rightarrow> int + sa_family" where
  "host_lookup k net host family =
    (case url_parse_host host (MAX_HOSTNAME_SIZE k) of (err, hostname) \<Rightarrow>
       if err \<noteq> 0 then Inl err
       else (case getaddrinfo net hostname family of None \<Rightarrow> Inl (- EHOSTUNREACH) | Some fam \<Rightarrow> Inr fam))"

definition socket_apn_set :: "dl_kconfig \<Rightarrow> sockets \<Rightarrow> bytes \<Rightarrow> int" where
  "socket_apn_set k net a =
    (if length a \<ge> IFNAMSIZ k then - EINVAL else if bind_errno net \<noteq> 0 then - ENETUNREACH else 0)"

definition socket_sectag_set :: "sockets \<Rightarrow> int" where
  "socket_sectag_set net =
    (if verify_errno net \<noteq> 0 then - verify_errno net
     else if sec_tag_errno net \<noteq> 0 then - sec_tag_errno net else 0)"

text \<open>The protocol and the socket type; the port only goes into the address.\<close>

definition client_connect ::
  "dl_kconfig \<Rightarrow> sockets \<Rightarrow> download_client \<Rightarrow> bytes \<Rightarrow> sa_family \<Rightarrow> (int \<times> download_client) option" where
  "client_connect k net dl host sa =
    (let pr = (case url_parse_proto host of
           Some (p, t) \<Rightarrow> p
         | None \<Rightarrow> if sec_tag (dl_config dl) \<noteq> -1 then IPPROTO_TLS_1_2 else IPPROTO_TCP);
         dl1 = dl\<lparr>dl_proto := pr\<rparr>
     in if pr = IPPROTO_UDP \<or> pr = IPPROTO_DTLS_1_2 then Some (- EPROTONOSUPPORT, dl1)
        else if pr = IPPROTO_TLS_1_2 \<and> sec_tag (dl_config dl) = -1 then Some (- EINVAL, dl1)
        else do {
          port \<leftarrow> url_parse_port host;
          (case sa of
            AF_OTHER _ \<Rightarrow> Some (- EAFNOSUPPORT, dl1)
          | _ \<Rightarrow>
              if socket_fd net < 0 then Some (- socket_errno net, dl1\<lparr>dl_fd := socket_fd net\<rparr>)
              else
                let err = (case apn (dl_config dl) of
                      Some a \<Rightarrow> if a \<noteq> [] then socket_apn_set k net a else 0 | None \<Rightarrow> 0);
                    err = (if err = 0 \<and> pr = IPPROTO_TLS_1_2 \<and> sec_tag (dl_config dl) \<noteq> -1
                           then socket_sectag_set net else err);
                    err = (if err = 0 \<and> connect_errno net \<noteq> 0 then - connect_errno net else err)
                in if err \<noteq> 0 then Some (err, dl1\<lparr>dl_fd := -1\<rparr>)
                   else Some (0, dl1\<lparr>dl_fd := socket_fd net, dl_inflight := []\<rparr>))
        })"

definition download_client_connect ::
  "dl_kconfig \<Rightarrow> sockets \<Rightarrow> download_client \<Rightarrow> bytes \<Rightarrow> download_client_cfg \<Rightarrow> (int \<times> download_client) option" where
  "download_client_connect k net dl host cfg =
    (if dl_fd dl \<noteq> -1 then Some (0, dl)
     else if unat (frag_size_override cfg) > BUF_SIZE k then Some (- E2BIG, dl)
     else
       let sa = (if CLIENT_IPV6 k then
             (case host_lookup k net host AF_INET6 of
               Inr f \<Rightarrow> Inr f
             | Inl _ \<Rightarrow> host_lookup k net host AF_INET)
           else host_lookup k net host AF_INET)
       in case sa of
         Inl err \<Rightarrow> Some (err, dl)
       | Inr fam \<Rightarrow> do {
           (err, dl1) \<leftarrow> client_connect k net (dl\<lparr>dl_config := cfg, dl_host := host\<rparr>) host fam;
           if dl_fd dl1 < 0 then Some (err, dl1) else Some (0, dl1)
         })"

definition download_client_disconnect :: "sockets \<Rightarrow> download_client \<Rightarrow> int \<times> download_client" where
  "download_client_disconnect net dl =
    (if dl_fd dl < 0 then (- EINVAL, dl)
     else if close_errno net \<noteq> 0 then (- close_errno net, dl)
     else (0, dl\<lparr>dl_fd := -1, dl_inflight := []\<rparr>))"

definition reconnect :: "dl_kconfig \<Rightarrow> sockets \<Rightarrow> download_client \<Rightarrow> (int \<times> download_client) option" where
  "reconnect k net dl =
    (case download_client_disconnect net dl of (err, dl1) \<Rightarrow>
       if err \<noteq> 0 then Some (err, dl1)
       else download_client_connect k net dl1 (dl_host dl1) (dl_config dl1))"

definition request_send :: "dl_kconfig \<Rightarrow> sockets \<Rightarrow> download_client \<Rightarrow> (int \<times> download_client) option" where
  "request_send k net dl =
    (if dl_proto dl = IPPROTO_TCP \<or> dl_proto dl = IPPROTO_TLS_1_2
     then http_get_request_send k net dl
     else Some (0, dl))"

definition download_client_init :: "download_client \<Rightarrow> download_client" where
  "download_client_init dl = dl\<lparr>dl_fd := -1\<rparr>"

definition download_client_file_size_get :: "download_client \<Rightarrow> u32" where
  "download_client_file_size_get dl = dl_file_size dl"

definition download_client_start ::
  "dl_kconfig \<Rightarrow> sockets \<Rightarrow> download_client \<Rightarrow> bytes \<Rightarrow> u32 \<Rightarrow> (int \<times> download_client) option" where
  "download_client_start k net dl file start_at =
    (if dl_fd dl < 0 then Some (- ENOTCONN, dl)
     else request_send k net (dl\<lparr>dl_file := file, dl_file_size := 0, dl_progress := start_at,
       dl_offset := 0, dl_has_header := False\<rparr>))"

section \<open>The thread\<close>

text \<open>Where the thread stands between its blocking calls.  At \<^verbatim>\<open>send_again\<close> it remembers the last \<^verbatim>\<open>len\<close>.\<close>

datatype thread_pc = At_recv | At_send int | Suspended

datatype recv_result = Got nat | Closed | Failed int

type_synonym 's callback = "sockets \<Rightarrow> download_client_evt \<Rightarrow> download_client \<Rightarrow> 's \<Rightarrow> (int \<times> download_client \<times> 's) option"

definition fragment_evt_send ::
  "dl_kconfig \<Rightarrow> 's callback \<Rightarrow> sockets \<Rightarrow> download_client \<Rightarrow> 's \<Rightarrow> (int \<times> download_client \<times> 's) option" where
  "fragment_evt_send k cb net dl s = do {
     guard (unat (dl_offset dl) \<le> BUF_SIZE k);
     cb net (DOWNLOAD_CLIENT_EVT_FRAGMENT (dl_buf dl) (unat (dl_offset dl))) dl s
   }"

definition error_evt_send ::
  "'s callback \<Rightarrow> sockets \<Rightarrow> download_client \<Rightarrow> 's \<Rightarrow> int \<Rightarrow> (int \<times> download_client \<times> 's) option" where
  "error_evt_send cb net dl s error = cb net (DOWNLOAD_CLIENT_EVT_ERROR (- error)) dl s"

text \<open>The error is reported; unless the application stops, the client reconnects and goes on at \<^verbatim>\<open>send_again\<close>.\<close>

definition retry ::
  "dl_kconfig \<Rightarrow> 's callback \<Rightarrow> sockets \<Rightarrow> int \<Rightarrow> download_client \<Rightarrow> 's \<Rightarrow>
     (thread_pc \<times> download_client \<times> 's) option" where
  "retry k cb net len dl s = do {
     (rc, dl1, s1) \<leftarrow> error_evt_send cb net dl s ECONNRESET;
     if rc \<noteq> 0 then Some (Suspended, dl1, s1)
     else do {
       (rc, dl2) \<leftarrow> reconnect k net dl1;
       if rc \<noteq> 0 then do {
         (_, dl3, s3) \<leftarrow> error_evt_send cb net dl2 s1 EHOSTDOWN;
         Some (Suspended, dl3, s3)
       }
       else Some (At_send len, dl2, s1)
     }
   }"

text \<open>\<^verbatim>\<open>recv\<close> returned zero (with \<^verbatim>\<open>errno\<close> 0 here) or -1.\<close>

definition thread_lost ::
  "dl_kconfig \<Rightarrow> 's callback \<Rightarrow> sockets \<Rightarrow> int \<Rightarrow> int \<Rightarrow> download_client \<Rightarrow> 's \<Rightarrow>
     (thread_pc \<times> download_client \<times> 's) option" where
  "thread_lost k cb net len errno dl s = do {
     (rc, dl1, s1) \<leftarrow>
       (if dl_offset dl > 0 \<and> dl_has_header dl then fragment_evt_send k cb net dl s else Some (0, dl, s));
     if rc \<noteq> 0 then Some (Suspended, dl1, s1)
     else if len = -1 \<and> errno = ETIMEDOUT then Some (At_send len, dl1, s1)
     else retry k cb net len dl1 s1
   }"

definition thread_data ::
  "dl_kconfig \<Rightarrow> 's callback \<Rightarrow> sockets \<Rightarrow> nat \<Rightarrow> download_client \<Rightarrow> 's \<Rightarrow>
     (thread_pc \<times> download_client \<times> 's) option" where
  "thread_data k cb net len dl s = do {
     guard (dl_proto dl = IPPROTO_TCP \<or> dl_proto dl = IPPROTO_TLS_1_2);
     (rc, dl1) \<leftarrow> http_parse k dl len;
     if rc > 0 then Some (At_recv, dl1, s)
     else if rc < 0 then do {
       (_, dl2, s2) \<leftarrow> error_evt_send cb net dl1 s EBADMSG;
       Some (Suspended, dl2, s2)
     }
     else do {
       (rc, dl2, s2) \<leftarrow> fragment_evt_send k cb net dl1 s;
       if rc \<noteq> 0 then Some (Suspended, dl2, s2)
       else if dl_progress dl2 = dl_file_size dl2 then do {
         (_, dl3, s3) \<leftarrow> cb net DOWNLOAD_CLIENT_EVT_DONE dl2 s2;
         Some (Suspended, dl3, s3)
       }
       else if dl_connection_close dl2 then do {
         (_, dl3) \<leftarrow> reconnect k net (dl2\<lparr>dl_connection_close := False\<rparr>);
         Some (At_send (int len), dl3, s2)
       }
       else Some (At_send (int len), dl2, s2)
     }
   }"

text \<open>
  The beginning of the loop, up to the next blocking call.  The \<^verbatim>\<open>__ASSERT\<close> is compiled in, so a header
  that fills the buffer is a failed assertion and not the error \<^verbatim>\<open>E2BIG\<close>.
\<close>

definition thread_recv ::
  "dl_kconfig \<Rightarrow> 's callback \<Rightarrow> sockets \<Rightarrow> recv_result \<Rightarrow> download_client \<Rightarrow> 's \<Rightarrow>
     (thread_pc \<times> download_client \<times> 's) option" where
  "thread_recv k cb net r dl s = do {
     guard (unat (dl_offset dl) < BUF_SIZE k);
     if BUF_SIZE k - unat (dl_offset dl) = 0 then do {
       (_, dl1, s1) \<leftarrow> error_evt_send cb net dl s E2BIG;
       Some (Suspended, dl1, s1)
     }
     else (case r of
       Got n \<Rightarrow> do {
         b \<leftarrow> wr_bytes (dl_buf dl) (unat (dl_offset dl)) (take n (dl_inflight dl));
         thread_data k cb net n (dl\<lparr>dl_buf := b, dl_inflight := drop n (dl_inflight dl)\<rparr>) s
       }
     | Closed \<Rightarrow> thread_lost k cb net 0 0 (dl\<lparr>dl_inflight := []\<rparr>) s
     | Failed e \<Rightarrow> thread_lost k cb net (-1) e (dl\<lparr>dl_inflight := []\<rparr>) s)
   }"

definition thread_send ::
  "dl_kconfig \<Rightarrow> 's callback \<Rightarrow> sockets \<Rightarrow> int \<Rightarrow> download_client \<Rightarrow> 's \<Rightarrow>
     (thread_pc \<times> download_client \<times> 's) option" where
  "thread_send k cb net len dl s =
    (let dl0 = dl\<lparr>dl_offset := 0\<rparr>
     in if dl_proto dl0 \<noteq> IPPROTO_TCP \<or> len = 0 \<or> RANGE_REQUESTS k then do {
          (rc, dl1) \<leftarrow> request_send k net (dl0\<lparr>dl_has_header := False\<rparr>);
          if rc \<noteq> 0 then retry k cb net len dl1 s else Some (At_recv, dl1, s)
        }
        else Some (At_recv, dl0, s))"

section \<open>Searching a text\<close>

lemma strstr_at_length: "strstr_at s pat i = Some j \<Longrightarrow> i \<le> j \<and> j + length pat \<le> i + length s"
proof (induction s pat i rule: strstr_at.induct)
  case (2 c cs pat i)
  show ?case
  proof (cases "take (length pat) (c # cs) = pat")
    case True
    then have "length pat \<le> length (c # cs)" by (metis length_take min.cobounded1)
    then show ?thesis using 2 True by simp
  next
    case False
    then show ?thesis using 2 by simp
  qed
qed simp

text \<open>What is found in a text is found in every longer one.\<close>

lemma strstr_at_extend: "strstr_at h pat i = Some j \<Longrightarrow> strstr_at (h @ s) pat i = Some j"
proof (induction h pat i rule: strstr_at.induct)
  case (2 c cs pat i)
  show ?case
  proof (cases "take (length pat) (c # cs) = pat")
    case True
    then have "length pat \<le> length (c # cs)" by (metis length_take min.cobounded1)
    then have "take (length pat) (c # cs @ s) = pat" using True by (simp add: take_append flip: append_Cons)
    then show ?thesis using 2 True by simp
  next
    case False
    then have f: "strstr_at cs pat (Suc i) = Some j" using 2 by simp
    then have "length pat \<le> length cs" using strstr_at_length [OF f] by simp
    then have "take (length pat) (c # cs @ s) \<noteq> pat" using False by (simp add: take_append flip: append_Cons)
    then show ?thesis using 2 False f by simp
  qed
qed simp

lemma strstr_at_found:
  "\<lbrakk>i < length s; take (length pat) (drop i s) = pat\<rbrakk> \<Longrightarrow> \<exists>j. strstr_at s pat b = Some j"
proof (induction s arbitrary: i b)
  case (Cons c s)
  then show ?case by (cases i) auto
qed simp

lemma strstr_at_restrict: "\<lbrakk>strstr_at (d @ x) pat i = Some j; j + length pat \<le> i + length d; d \<noteq> []\<rbrakk> \<Longrightarrow> strstr_at d pat i = Some j"
proof (induction d arbitrary: i)
  case (Cons c d)
  show ?case
  proof (cases "take (length pat) (c # d @ x) = pat")
    case True
    then have "j = i" "length pat \<le> length (c # d)" using Cons.prems by auto
    then have "take (length pat) (c # d) = pat" using True by (simp add: take_append flip: append_Cons)
    then show ?thesis using \<open>j = i\<close> by simp
  next
    case False
    then have f: "strstr_at (d @ x) pat (Suc i) = Some j" using Cons.prems by simp
    have j: "Suc i \<le> j" using strstr_at_length [OF f] by simp
    have "take (length pat) (c # d) \<noteq> pat"
    proof
      assume a: "take (length pat) (c # d) = pat"
      then have "length pat \<le> length (c # d)" by (metis length_take min.cobounded1)
      then show False using a False by (simp add: take_append flip: append_Cons)
    qed
    moreover have "strstr_at d pat (Suc i) = Some j"
    proof (cases "d = []")
      case True
      then have "length pat = 0" using Cons.prems(2) j unfolding True list.size by linarith
      then show ?thesis using False by simp
    next
      case False
      then show ?thesis using Cons.IH [OF f] Cons.prems(2) by simp
    qed
    ultimately show ?thesis by simp
  qed
qed simp

lemma strstr_from_extend: "strstr_from h p pat = Some j \<Longrightarrow> strstr_from (h @ s) p pat = Some j"
proof -
  assume a: "strstr_from h p pat = Some j"
  then have "drop p h \<noteq> []" by (auto simp: strstr_from_def)
  then have "drop p (h @ s) = drop p h @ s" by simp
  then show ?thesis using a by (simp add: strstr_from_def strstr_at_extend)
qed

lemma cstr_append_text: "0 \<notin> set a \<Longrightarrow> cstr (a @ b) = a @ cstr b"
  by (induction a) (auto simp: cstr_def)

lemma tolower_nz: "tolower c = 0 \<longleftrightarrow> c = 0"
proof -
  have "c + 32 \<noteq> 0" if "65 \<le> c" "c \<le> 90"
  proof -
    have "65 \<le> unat c \<and> unat c \<le> 90" using that by (simp add: word_le_nat_alt)
    then have "unat (c + 32) = unat c + 32" by (simp add: unat_word_ariths)
    then show ?thesis by (metis add_is_0 unat_0 zero_neq_numeral)
  qed
  then show ?thesis by (auto simp: tolower_def)
qed

lemma lower_no_nul: "0 \<notin> set a \<Longrightarrow> 0 \<notin> set (map tolower a)"
  using tolower_nz by (metis (no_types, lifting) image_iff list.set_map)

lemma c_atoi_number:
  assumes "n < 2 ^ 31" "take (length (dec_str n) + 1) t = dec_str n @ [13]"
  shows "c_atoi t = Some (of_nat n)"
proof -
  obtain r where t: "t = dec_str n @ 13 # r" using assms(2) by (metis append_take_drop_id append_assoc append_Cons append_Nil)
  obtain d ds where d: "dec_str n = d # ds" "is_digit d" using dec_str_nonempty [of n] dec_str_digits [of n] by (cases "dec_str n") auto
  have u: "48 \<le> unat d" "unat d \<le> 57" using d(2) by (auto simp: is_digit_unat)
  have "\<not> is_space d"
    using u by (auto simp: is_space_def word_le_nat_alt)
  moreover have "d \<noteq> ch CHR ''-''" "d \<noteq> ch CHR ''+''" using u by auto
  moreover have "takeWhile is_digit t = dec_str n"
  proof -
    have "\<forall>x\<in>set (dec_str n). is_digit x" using dec_str_digits [of n] by (simp add: list_all_iff)
    moreover have "\<not> is_digit 13" by (simp add: is_digit_unat)
    ultimately show ?thesis using t by (simp add: takeWhile_append)
  qed
  moreover have "dec_val (d # ds) = n" using dec_str_val [of n] d(1) by simp
  ultimately have "c_integer t = int n" using t d by (simp add: c_integer_def Let_def)
  then show ?thesis using assms(1) by (simp add: c_atoi_def)
qed

section \<open>What a peer answers\<close>

text \<open>The request for the bytes \<^verbatim>\<open>p\<close> to \<^verbatim>\<open>q\<close> of a file.\<close>

definition range_request :: "bytes \<Rightarrow> bytes \<Rightarrow> nat \<Rightarrow> nat \<Rightarrow> bytes" where
  "range_request host file p q =
    asc ''GET /'' @ file @ asc '' HTTP/1.1'' @ CRLF @ asc ''Host: '' @ host @ CRLF @
    asc ''Range: bytes='' @ dec_str p @ asc ''-'' @ dec_str q @ CRLF @ asc ''Connection: keep-alive'' @ CRLF @ CRLF"

text \<open>
  The header of a partial answer for a file of \<^verbatim>\<open>n\<close> bytes: it ends with its only empty line, has the
  status 206 and names the size of the file.
\<close>

definition range_header :: "nat \<Rightarrow> bytes \<Rightarrow> bool" where
  "range_header n h \<longleftrightarrow> 0 \<notin> set h \<and> 4 \<le> length h \<and>
    strstr_at h (CRLF @ CRLF) 0 = Some (length h - 4) \<and>
    strstr_at (map tolower h) (asc ''http/1.1 206'') 0 \<noteq> None \<and>
    (case strstr_from (map tolower h) 0 (asc ''content-range'') of
      None \<Rightarrow> False
    | Some p \<Rightarrow>
        (case strstr_from (map tolower h) p (asc ''/'') of
          None \<Rightarrow> False
        | Some q \<Rightarrow> take (length (dec_str n) + 1) (drop (q + 1) (map tolower h)) = dec_str n @ [13]))"

text \<open>A peer that serves the file \<^verbatim>\<open>F\<close>: it answers a request for a range with that range, or not at all.\<close>

definition serves :: "bytes \<Rightarrow> bytes \<Rightarrow> bytes \<Rightarrow> sockets \<Rightarrow> bool" where
  "serves F host file net \<longleftrightarrow>
    (\<forall>p q. p < length F \<longrightarrow> p \<le> q \<longrightarrow> answer net (range_request host file p q) = [] \<or>
      (\<exists>h. range_header (length F) h \<and> answer net (range_request host file p q) = h @ take (q + 1 - p) (drop p F)))"

lemma c_format_range:
  "\<lbrakk>0 \<notin> set h; 0 \<notin> set f\<rbrakk> \<Longrightarrow>
   c_format GET_HTTPS_TEMPLATE [FmtS (f @ [0]), FmtS (h @ [0]), FmtU p, FmtU q] = Some (range_request h f p q)"
  by (simp add: GET_HTTPS_TEMPLATE_def CRLF_def range_request_def strlen_append)

lemma length_range_request:
  assumes "p < 2 ^ 32" "q < 2 ^ 32"
  shows "length (range_request h f p q) \<le> length h + length f + 86"
proof -
  have "length (dec_str p) \<le> 10" "length (dec_str q) \<le> 10" using assms by (auto intro: dec_str_length)
  then show ?thesis by (simp add: range_request_def CRLF_def)
qed

lemma range_request_end: "\<exists>x. range_request h f p q = x @ CRLF @ CRLF"
  unfolding range_request_def
  apply (simp only: append_assoc [symmetric] append_same_eq)
  by blast

lemma range_request_no_nul: "\<lbrakk>0 \<notin> set h; 0 \<notin> set f\<rbrakk> \<Longrightarrow> 0 \<notin> set (range_request h f p q)"
  by (simp add: range_request_def CRLF_def)

lemma dec_str_sep:
  assumes "dec_str p @ c # x = dec_str q @ c # y" "\<not> is_digit c"
  shows "p = q" "x = y"
proof -
  have "takeWhile is_digit (dec_str n @ c # z) = dec_str n" for n z
  proof -
    have "\<forall>d\<in>set (dec_str n). is_digit d" using dec_str_digits [of n] by (simp add: list_all_iff)
    then show ?thesis using assms(2) by (simp add: takeWhile_append)
  qed
  then have "dec_str p = dec_str q" using arg_cong [OF assms(1), of "takeWhile is_digit"] by simp
  then show "p = q" "x = y" using assms(1) by (simp_all add: dec_str_inj)
qed

lemma range_request_inj: "range_request h f p q = range_request h f p' q' \<longleftrightarrow> p = p' \<and> q = q'"
proof
  assume a: "range_request h f p q = range_request h f p' q'"
  have d: "\<not> is_digit 45" "\<not> is_digit 13" by (simp_all add: is_digit_unat)
  have "dec_str p @ 45 # dec_str q @ 13 # 10 # asc ''Connection: keep-alive'' @ CRLF @ CRLF =
      dec_str p' @ 45 # dec_str q' @ 13 # 10 # asc ''Connection: keep-alive'' @ CRLF @ CRLF"
    using a by (simp add: range_request_def CRLF_def)
  from dec_str_sep [OF this d(1)] show "p = p' \<and> q = q'" using dec_str_sep(1) [OF _ d(2)] by blast
qed simp

text \<open>Where the header ends and what the parser makes of it.\<close>

lemma buf_text_header:
  assumes "dl_buf dl = h @ r" "0 \<notin> set h"
  shows "buf_text dl = h @ cstr (r @ mem_store False 4 (dl_offset dl))"
  using assms by (simp add: buf_text_def cstr_append_text)

lemma file_size_of_header:
  assumes "range_header n h" "n < 2 ^ 31" "use_range k dl" "dl_buf dl = map tolower h @ r"
  shows "file_size_of k dl = Some (Some (of_nat n))"
proof -
  let ?l = "map tolower h"
  have z: "0 \<notin> set ?l" using assms(1) lower_no_nul unfolding range_header_def by blast
  note t = buf_text_header [OF assms(4) z]
  let ?s = "cstr (r @ mem_store False 4 (dl_offset dl))"
  obtain p where p: "strstr_from ?l 0 (asc ''content-range'') = Some p"
    using assms(1) by (auto simp: range_header_def split: option.splits)
  obtain q where q: "strstr_from ?l p (asc ''/'') = Some q"
    "take (length (dec_str n) + 1) (drop (q + 1) ?l) = dec_str n @ [13]"
    using assms(1) p by (auto simp: range_header_def split: option.splits)
  have len: "q + 1 + (length (dec_str n) + 1) \<le> length ?l"
  proof -
    have "length (take (length (dec_str n) + 1) (drop (q + 1) ?l)) = length (dec_str n) + 1" using q(2) by simp
    then show ?thesis by simp
  qed
  have "take (length (dec_str n) + 1) (drop (q + 1) (?l @ ?s) @ [0]) = dec_str n @ [13]"
    using q(2) len by (simp add: take_append)
  then have "c_atoi (drop (q + 1) (?l @ ?s) @ [0]) = Some (of_nat n)" using assms(2) by (rule c_atoi_number [rotated])
  moreover note p1 = strstr_from_extend [OF p, of ?s] and q1 = strstr_from_extend [OF q(1), of ?s]
  ultimately show ?thesis using assms(3) unfolding file_size_of_def t by simp
qed

lemma http_header_parse_ok:
  assumes h: "range_header n h" "0 < n" "n < 2 ^ 31" and k: "use_range k dl"
    and b: "dl_buf dl = h @ r" and size: "dl_file_size dl = 0 \<or> dl_file_size dl = of_nat n"
  obtains c where "http_header_parse k dl = Some (0, length h,
    dl\<lparr>dl_buf := map tolower h @ r, dl_file_size := of_nat n, dl_connection_close := c, dl_has_header := True\<rparr>)"
proof -
  have z: "0 \<notin> set h" "4 \<le> length h" and e: "strstr_at h (CRLF @ CRLF) 0 = Some (length h - 4)"
    and ok: "strstr_at (map tolower h) (asc ''http/1.1 206'') 0 \<noteq> None"
    using h(1) by (simp_all add: range_header_def)
  have p: "strstr_from (buf_text dl) 0 (CRLF @ CRLF) = Some (length h - 4)"
    unfolding buf_text_header [OF b z(1)] using strstr_at_extend [OF e] by (simp add: strstr_from_def)
  define dl1 where "dl1 = dl\<lparr>dl_buf := map tolower h @ r\<rparr>"
  have t1: "buf_text dl1 = map tolower h @ cstr (r @ mem_store False 4 (dl_offset dl1))"
    using lower_no_nul [OF z(1)] by (intro buf_text_header) (simp_all add: dl1_def)
  have s1: "strstr_from (buf_text dl1) 0 (asc ''http/1.1 206'') \<noteq> None"
    using ok strstr_at_extend unfolding t1 strstr_from_def by fastforce
  have rd: "rd_bytes (dl_buf dl) 0 (length h) = Some h" using b by (simp add: rd_bytes_def)
  have wrt: "wr_bytes (dl_buf dl) 0 (map tolower h) = Some (map tolower h @ r)" using b by (simp add: wr_bytes_def)
  have sz: "(if dl_file_size dl1 = 0 then file_size_of k dl1 else Some (Some (dl_file_size dl1))) = Some (Some (of_nat n))"
    using size file_size_of_header [OF h(1) h(3), of k dl1 r] k by (auto simp: dl1_def use_range_def)
  have h4: "length h - 4 + 4 = length h" using z(2) by simp
  let ?c = "if strstr_from (buf_text (dl1\<lparr>dl_file_size := of_nat n\<rparr>)) 0 (asc ''connection: close'') \<noteq> None
    then True else dl_connection_close dl1"
  have "http_header_parse k dl = Some (0, length h,
      (if strstr_from (buf_text (dl1\<lparr>dl_file_size := of_nat n\<rparr>)) 0 (asc ''connection: close'') \<noteq> None
       then dl1\<lparr>dl_file_size := of_nat n, dl_connection_close := True\<rparr> else dl1\<lparr>dl_file_size := of_nat n\<rparr>)
      \<lparr>dl_has_header := True\<rparr>)"
    unfolding http_header_parse_def p option.case Let_def h4 rd bind_eq_Some_conv Option.bind.simps wrt dl1_def [symmetric]
    using s1 sz by (simp del: asc_Cons)
  also have "\<dots> = Some (0, length h, dl\<lparr>dl_buf := map tolower h @ r, dl_file_size := of_nat n,
      dl_connection_close := ?c, dl_has_header := True\<rparr>)"
    by (simp add: dl1_def)
  finally show thesis by (rule that)
qed

text \<open>
  What is behind the first bytes of a payload: fewer than four of them leave the header behind them, in
  lower case.
\<close>

definition header_left :: "bytes \<Rightarrow> nat \<Rightarrow> bool" where
  "header_left b n \<longleftrightarrow> (n < 4 \<longrightarrow> tolower (b ! 6) = b ! 6)"

lemma tolower_idem: "tolower (tolower c) = tolower c"
proof -
  have "\<not> (65 \<le> c + 32 \<and> c + 32 \<le> 90)" if "65 \<le> c" "c \<le> 90"
  proof -
    have "65 \<le> unat c \<and> unat c \<le> 90" using that by (simp add: word_le_nat_alt)
    then have "unat (c + 32) = unat c + 32" by (simp add: unat_word_ariths)
    then show ?thesis using that by (simp add: word_le_nat_alt)
  qed
  then show ?thesis by (auto simp: tolower_def)
qed

lemma range_header_length:
  assumes "range_header n h"
  shows "6 < length h"
proof -
  obtain j where "strstr_at (map tolower h) (asc ''http/1.1 206'') 0 = Some j" using assms by (auto simp: range_header_def)
  from strstr_at_length [OF this] show ?thesis by simp
qed

text \<open>The two ways \<^verbatim>\<open>http_parse\<close> goes on: behind a header, and in the middle of the payload.\<close>

definition whole :: "dl_kconfig \<Rightarrow> download_client \<Rightarrow> bool" where
  "whole k dl \<longleftrightarrow> \<not> (dl_progress dl \<noteq> dl_file_size dl \<and> dl_offset dl < frag_size k dl)"

lemma frag_size_upd [simp]:
  "frag_size k (dl\<lparr>dl_buf := b\<rparr>) = frag_size k dl" "frag_size k (dl\<lparr>dl_offset := x\<rparr>) = frag_size k dl"
  "frag_size k (dl\<lparr>dl_progress := x\<rparr>) = frag_size k dl" "frag_size k (dl\<lparr>dl_file_size := x\<rparr>) = frag_size k dl"
  "frag_size k (dl\<lparr>dl_has_header := c\<rparr>) = frag_size k dl" "frag_size k (dl\<lparr>dl_connection_close := c\<rparr>) = frag_size k dl"
  "frag_size k (dl\<lparr>dl_inflight := b\<rparr>) = frag_size k dl" "frag_size k (dl\<lparr>dl_fd := f\<rparr>) = frag_size k dl"
  "frag_size k (dl\<lparr>dl_proto := pr\<rparr>) = frag_size k dl" "frag_size k (dl\<lparr>dl_host := b\<rparr>) = frag_size k dl"
  by (simp_all add: frag_size_def)

lemma http_parse_more:
  assumes "dl_has_header dl" "unat (dl_offset dl) + m < 2 ^ 32"
    and d: "dl' = dl\<lparr>dl_offset := dl_offset dl + of_nat m, dl_progress := dl_progress dl + of_nat m\<rparr>"
  shows "http_parse k dl m = Some (if whole k dl' then 0 else 1, dl')"
proof -
  have "m < 2 ^ 32" using assms(2) by simp
  then have "unat (of_nat m :: u32) = m" by (intro unat_of_nat_id) simp
  then have "of_nat m \<le> dl_offset dl + of_nat m"
    using assms(2) by (simp add: word_le_nat_alt unat_word_ariths)
  then have "min (dl_offset dl + of_nat m) (of_nat m) = of_nat m" by (simp add: min_def)
  then show ?thesis using assms(1) by (simp add: http_parse_def d whole_def Let_def)
qed

lemma http_parse_header:
  assumes h: "range_header n h" "0 < n" "n < 2 ^ 31" and k: "use_range k dl"
    and st: "\<not> dl_has_header dl" "dl_offset dl = 0" "dl_file_size dl = 0 \<or> dl_file_size dl = of_nat n"
    and b: "dl_buf dl = h @ pay @ r" "length (dl_buf dl) < 2 ^ 31"
  obtains c b' where "length b' = length (dl_buf dl)" "take (length pay) b' = pay" "header_left b' (length pay)"
    "\<And>dl'. dl' = dl\<lparr>dl_buf := b', dl_offset := of_nat (length pay), dl_file_size := of_nat n,
        dl_progress := dl_progress dl + of_nat (length pay), dl_connection_close := c, dl_has_header := True\<rparr> \<Longrightarrow>
      http_parse k dl (length h + length pay) = Some (if whole k dl' then 0 else 1, dl')"
proof -
  let ?m = "length h + length pay"
  define dl0 where "dl0 = dl\<lparr>dl_offset := dl_offset dl + of_nat ?m\<rparr>"
  have "use_range k dl0" "dl_buf dl0 = h @ pay @ r" "dl_file_size dl0 = 0 \<or> dl_file_size dl0 = of_nat n"
    using assms by (simp_all add: dl0_def use_range_def)
  from http_header_parse_ok [OF h this] obtain c where c: "http_header_parse k dl0 = Some (0, length h,
    dl0\<lparr>dl_buf := map tolower h @ pay @ r, dl_file_size := of_nat n, dl_connection_close := c, dl_has_header := True\<rparr>)"
    (is "_ = Some (0, _, ?d)") .
  have lens: "?m < 2 ^ 31" using b by simp
  have off: "dl_offset ?d = of_nat ?m" using st(2) by (simp add: dl0_def)
  have "unat (of_nat ?m :: u32) = ?m" using lens by (intro unat_of_nat_id) simp
  then have un: "unat (of_nat (length h) + of_nat (length pay) :: u32) = ?m" "unat (of_nat (length h) :: u32) = length h"
    "unat (of_nat (length pay) :: u32) = length pay" using lens by (simp_all add: unat_of_nat_id)
  have sub: "of_nat ?m - of_nat (length h) = (of_nat (length pay) :: u32)" by simp
  define b' where "b' = (if pay = [] then map tolower h @ r else pay @ drop (length pay) (map tolower h @ pay @ r))"
  have tp: "take_payload (length h) ?d = Some (?d\<lparr>dl_buf := b', dl_offset := of_nat (length pay)\<rparr>)"
  proof (cases "pay = []")
    case True
    then show ?thesis using off by (simp add: take_payload_def b'_def dl0_def)
  next
    case False
    have "(of_nat ?m :: u32) \<noteq> of_nat (length h)"
    proof
      assume "(of_nat ?m :: u32) = of_nat (length h)"
      then have "unat (of_nat (length h) + of_nat (length pay) :: u32) = unat (of_nat (length h) :: u32)"
        unfolding of_nat_add by (rule arg_cong)
      then show False using un(1,2) False by simp
    qed
    then show ?thesis using off un sub False by (simp add: take_payload_def b'_def rd_bytes_def wr_bytes_def dl0_def)
  qed
  have mn: "min (of_nat (length pay)) (of_nat (length h) + of_nat (length pay)) = (of_nat (length pay) :: u32)"
    using un by (simp add: min_def word_le_nat_alt)
  show thesis
  proof (rule that [of b' c])
    have "length (pay @ drop (length pay) x) = length x" if "length pay \<le> length x" for x :: bytes
      using that by simp
    from this [of "map tolower h @ pay @ r"] show "length b' = length (dl_buf dl)" using b by (auto simp: b'_def)
    show "take (length pay) b' = pay" by (simp add: b'_def)
    show "header_left b' (length pay)"
      using range_header_length [OF h(1)] by (auto simp: header_left_def b'_def nth_append tolower_idem)
    fix dl' assume d: "dl' = dl\<lparr>dl_buf := b', dl_offset := of_nat (length pay), dl_file_size := of_nat n,
        dl_progress := dl_progress dl + of_nat (length pay), dl_connection_close := c, dl_has_header := True\<rparr>"
    have hh: "\<not> dl_has_header dl0" using st by (simp add: dl0_def)
    show "http_parse k dl ?m = Some (if whole k dl' then 0 else 1, dl')"
      unfolding http_parse_def Let_def dl0_def [symmetric]
      using hh by (simp add: c tp d whole_def) (simp add: dl0_def mn)
  qed
qed

section \<open>The contract with an application\<close>

text \<open>
  A client that is connected to \<^verbatim>\<open>host\<close>, or has lost the connection, while \<^verbatim>\<open>file\<close> is downloaded.
\<close>

definition client_ok :: "dl_kconfig \<Rightarrow> bytes \<Rightarrow> bytes \<Rightarrow> download_client \<Rightarrow> bool" where
  "client_ok k host file dl \<longleftrightarrow> length (dl_buf dl) = BUF_SIZE k \<and> dl_host dl = host \<and> dl_file dl = file \<and>
     (dl_proto dl = IPPROTO_TCP \<or> dl_proto dl = IPPROTO_TLS_1_2) \<and>
     unat (frag_size_override (dl_config dl)) \<le> BUF_SIZE k"

text \<open>
  \<^verbatim>\<open>holds s L\<close>: the application has kept exactly the bytes \<^verbatim>\<open>L\<close>; \<^verbatim>\<open>idle s\<close>: it has no download.  A running download of the file
  \<^verbatim>\<open>F\<close>: what is kept and what waits in the buffer is the part of the file that \<^verbatim>\<open>progress\<close> counts, and
  what the socket still delivers goes on there, or is an answer that starts there.
\<close>

definition running_ok :: "bytes \<Rightarrow> download_client \<Rightarrow> bool" where
  "running_ok F dl \<longleftrightarrow> unat (dl_progress dl) < length F \<and> (dl_file_size dl = 0 \<or> dl_file_size dl = of_nat (length F))"

fun client_at :: "dl_kconfig \<Rightarrow> bytes \<Rightarrow> ('s \<Rightarrow> bytes \<Rightarrow> bool) \<Rightarrow> ('s \<Rightarrow> bool) \<Rightarrow> thread_pc \<Rightarrow> download_client \<Rightarrow> 's \<Rightarrow> bool" where
  "client_at k F holds idle At_recv dl s \<longleftrightarrow> running_ok F dl \<and>
     (let rest = drop (unat (dl_progress dl)) F
      in if dl_has_header dl then
           dl_file_size dl = of_nat (length F) \<and> unat (dl_offset dl) < unat (frag_size k dl) \<and>
           (\<exists>L. holds s L \<and> L @ take (unat (dl_offset dl)) (dl_buf dl) = take (unat (dl_progress dl)) F) \<and>
           (\<exists>m. dl_inflight dl = take m rest) \<and> header_left (dl_buf dl) (unat (dl_offset dl)) \<and>
           unat (dl_offset dl) + length (dl_inflight dl) \<le> unat (frag_size k dl)
         else
           dl_offset dl = 0 \<and> holds s (take (unat (dl_progress dl)) F) \<and>
           (dl_inflight dl = [] \<or>
            (\<exists>h m. range_header (length F) h \<and> dl_inflight dl = h @ take m rest \<and> m \<le> unat (frag_size k dl))))"
| "client_at k F holds idle (At_send len) dl s \<longleftrightarrow>
     running_ok F dl \<and> holds s (take (unat (dl_progress dl)) F) \<and> dl_inflight dl = []"
| "client_at k F holds idle Suspended dl s \<longleftrightarrow> dl_inflight dl = [] \<and> idle s"

definition hung_up :: "download_client \<Rightarrow> download_client" where
  "hung_up dl = dl\<lparr>dl_fd := -1, dl_inflight := []\<rparr>"

text \<open>
  What a call of \<^verbatim>\<open>recv\<close> can return: at most what has come and what there is room for; and the peer's
  header comes in one piece.
\<close>

definition recv_ok :: "dl_kconfig \<Rightarrow> download_client \<Rightarrow> recv_result \<Rightarrow> bool" where
  "recv_ok k dl r \<longleftrightarrow> (case r of
     Got n \<Rightarrow> 0 < n \<and> n \<le> BUF_SIZE k - unat (dl_offset dl) \<and> n \<le> length (dl_inflight dl) \<and>
       (dl_has_header dl \<or> strstr_at (take n (dl_inflight dl)) (CRLF @ CRLF) 0 \<noteq> None)
   | _ \<Rightarrow> True)"

text \<open>
  The build and the address: range requests, a fragment fits the buffer and a request too, and the host
  is named with HTTP or without a protocol, with no port or with one that is read inside its text.
\<close>

definition client_config :: "dl_kconfig \<Rightarrow> bytes \<Rightarrow> bytes \<Rightarrow> bool" where
  "client_config k host file \<longleftrightarrow> RANGE_REQUESTS k \<and>
     0 < HTTP_FRAG_SIZE k \<and> HTTP_FRAG_SIZE k \<le> BUF_SIZE k \<and> BUF_SIZE k < 2 ^ 16 \<and>
     MAX_HOSTNAME_SIZE k + MAX_FILENAME_SIZE k + 90 \<le> BUF_SIZE k \<and> 0 \<notin> set file \<and>
     url_parse_proto host \<in> {None, Some (IPPROTO_TCP, SOCK_STREAM), Some (IPPROTO_TLS_1_2, SOCK_STREAM)} \<and>
     url_parse_port host \<noteq> None"

lemma url_parse_host_text:
  assumes "url_parse_host u n = (0, h)"
  shows "0 \<notin> set h" "length h < n"
proof -
  obtain c e where h: "h = cstr (take (e - c) (drop c (u @ [0])) @ [0])" "e - c + 1 \<le> n"
    using assms by (auto simp: url_parse_host_def Let_def E2BIG_def split: if_splits)
  show "0 \<notin> set h" unfolding h(1) by (rule cstr_no_nul)
  have "cstr (x @ [0]) = takeWhile (\<lambda>c. c \<noteq> 0) x" for x by (induction x) (auto simp: cstr_def)
  then have "length h \<le> length (take (e - c) (drop c (u @ [0])))" unfolding h(1) by (simp only: length_takeWhile_le)
  also have "\<dots> \<le> e - c" by simp
  finally show "length h < n" using h(2) by simp
qed

lemma url_parse_file_text:
  assumes "url_parse_file u n = (0, f)" "0 \<notin> set u"
  shows "0 \<notin> set f" "length f < n"
  using assms by (auto simp: url_parse_file_def Let_def E2BIG_def EINVAL_def dest: in_set_dropD split: option.splits if_splits)

text \<open>The peer that serves the file at the address the client has.\<close>

definition peer_ok :: "dl_kconfig \<Rightarrow> bytes \<Rightarrow> bytes \<Rightarrow> bytes \<Rightarrow> sockets \<Rightarrow> bool" where
  "peer_ok k F host file net \<longleftrightarrow>
     serves F (snd (url_parse_host host (MAX_HOSTNAME_SIZE k))) (snd (url_parse_file file (MAX_FILENAME_SIZE k))) net"

lemma range_end_bounds:
  assumes "0 < unat (frag_size k dl)" "unat (frag_size k dl) < 2 ^ 16" "unat (dl_progress dl) < n" "n < 2 ^ 31"
    and "dl_file_size dl = 0 \<or> dl_file_size dl = of_nat n"
  shows "unat (dl_progress dl) \<le> unat (range_end k dl)"
    "unat (range_end k dl) + 1 - unat (dl_progress dl) \<le> unat (frag_size k dl)"
proof -
  let ?p = "dl_progress dl" and ?g = "frag_size k dl"
  have "?p + ?g - 1 = of_nat (unat ?p + unat ?g - 1)" using assms(1) by (simp add: of_nat_diff)
  moreover have "unat ?p + unat ?g - 1 < 2 ^ LENGTH(32)" using assms by simp
  ultimately have off: "unat (?p + ?g - 1) = unat ?p + unat ?g - 1"
    by (metis unat_of_nat_id)
  have "unat (of_nat n :: u32) = n" using assms(4) by (intro unat_of_nat_id) simp
  then have "unat (range_end k dl) = unat ?p + unat ?g - 1 \<or> unat (range_end k dl) = min (unat ?p + unat ?g - 1) n"
    using off assms(5) by (auto simp: range_end_def Let_def min_def word_le_nat_alt)
  then show "unat ?p \<le> unat (range_end k dl)" "unat (range_end k dl) + 1 - unat ?p \<le> unat ?g"
    using assms by auto
qed

text \<open>The client when \<^verbatim>\<open>recv\<close> has put \<^verbatim>\<open>n\<close> bytes into its buffer.\<close>

definition received :: "nat \<Rightarrow> download_client \<Rightarrow> download_client" where
  "received n dl = dl\<lparr>dl_buf := take (unat (dl_offset dl)) (dl_buf dl) @ take n (dl_inflight dl) @
      drop (unat (dl_offset dl) + n) (dl_buf dl), dl_inflight := drop n (dl_inflight dl)\<rparr>"

lemma received_simps [simp]:
  "dl_buf (received n dl) = take (unat (dl_offset dl)) (dl_buf dl) @ take n (dl_inflight dl) @ drop (unat (dl_offset dl) + n) (dl_buf dl)"
  "dl_inflight (received n dl) = drop n (dl_inflight dl)" "dl_offset (received n dl) = dl_offset dl"
  "dl_file_size (received n dl) = dl_file_size dl" "dl_progress (received n dl) = dl_progress dl"
  "dl_has_header (received n dl) = dl_has_header dl" "dl_proto (received n dl) = dl_proto dl"
  "dl_host (received n dl) = dl_host dl" "dl_file (received n dl) = dl_file dl" "dl_config (received n dl) = dl_config dl"
  "frag_size k (received n dl) = frag_size k dl"
  by (simp_all add: received_def frag_size_def)

text \<open>A client that waits for a download: not connected, or connected to the host with nothing under way.\<close>

definition client_idle :: "dl_kconfig \<Rightarrow> bytes \<Rightarrow> download_client \<Rightarrow> bool" where
  "client_idle k host dl \<longleftrightarrow> length (dl_buf dl) = BUF_SIZE k \<and> dl_inflight dl = [] \<and>
     (dl_fd dl = -1 \<or> client_ok k host (dl_file dl) dl)"

locale download_user =
  fixes k :: dl_kconfig and F host fname :: bytes and cb :: "'s callback" and holds :: "'s \<Rightarrow> bytes \<Rightarrow> bool" and idle :: "'s \<Rightarrow> bool"
  assumes config: "client_config k host fname"
    and size: "F \<noteq> []" "length F < 2 ^ 31"
    and cb_fragment: "\<lbrakk>holds s L; length b = BUF_SIZE k; n \<le> BUF_SIZE k; L @ take n b = take m F; header_left b n\<rbrakk> \<Longrightarrow>
      \<exists>rc dl' s'. cb net (DOWNLOAD_CLIENT_EVT_FRAGMENT b n) dl s = Some (rc, dl', s') \<and>
        (if rc = 0 then dl' = dl \<and> holds s' (L @ take n b) else idle s' \<and> (dl' = dl \<or> dl' = hung_up dl))"
    and cb_error: "\<lbrakk>holds s L; e \<noteq> 0\<rbrakk> \<Longrightarrow>
      \<exists>rc dl' s'. cb net (DOWNLOAD_CLIENT_EVT_ERROR e) dl s = Some (rc, dl', s') \<and>
        (if rc = 0 then (e = - ECONNRESET \<or> e = - ENOTCONN) \<and> dl' = dl \<and> holds s' L else idle s' \<and> (dl' = dl \<or> dl' = hung_up dl))"
    and cb_done: "holds s F \<Longrightarrow>
      \<exists>rc dl' s'. cb net DOWNLOAD_CLIENT_EVT_DONE dl s = Some (rc, dl', s') \<and> idle s' \<and> (dl' = dl \<or> dl' = hung_up dl)"
begin

lemma frag_size_bounds: "client_ok k host fname dl \<Longrightarrow> 0 < unat (frag_size k dl) \<and> unat (frag_size k dl) \<le> BUF_SIZE k"
  using config unat_of_nat_id [of "HTTP_FRAG_SIZE k", where 'a=32]
  by (auto simp: frag_size_def client_ok_def client_config_def unat_gt_0)

text \<open>Hanging up and connecting again keep what the client knows of the download.\<close>

lemma client_connect_ok:
  assumes "dl_inflight dl = []"
  shows "\<exists>rc fd pr. client_connect k net dl host sa = Some (rc, dl\<lparr>dl_fd := fd, dl_proto := pr\<rparr>) \<and>
    (pr = IPPROTO_TCP \<or> pr = IPPROTO_TLS_1_2)"
proof -
  obtain r p where port: "url_parse_port host = Some (r, p)" using config by (auto simp: client_config_def)
  define pr where "pr = (case url_parse_proto host of
      Some (p, t) \<Rightarrow> p | None \<Rightarrow> if sec_tag (dl_config dl) \<noteq> -1 then IPPROTO_TLS_1_2 else IPPROTO_TCP)"
  have pr: "pr = IPPROTO_TCP \<or> pr = IPPROTO_TLS_1_2" using config by (auto simp: pr_def client_config_def)
  have keep: "dl\<lparr>dl_inflight := []\<rparr> = dl" "dl\<lparr>dl_fd := dl_fd dl\<rparr> = dl" using assms(1) by (cases dl; simp)+
  have a: "\<exists>f. dl\<lparr>dl_proto := q\<rparr> = dl\<lparr>dl_fd := f, dl_proto := q\<rparr>" for q by (metis keep(2))
  have b: "\<exists>g. dl\<lparr>dl_proto := q, dl_fd := f\<rparr> = dl\<lparr>dl_fd := g, dl_proto := q\<rparr>" for q f by (intro exI [of _ f]) simp
  have c: "\<exists>g. dl\<lparr>dl_proto := q, dl_fd := f, dl_inflight := []\<rparr> = dl\<lparr>dl_fd := g, dl_proto := q\<rparr>" for q f
    by (intro exI [of _ f]) (use assms(1) in \<open>cases dl; simp\<close>)
  have "\<exists>rc fd. client_connect k net dl host sa = Some (rc, dl\<lparr>dl_fd := fd, dl_proto := pr\<rparr>)"
    unfolding client_connect_def pr_def [symmetric] Let_def port
    using pr by (cases sa) (auto simp: a b c)
  then show ?thesis using pr by blast
qed

lemma connect_ok:
  assumes "dl_inflight dl = []" "dl_fd dl = -1" "client_ok k host fname dl"
  shows "\<exists>rc fd pr. download_client_connect k net dl host (dl_config dl) = Some (rc, dl\<lparr>dl_fd := fd, dl_proto := pr\<rparr>) \<and>
    (pr = IPPROTO_TCP \<or> pr = IPPROTO_TLS_1_2)"
proof -
  have same: "dl\<lparr>dl_config := dl_config dl, dl_host := host\<rparr> = dl" "dl\<lparr>dl_fd := dl_fd dl, dl_proto := dl_proto dl\<rparr> = dl"
    using assms by (cases dl; simp add: client_ok_def)+
  have "\<exists>rc fd pr. download_client_connect k net dl host (dl_config dl) = Some (rc, dl\<lparr>dl_fd := fd, dl_proto := pr\<rparr>) \<and>
    (pr = IPPROTO_TCP \<or> pr = IPPROTO_TLS_1_2)" if "sa = Inr fam" and
    sa: "sa = (if CLIENT_IPV6 k then (case host_lookup k net host AF_INET6 of
               Inr f \<Rightarrow> Inr f | Inl _ \<Rightarrow> host_lookup k net host AF_INET) else host_lookup k net host AF_INET)" for sa fam
  proof -
    obtain rc fd pr where c: "client_connect k net dl host fam = Some (rc, dl\<lparr>dl_fd := fd, dl_proto := pr\<rparr>)"
      "pr = IPPROTO_TCP \<or> pr = IPPROTO_TLS_1_2"
      using client_connect_ok [of dl net fam] assms by (auto simp: client_ok_def)
    then show ?thesis
      using assms that unfolding download_client_connect_def sa [symmetric] Let_def same
      by (auto simp: client_ok_def)
  qed
  moreover have "\<exists>rc fd pr. download_client_connect k net dl host (dl_config dl) = Some (rc, dl\<lparr>dl_fd := fd, dl_proto := pr\<rparr>) \<and>
    (pr = IPPROTO_TCP \<or> pr = IPPROTO_TLS_1_2)" if "sa = Inl err" and
    sa: "sa = (if CLIENT_IPV6 k then (case host_lookup k net host AF_INET6 of
               Inr f \<Rightarrow> Inr f | Inl _ \<Rightarrow> host_lookup k net host AF_INET) else host_lookup k net host AF_INET)" for sa err
    using assms that same(2) unfolding download_client_connect_def sa [symmetric] Let_def
    by (auto simp: client_ok_def intro!: exI [of _ "dl_fd dl"] exI [of _ "dl_proto dl"])
  ultimately show ?thesis by (metis sum.exhaust)
qed

lemma reconnect_ok:
  assumes "client_ok k host fname dl" "dl_inflight dl = []"
  obtains rc fd pr where "reconnect k net dl = Some (rc, dl\<lparr>dl_fd := fd, dl_proto := pr\<rparr>)"
    "client_ok k host fname (dl\<lparr>dl_fd := fd, dl_proto := pr\<rparr>)"
proof -
  have same: "dl\<lparr>dl_fd := dl_fd dl, dl_proto := dl_proto dl\<rparr> = dl" by (cases dl) simp
  let ?h = "dl\<lparr>dl_fd := -1, dl_inflight := []\<rparr>"
  have h: "dl\<lparr>dl_inflight := []\<rparr> = dl" using assms(2) by (cases dl) simp
  have "client_ok k host fname ?h" using assms(1) by (simp add: client_ok_def)
  from connect_ok [OF _ _ this, of net] have c: "\<exists>rc fd pr. download_client_connect k net ?h host (dl_config dl) =
      Some (rc, dl\<lparr>dl_fd := fd, dl_proto := pr\<rparr>) \<and> (pr = IPPROTO_TCP \<or> pr = IPPROTO_TLS_1_2)"
    by (simp add: h)
  have host: "dl_host dl = host" using assms(1) by (simp add: client_ok_def)
  have "\<exists>rc fd pr. reconnect k net dl = Some (rc, dl\<lparr>dl_fd := fd, dl_proto := pr\<rparr>) \<and> (pr = IPPROTO_TCP \<or> pr = IPPROTO_TLS_1_2)"
  proof (cases "dl_fd dl < 0 \<or> close_errno net \<noteq> 0")
    case True
    then have "\<exists>rc. reconnect k net dl = Some (rc, dl) \<and> rc \<noteq> 0"
      by (auto simp: reconnect_def download_client_disconnect_def EINVAL_def)
    then show ?thesis using same assms(1) unfolding client_ok_def by metis
  next
    case False
    then show ?thesis using c by (simp add: reconnect_def download_client_disconnect_def host)
  qed
  then show ?thesis using that assms by (auto simp: client_ok_def)
qed

text \<open>A request is answered with the range that begins where the download stands, or it is lost.\<close>

lemma request_ok:
  assumes dl: "client_ok k host fname dl" "running_ok F dl" "dl_inflight dl = []" and peer: "peer_ok k F host fname net"
  obtains rc b i where "request_send k net dl = Some (rc, dl\<lparr>dl_buf := b, dl_inflight := i\<rparr>)" "length b = BUF_SIZE k"
    "rc \<noteq> 0 \<Longrightarrow> i = []"
    "i = [] \<or> (\<exists>h m. range_header (length F) h \<and> i = h @ take m (drop (unat (dl_progress dl)) F) \<and> m \<le> unat (frag_size k dl))"
proof -
  have proto: "request_send k net dl = http_get_request_send k net dl" using dl(1) by (auto simp: request_send_def client_ok_def)
  have rg: "use_range k dl" using config by (simp add: use_range_def client_config_def)
  have buf: "length (dl_buf dl) = BUF_SIZE k" "dl_host dl = host" "dl_file dl = fname" using dl(1) by (auto simp: client_ok_def)
  have keep: "dl\<lparr>dl_buf := dl_buf dl, dl_inflight := []\<rparr> = dl" using dl(3) by (cases dl) simp
  have keep2: "dl\<lparr>dl_buf := b, dl_inflight := []\<rparr> = dl\<lparr>dl_buf := b\<rparr>" for b using dl(3) by (cases dl) simp
  obtain e1 h where h: "url_parse_host host (MAX_HOSTNAME_SIZE k) = (e1, h)" by fastforce
  obtain e2 f where f: "url_parse_file fname (MAX_FILENAME_SIZE k) = (e2, f)" by fastforce
  show thesis
  proof (cases "e1 \<noteq> 0 \<or> e2 \<noteq> 0")
    case True
    then have "\<exists>rc. http_get_request_send k net dl = Some (rc, dl)"
      unfolding http_get_request_send_def buf h f by auto
    then obtain rc where "http_get_request_send k net dl = Some (rc, dl)" ..
    then show thesis by (intro that [of rc "[]" "dl_buf dl"]) (simp_all only: keep proto buf(1) simp_thms)
  next
    case False
    then have h0: "url_parse_host host (MAX_HOSTNAME_SIZE k) = (0, h)" and f0: "url_parse_file fname (MAX_FILENAME_SIZE k) = (0, f)"
      using h f by auto
    have z: "0 \<notin> set fname" using config by (simp add: client_config_def)
    let ?p = "unat (dl_progress dl)" and ?q = "unat (range_end k dl)"
    note nuls = url_parse_host_text [OF h0] url_parse_file_text [OF f0 z]
    have fmt: "c_format GET_HTTPS_TEMPLATE [FmtS (f @ [0]), FmtS (h @ [0]), FmtU ?p, FmtU ?q] = Some (range_request h f ?p ?q)"
      using nuls by (intro c_format_range)
    have "?p < 2 ^ 32" "?q < 2 ^ 32" using unsigned_less [of "dl_progress dl"] unsigned_less [of "range_end k dl"] by simp_all
    from length_range_request [OF this, of h f] nuls config
    have len: "length (range_request h f ?p ?q) < BUF_SIZE k" by (simp add: client_config_def)
    let ?b = "range_request h f ?p ?q @ 0 # drop (length (range_request h f ?p ?q) + 1) (dl_buf dl)"
    have pr: "snprintf (dl_buf dl) 0 (BUF_SIZE k) GET_HTTPS_TEMPLATE [FmtS (f @ [0]), FmtS (h @ [0]), FmtU ?p, FmtU ?q] =
        Some (length (range_request h f ?p ?q), ?b)"
      using snprintf_text [OF fmt len buf(1) [symmetric]] by simp
    have lb: "length ?b = BUF_SIZE k" using len buf by simp
    let ?err = "socket_send net dl (length (range_request h f ?p ?q))"
    have res: "http_get_request_send k net dl =
        (if ?err \<noteq> 0 then Some (?err, dl\<lparr>dl_buf := ?b\<rparr>)
         else Some (0, dl\<lparr>dl_buf := ?b, dl_inflight := answer net (range_request h f ?p ?q)\<rparr>))"
      unfolding http_get_request_send_def buf h0 f0 using rg pr len dl(3) by (simp add: Let_def)
    show thesis
    proof (cases "?err = 0")
      case False
      then show thesis using that [of ?err "[]" ?b] lb res proto keep2 by simp
    next
      case True
      have run: "?p < length F" "dl_file_size dl = 0 \<or> dl_file_size dl = of_nat (length F)" using dl(2) by (auto simp: running_ok_def)
      have fr: "0 < unat (frag_size k dl)" "unat (frag_size k dl) < 2 ^ 16"
        using frag_size_bounds [OF dl(1)] config by (auto simp: client_config_def)
      note q = range_end_bounds [OF fr run(1) size(2) run(2)]
      have "answer net (range_request h f ?p ?q) = [] \<or>
         (\<exists>g. range_header (length F) g \<and> answer net (range_request h f ?p ?q) = g @ take (?q + 1 - ?p) (drop ?p F))"
        using peer run(1) q(1) unfolding peer_ok_def serves_def h0 f0 by simp
      then show thesis
        using that [of 0 "answer net (range_request h f ?p ?q)" ?b] lb res proto True q(2) by auto
    qed
  qed
qed

text \<open>After a lost connection the download is asked for again, or it has ended.\<close>

lemma retry_ok:
  assumes "client_ok k host fname dl" "running_ok F dl" "dl_inflight dl = []" "holds s (take (unat (dl_progress dl)) F)"
  obtains pc' dl' s' where "retry k cb net len dl s = Some (pc', dl', s')" "client_ok k host fname dl'"
    "client_at k F holds idle pc' dl' s'" "pc' = Suspended \<or> pc' = At_send len"
proof -
  obtain rc dl1 s1 where e: "cb net (DOWNLOAD_CLIENT_EVT_ERROR (- ECONNRESET)) dl s = Some (rc, dl1, s1)"
    "if rc = 0 then dl1 = dl \<and> holds s1 (take (unat (dl_progress dl)) F) else idle s1 \<and> (dl1 = dl \<or> dl1 = hung_up dl)"
    using cb_error [OF assms(4), of "- ECONNRESET" net dl] by (auto simp: ECONNRESET_def split: if_splits)
  show thesis
  proof (cases "rc = 0")
    case False
    then show thesis using that [of Suspended dl1 s1] e assms
      by (auto simp: retry_def error_evt_send_def client_ok_def hung_up_def)
  next
    case True
    then have d1: "dl1 = dl" and h1: "holds s1 (take (unat (dl_progress dl)) F)" using e(2) by auto
    obtain rc' fd pr where r: "reconnect k net dl = Some (rc', dl\<lparr>dl_fd := fd, dl_proto := pr\<rparr>)"
      "client_ok k host fname (dl\<lparr>dl_fd := fd, dl_proto := pr\<rparr>)" (is "client_ok _ _ _ ?d")
      using reconnect_ok [OF assms(1,3)] .
    obtain rc2 dl2 s2 where f: "cb net (DOWNLOAD_CLIENT_EVT_ERROR (- EHOSTDOWN)) ?d s1 = Some (rc2, dl2, s2)"
      "idle s2" "dl2 = ?d \<or> dl2 = hung_up ?d"
      using cb_error [OF h1, of "- EHOSTDOWN" net ?d] by (auto simp: EHOSTDOWN_def ECONNRESET_def ENOTCONN_def split: if_splits)
    show thesis
    proof (cases "rc' = 0")
      case True
      then show thesis using that [of "At_send len" ?d s1] r e(1) \<open>rc = 0\<close> d1 h1 assms(2,3)
        by (simp add: retry_def error_evt_send_def running_ok_def)
    next
      case False
      then show thesis using that [of Suspended dl2 s2] r e(1) \<open>rc = 0\<close> d1 f assms(3)
        by (auto simp: retry_def error_evt_send_def client_ok_def hung_up_def)
    qed
  qed
qed

lemma thread_send_ok:
  assumes "client_ok k host fname dl" "client_at k F holds idle (At_send len) dl s" "peer_ok k F host fname net"
  obtains pc' dl' s' where "thread_send k cb net len dl s = Some (pc', dl', s')" "client_ok k host fname dl'"
    "client_at k F holds idle pc' dl' s'"
proof -
  let ?d = "dl\<lparr>dl_offset := 0, dl_has_header := False\<rparr>"
  have d: "client_ok k host fname ?d" "running_ok F ?d" "dl_inflight ?d = []" "holds s (take (unat (dl_progress dl)) F)"
    using assms(1,2) by (auto simp: client_ok_def running_ok_def)
  obtain rc b i where q: "request_send k net ?d = Some (rc, ?d\<lparr>dl_buf := b, dl_inflight := i\<rparr>)" "length b = BUF_SIZE k"
    "rc \<noteq> 0 \<Longrightarrow> i = []"
    "i = [] \<or> (\<exists>h m. range_header (length F) h \<and> i = h @ take m (drop (unat (dl_progress dl)) F) \<and> m \<le> unat (frag_size k dl))"
    by (rule request_ok [OF d(1-3) assms(3)]) (simp add: frag_size_upd(2,5) download_client.update_convs)
  let ?e = "?d\<lparr>dl_buf := b, dl_inflight := i\<rparr>"
  have e: "client_ok k host fname ?e" "running_ok F ?e" using d q(2) by (auto simp: client_ok_def running_ok_def)
  have step: "thread_send k cb net len dl s = (if rc \<noteq> 0 then retry k cb net len ?e s else Some (At_recv, ?e, s))"
    using config q(1) by (simp add: thread_send_def client_config_def)
  show thesis
  proof (cases "rc = 0")
    case True
    then show thesis using that [of At_recv ?e s] step e q(4) d(4) by (auto simp: Let_def)
  next
    case False
    have "dl_inflight ?e = []" "holds s (take (unat (dl_progress ?e)) F)" using q(3) False d(4) by simp_all
    from retry_ok [OF e this, of net len] show thesis using that step False by metis
  qed
qed

text \<open>The connection is lost in the middle of a fragment or between two.\<close>

lemma thread_lost_ok:
  assumes dl: "client_ok k host fname dl" and at: "client_at k F holds idle At_recv dl s" and fl: "dl_inflight dl = []"
  obtains pc' dl' s' where "thread_lost k cb net len e dl s = Some (pc', dl', s')" "client_ok k host fname dl'"
    "client_at k F holds idle pc' dl' s'"
proof -
  let ?part = "take (unat (dl_progress dl)) F"
  have run: "running_ok F dl" using at by simp
  have "\<exists>rc dl1 s1. (if dl_offset dl > 0 \<and> dl_has_header dl then fragment_evt_send k cb net dl s else Some (0, dl, s)) =
      Some (rc, dl1, s1) \<and>
      (if rc = 0 then dl1 = dl \<and> holds s1 ?part else idle s1 \<and> (dl1 = dl \<or> dl1 = hung_up dl))"
  proof (cases "dl_offset dl > 0 \<and> dl_has_header dl")
    case True
    then obtain L where l: "holds s L" "L @ take (unat (dl_offset dl)) (dl_buf dl) = ?part"
      and left: "header_left (dl_buf dl) (unat (dl_offset dl))"
      and o: "unat (dl_offset dl) < unat (frag_size k dl)" using at by (auto simp: Let_def)
    then have n: "unat (dl_offset dl) \<le> BUF_SIZE k" using frag_size_bounds [OF dl] by simp
    have b: "length (dl_buf dl) = BUF_SIZE k" using dl by (simp add: client_ok_def)
    have e: "(if dl_offset dl > 0 \<and> dl_has_header dl then fragment_evt_send k cb net dl s else Some (0, dl, s)) =
        cb net (DOWNLOAD_CLIENT_EVT_FRAGMENT (dl_buf dl) (unat (dl_offset dl))) dl s"
      using True n by (simp add: fragment_evt_send_def)
    show ?thesis unfolding e using cb_fragment [OF l(1) b n l(2) left, of net dl] unfolding l(2) .
  next
    case False
    then have "dl_has_header dl \<Longrightarrow> dl_offset dl = 0" by (simp add: word_gt_0)
    then have "holds s ?part" using at by (auto simp: Let_def split: if_splits)
    then show ?thesis using False by auto
  qed
  then obtain rc dl1 s1 where f: "(if dl_offset dl > 0 \<and> dl_has_header dl then fragment_evt_send k cb net dl s else Some (0, dl, s)) =
      Some (rc, dl1, s1)"
    "if rc = 0 then dl1 = dl \<and> holds s1 ?part else idle s1 \<and> (dl1 = dl \<or> dl1 = hung_up dl)" by blast
  have step: "thread_lost k cb net len e dl s =
      (if rc \<noteq> 0 then Some (Suspended, dl1, s1)
       else if len = -1 \<and> e = ETIMEDOUT then Some (At_send len, dl1, s1) else retry k cb net len dl1 s1)"
    by (simp add: thread_lost_def f(1))
  show thesis
  proof (cases "rc = 0")
    case False
    then show thesis using that [of Suspended dl1 s1] step f(2) dl fl by (auto simp: client_ok_def hung_up_def)
  next
    case True
    then have h: "dl1 = dl" "holds s1 ?part" using f(2) by auto
    show thesis
    proof (cases "len = -1 \<and> e = ETIMEDOUT")
      case True
      then show thesis using that [of "At_send len" dl s1] step h dl fl run \<open>rc = 0\<close> by simp
    next
      case False
      obtain pc' dl' s' where r: "retry k cb net len dl s1 = Some (pc', dl', s')" "client_ok k host fname dl'"
        "client_at k F holds idle pc' dl' s'" using retry_ok [OF dl run fl h(2)] by metis
      have "thread_lost k cb net len e dl s = Some (pc', dl', s')" using step True False r(1) h(1) by auto
      then show thesis using that r(2,3) by blast
    qed
  qed
qed

text \<open>What \<^verbatim>\<open>http_parse\<close> has added to the buffer is the next part of the file.\<close>

lemma thread_data_ok:
  assumes dl: "client_ok k host fname dl1" and parsed: "http_parse k dl n = Some (if whole k dl1 then 0 else 1, dl1)"
    and proto: "dl_proto dl = dl_proto dl1"
    and head: "dl_has_header dl1" "dl_file_size dl1 = of_nat (length F)" "unat (dl_progress dl1) \<le> length F"
    and part: "holds s L" "L @ take (unat (dl_offset dl1)) (dl_buf dl1) = take (unat (dl_progress dl1)) F"
      "header_left (dl_buf dl1) (unat (dl_offset dl1))"
    and fl: "dl_inflight dl1 = take m (drop (unat (dl_progress dl1)) F)"
      "unat (dl_offset dl1) + length (dl_inflight dl1) \<le> unat (frag_size k dl1)"
  obtains pc' dl' s' where "thread_data k cb net n dl s = Some (pc', dl', s')" "client_ok k host fname dl'"
    "client_at k F holds idle pc' dl' s'"
proof -
  have un: "unat (of_nat (length F) :: u32) = length F" using size(2) by (intro unat_of_nat_id) simp
  have eq: "dl_progress dl1 = dl_file_size dl1 \<longleftrightarrow> unat (dl_progress dl1) = length F"
    unfolding head(2) using un by (simp add: word_unat_eq_iff)
  have pr: "dl_proto dl = IPPROTO_TCP \<or> dl_proto dl = IPPROTO_TLS_1_2" using dl proto by (auto simp: client_ok_def)
  show thesis
  proof (cases "whole k dl1")
    case False
    then have "client_at k F holds idle At_recv dl1 s" using head part fl eq
      by (auto simp: Let_def running_ok_def whole_def word_less_nat_alt)
    then show thesis using that [of At_recv dl1 s] False parsed pr dl by (auto simp: thread_data_def)
  next
    case True
    have none: "dl_inflight dl1 = []"
    proof (cases "unat (dl_progress dl1) = length F")
      case True
      then show ?thesis using fl(1) by simp
    next
      case False
      then have "unat (frag_size k dl1) \<le> unat (dl_offset dl1)" using True eq by (simp add: whole_def word_less_nat_alt)
      then have "length (dl_inflight dl1) = 0" using fl(2) by linarith
      then show ?thesis by simp
    qed
    have b: "length (dl_buf dl1) = BUF_SIZE k" using dl by (simp add: client_ok_def)
    have o: "unat (dl_offset dl1) \<le> BUF_SIZE k" using fl(2) frag_size_bounds [OF dl] by simp
    obtain rc dl2 s2 where f: "cb net (DOWNLOAD_CLIENT_EVT_FRAGMENT (dl_buf dl1) (unat (dl_offset dl1))) dl1 s = Some (rc, dl2, s2)"
      "if rc = 0 then dl2 = dl1 \<and> holds s2 (take (unat (dl_progress dl1)) F) else idle s2 \<and> (dl2 = dl1 \<or> dl2 = hung_up dl1)"
      using cb_fragment [OF part(1) b o part(2,3), of net dl1] unfolding part(2) by blast
    have step: "thread_data k cb net n dl s =
        (if rc \<noteq> 0 then Some (Suspended, dl2, s2)
         else if dl_progress dl2 = dl_file_size dl2 then do {
           (_, dl3, s3) \<leftarrow> cb net DOWNLOAD_CLIENT_EVT_DONE dl2 s2;
           Some (Suspended, dl3, s3)
         }
         else if dl_connection_close dl2 then do {
           (_, dl3) \<leftarrow> reconnect k net (dl2\<lparr>dl_connection_close := False\<rparr>);
           Some (At_send (int n), dl3, s2)
         }
         else Some (At_send (int n), dl2, s2))"
      using pr parsed True f(1) o by (auto simp: thread_data_def fragment_evt_send_def)
    show thesis
    proof (cases "rc = 0")
      case False
      then show thesis using that [of Suspended dl2 s2] step f(2) dl none by (auto simp: client_ok_def hung_up_def)
    next
      case rc: True
      then have d2: "dl2 = dl1" and h2: "holds s2 (take (unat (dl_progress dl1)) F)" using f(2) by auto
      show thesis
      proof (cases "dl_progress dl1 = dl_file_size dl1")
        case True
        then have "holds s2 F" using h2 eq by simp
        from cb_done [OF this, of net dl1] obtain r dl3 s3 where
          "cb net DOWNLOAD_CLIENT_EVT_DONE dl1 s2 = Some (r, dl3, s3)" "idle s3" "dl3 = dl1 \<or> dl3 = hung_up dl1" by blast
        then show thesis using that [of Suspended dl3 s3] step rc d2 True dl none by (auto simp: client_ok_def hung_up_def)
      next
        case False
        then have run: "running_ok F dl1" using head(2,3) eq by (auto simp: running_ok_def)
        let ?d = "dl1\<lparr>dl_connection_close := False\<rparr>"
        have "client_ok k host fname ?d" "dl_inflight ?d = []" using dl none by (auto simp: client_ok_def)
        from reconnect_ok [OF this, of net] obtain r fd q where r: "reconnect k net ?d = Some (r, ?d\<lparr>dl_fd := fd, dl_proto := q\<rparr>)"
          "client_ok k host fname (?d\<lparr>dl_fd := fd, dl_proto := q\<rparr>)" .
        show thesis
        proof (cases "dl_connection_close dl1")
          case True
          then show thesis
            using that [of "At_send (int n)" "?d\<lparr>dl_fd := fd, dl_proto := q\<rparr>" s2] step rc d2 False r run h2 none
            by (simp add: running_ok_def)
        next
          case no: False
          then show thesis using that [of "At_send (int n)" dl1 s2] step rc d2 False run h2 none dl by simp
        qed
      qed
    qed
  qed
qed

lemma client_bounds:
  assumes "client_ok k host fname dl"
  shows "0 < unat (frag_size k dl)" "unat (frag_size k dl) \<le> BUF_SIZE k" "BUF_SIZE k < 2 ^ 16"
  using frag_size_bounds [OF assms] config by (auto simp: client_config_def)

lemma progress_plus: "unat (dl_progress dl) + m \<le> length F \<Longrightarrow> unat (dl_progress dl + of_nat m) = unat (dl_progress dl) + m"
  using size(2) unat_of_nat_id [of m, where 'a=32] by (simp add: unat_word_ariths)

text \<open>More of the payload, and the first piece of an answer.\<close>

lemma recv_payload_ok:
  assumes dl: "client_ok k host fname dl" and at: "client_at k F holds idle At_recv dl s" and True: "dl_has_header dl"
    and room: "unat (dl_offset dl) < BUF_SIZE k"
    and n: "0 < n" "n \<le> BUF_SIZE k - unat (dl_offset dl)" "n \<le> length (dl_inflight dl)"
  obtains pc' dl' s' where "thread_data k cb net n (received n dl) s = Some (pc', dl', s')" "client_ok k host fname dl'"
    "client_at k F holds idle pc' dl' s'"
proof -
  let ?p = "unat (dl_progress dl)" and ?o = "unat (dl_offset dl)" and ?d = "take n (dl_inflight dl)"
  note bound = client_bounds [OF dl]
  have buf: "length (dl_buf dl) = BUF_SIZE k" using dl by (simp add: client_ok_def)
  have ld: "length ?d = n" using n(3) by simp
  have un: "unat (of_nat n :: u32) = n" using n room bound by (intro unat_of_nat_id) simp
  have run: "?p < length F" "dl_file_size dl = 0 \<or> dl_file_size dl = of_nat (length F)" using at by (auto simp: running_ok_def)
  obtain L m where h: "dl_file_size dl = of_nat (length F)" "?o < unat (frag_size k dl)" "holds s L"
    "L @ take ?o (dl_buf dl) = take ?p F" "dl_inflight dl = take m (drop ?p F)"
    "?o + length (dl_inflight dl) \<le> unat (frag_size k dl)" "header_left (dl_buf dl) ?o"
    using at True by (auto simp: Let_def)
  define dl1 where "dl1 = (received n dl)\<lparr>dl_offset := dl_offset dl + of_nat n, dl_progress := dl_progress dl + of_nat n\<rparr>"
  have nF: "?p + n \<le> length F" using n(3) h(5) run(1) by auto
  have o1: "unat (dl_offset dl1) = ?o + n" using un n room bound by (simp add: dl1_def unat_word_ariths)
  have p1: "unat (dl_progress dl1) = ?p + n" using progress_plus [OF nF] by (simp add: dl1_def)
  have parsed: "http_parse k (received n dl) n = Some (if whole k dl1 then 0 else 1, dl1)"
    using True n room bound by (intro http_parse_more) (simp_all add: dl1_def)
  have part: "L @ take (?o + n) (dl_buf dl1) = take (?p + n) F"
  proof -
    have "take (?o + n) (dl_buf dl1) = take ?o (dl_buf dl) @ ?d" using room buf ld by (simp add: dl1_def)
    moreover have "n \<le> m" using n(3) h(5) by auto
    then have "?d = take n (drop ?p F)" using h(5) by (simp add: min_absorb1)
    ultimately show ?thesis using h(4) by (simp add: take_add flip: append_assoc)
  qed
  have fl: "dl_inflight dl1 = take (m - n) (drop (?p + n) F)" using h(5) by (simp add: dl1_def drop_take add.commute)
  have left: "header_left (dl_buf dl1) (?o + n)"
    using h(7) room buf ld n(2) by (auto simp: header_left_def dl1_def nth_append)
  have c1: "client_ok k host fname dl1" using dl room n buf by (simp add: client_ok_def dl1_def)
  show thesis
    by (rule thread_data_ok [where net = net and m = "m - n" and dl = "received n dl" and L = L, OF c1 parsed _ _ _ _ h(3)])
      (use True h part fl o1 p1 nF n(3) left that in \<open>auto simp: dl1_def\<close>)
qed

lemma recv_header_ok:
  assumes dl: "client_ok k host fname dl" and at: "client_at k F holds idle At_recv dl s" and False: "\<not> dl_has_header dl"
    and room: "unat (dl_offset dl) < BUF_SIZE k"
    and n: "0 < n" "n \<le> BUF_SIZE k - unat (dl_offset dl)" "n \<le> length (dl_inflight dl)"
      "strstr_at (take n (dl_inflight dl)) (CRLF @ CRLF) 0 \<noteq> None"
  obtains pc' dl' s' where "thread_data k cb net n (received n dl) s = Some (pc', dl', s')" "client_ok k host fname dl'"
    "client_at k F holds idle pc' dl' s'"
proof -
  let ?p = "unat (dl_progress dl)" and ?o = "unat (dl_offset dl)" and ?d = "take n (dl_inflight dl)"
  note bound = client_bounds [OF dl]
  have buf: "length (dl_buf dl) = BUF_SIZE k" using dl by (simp add: client_ok_def)
  have ld: "length ?d = n" using n(3) by simp
  have un: "unat (of_nat n :: u32) = n" using n room bound by (intro unat_of_nat_id) simp
  have run: "?p < length F" "dl_file_size dl = 0 \<or> dl_file_size dl = of_nat (length F)" using at by (auto simp: running_ok_def)
  then have "dl_inflight dl \<noteq> []" using n by auto
  then obtain h m where h: "dl_offset dl = 0" "holds s (take ?p F)" "range_header (length F) h"
    "dl_inflight dl = h @ take m (drop ?p F)" "m \<le> unat (frag_size k dl)"
    using at False by (auto simp: Let_def)
  let ?rest = "drop ?p F"
  obtain j where j: "strstr_at ?d (CRLF @ CRLF) 0 = Some j" using n(4) False by auto
  have "strstr_at h (CRLF @ CRLF) 0 = Some (length h - 4)" "4 \<le> length h" using h(3) by (auto simp: range_header_def)
  then have "strstr_at (dl_inflight dl) (CRLF @ CRLF) 0 = Some (length h - 4)" unfolding h(4) by (intro strstr_at_extend)
  moreover have "strstr_at (dl_inflight dl) (CRLF @ CRLF) 0 = Some j"
    using strstr_at_extend [OF j, of "drop n (dl_inflight dl)"] by simp
  ultimately have "length h \<le> n" using strstr_at_length [OF j] ld \<open>4 \<le> length h\<close> by (auto simp: CRLF_def)
  define pay where "pay = take (n - length h) (take m ?rest)"
  have d: "?d = h @ pay" unfolding h(4) pay_def using \<open>length h \<le> n\<close> by simp
  then have np: "n = length h + length pay" using ld by simp
  have pm: "length pay \<le> m" "?p + length pay \<le> length F" using np n(3) h(4) run(1) by auto
  have pay: "pay = take (length pay) ?rest" using pm unfolding pay_def by (simp add: min_def)
  have buf1: "dl_buf (received n dl) = h @ pay @ drop n (dl_buf dl)" using d h(1) by simp
  have lb: "length (dl_buf (received n dl)) = BUF_SIZE k" using room n buf ld by simp
  have pre: "0 < length F" "use_range k (received n dl)" "\<not> dl_has_header (received n dl)" "dl_offset (received n dl) = 0"
    "dl_file_size (received n dl) = 0 \<or> dl_file_size (received n dl) = of_nat (length F)" "length (dl_buf (received n dl)) < 2 ^ 31"
    using size(1) config False h(1) run(2) bound lb by (auto simp: use_range_def client_config_def)
  from http_parse_header [OF h(3) pre(1) size(2) pre(2-5) buf1 pre(6)] obtain b' c where
    b': "length b' = length (dl_buf (received n dl))" "take (length pay) b' = pay" "header_left b' (length pay)" and
    parse: "\<And>dl'. dl' = (received n dl)\<lparr>dl_buf := b', dl_offset := of_nat (length pay), dl_file_size := of_nat (length F),
      dl_progress := dl_progress (received n dl) + of_nat (length pay), dl_connection_close := c, dl_has_header := True\<rparr> \<Longrightarrow>
      http_parse k (received n dl) (length h + length pay) = Some (if whole k dl' then 0 else 1, dl')" by blast
  define dl1 where "dl1 = (received n dl)\<lparr>dl_buf := b', dl_offset := of_nat (length pay), dl_file_size := of_nat (length F),
      dl_progress := dl_progress (received n dl) + of_nat (length pay), dl_connection_close := c, dl_has_header := True\<rparr>"
  have parsed: "http_parse k (received n dl) n = Some (if whole k dl1 then 0 else 1, dl1)" using parse [OF dl1_def] np by simp
  have "length pay \<le> n" using np by simp
  then have o1: "unat (dl_offset dl1) = length pay" using un n room bound unat_of_nat_id [of "length pay", where 'a=32]
    by (simp add: dl1_def)
  have p1: "unat (dl_progress dl1) = ?p + length pay" using progress_plus [OF pm(2)] by (simp add: dl1_def)
  have fl: "dl_inflight dl1 = take (m - length pay) (drop (?p + length pay) F)"
    using np h(4) by (simp add: dl1_def drop_take add.commute)
  have fl2: "unat (dl_offset dl1) + length (dl_inflight dl1) \<le> unat (frag_size k dl1)"
    using fl o1 pm(1) h(5) by (simp add: dl1_def)
  have part: "take ?p F @ take (length pay) (dl_buf dl1) = take (?p + length pay) F"
    using b'(2) pay by (simp add: dl1_def take_add)
  have c1: "client_ok k host fname dl1" using dl b'(1) lb by (simp add: client_ok_def dl1_def)
  show thesis
    by (rule thread_data_ok [where net = net and m = "m - length pay" and dl = "received n dl" and L = "take ?p F", OF c1 parsed _ _ _ _ h(2)])
      (use part fl fl2 o1 p1 pm(2) b'(3) that in \<open>auto simp: dl1_def\<close>)
qed

lemma thread_recv_ok:
  assumes dl: "client_ok k host fname dl" and at: "client_at k F holds idle At_recv dl s" and r: "recv_ok k dl r"
  obtains pc' dl' s' where "thread_recv k cb net r dl s = Some (pc', dl', s')" "client_ok k host fname dl'"
    "client_at k F holds idle pc' dl' s'"
proof -
  let ?p = "unat (dl_progress dl)" and ?o = "unat (dl_offset dl)"
  have bound: "0 < unat (frag_size k dl)" "unat (frag_size k dl) \<le> BUF_SIZE k" "BUF_SIZE k < 2 ^ 16"
    using frag_size_bounds [OF dl] config by (auto simp: client_config_def)
  have room: "?o < BUF_SIZE k" using at bound by (auto simp: Let_def split: if_splits)
  have buf: "length (dl_buf dl) = BUF_SIZE k" using dl by (simp add: client_ok_def)
  note good = that
  have lost: thesis if lost_eq: "thread_recv k cb net r dl s = thread_lost k cb net len e (dl\<lparr>dl_inflight := []\<rparr>) s" for len e
  proof -
    have l: "client_ok k host fname (dl\<lparr>dl_inflight := []\<rparr>)" "dl_inflight (dl\<lparr>dl_inflight := []\<rparr>) = []"
      using dl by (simp_all add: client_ok_def)
    have "client_at k F holds idle At_recv (dl\<lparr>dl_inflight := []\<rparr>) s"
      using at by (auto simp: Let_def running_ok_def intro: exI [of _ "0::nat"] split: if_splits)
    from thread_lost_ok [OF l(1) this l(2)] show thesis
      using good unfolding lost_eq by blast
  qed
  show thesis
  proof (cases r)
    case Closed
    then show thesis using room by (intro lost [of 0 0]) (simp add: thread_recv_def)
  next
    case (Failed e)
    then show thesis using room by (intro lost [of "-1" e]) (simp add: thread_recv_def)
  next
    case (Got n)
    have n: "0 < n" "n \<le> BUF_SIZE k - ?o" "n \<le> length (dl_inflight dl)"
      "dl_has_header dl \<or> strstr_at (take n (dl_inflight dl)) (CRLF @ CRLF) 0 \<noteq> None" using r Got by (auto simp: recv_ok_def)
    have "wr_bytes (dl_buf dl) ?o (take n (dl_inflight dl)) = Some (dl_buf (received n dl))"
      using n room buf by (simp add: wr_bytes_def received_def)
    then have step: "thread_recv k cb net r dl s = thread_data k cb net n (received n dl) s"
      using Got room by (simp add: thread_recv_def received_def)
    show thesis
    proof (cases "dl_has_header dl")
      case True
      show thesis by (rule recv_payload_ok [OF dl at True room n(1-3), of net]) (use good step in simp)
    next
      case False
      then have e: "strstr_at (take n (dl_inflight dl)) (CRLF @ CRLF) 0 \<noteq> None" using n(4) by simp
      show thesis by (rule recv_header_ok [OF dl at False room n(1-3) e, of net]) (use good step in simp)
    qed
  qed
qed

text \<open>Starting a download.\<close>

lemma connect_idle:
  assumes "client_idle k host dl" "unat (frag_size_override cfg) \<le> BUF_SIZE k"
  obtains rc dl' where "download_client_connect k net dl host cfg = Some (rc, dl')" "client_idle k host dl'"
proof (cases "dl_fd dl = -1")
  case False
  then show thesis using that [of 0 dl] assms by (simp add: download_client_connect_def)
next
  case True
  define sa where "sa = (if CLIENT_IPV6 k then (case host_lookup k net host AF_INET6 of
      Inr f \<Rightarrow> Inr f | Inl _ \<Rightarrow> host_lookup k net host AF_INET) else host_lookup k net host AF_INET)"
  show thesis
  proof (cases sa)
    case (Inl err)
    then have "download_client_connect k net dl host cfg = Some (err, dl)"
      unfolding download_client_connect_def sa_def [symmetric] Let_def using True assms(2) by simp
    then show thesis using that assms(1) by blast
  next
    case (Inr fam)
    let ?d = "dl\<lparr>dl_config := cfg, dl_host := host\<rparr>"
    have fl: "dl_inflight ?d = []" "length (dl_buf dl) = BUF_SIZE k" using assms(1) by (simp_all add: client_idle_def)
    obtain rc fd pr where c: "client_connect k net ?d host fam = Some (rc, ?d\<lparr>dl_fd := fd, dl_proto := pr\<rparr>)"
      "pr = IPPROTO_TCP \<or> pr = IPPROTO_TLS_1_2" using client_connect_ok [OF fl(1)] by blast
    have "client_idle k host (?d\<lparr>dl_fd := fd, dl_proto := pr\<rparr>)"
      using c(2) fl assms(2) by (auto simp: client_idle_def client_ok_def)
    moreover have "\<exists>r. download_client_connect k net dl host cfg = Some (r, ?d\<lparr>dl_fd := fd, dl_proto := pr\<rparr>)"
      unfolding download_client_connect_def sa_def [symmetric] Let_def using True assms(2) Inr c(1) by simp
    ultimately show thesis using that by blast
  qed
qed

lemma start_ok:
  assumes wait: "client_idle k host dl" and s: "holds s []" and peer: "peer_ok k F host fname net"
  obtains rc dl' where "download_client_start k net dl fname 0 = Some (rc, dl')"
    "if rc = 0 then client_ok k host fname dl' \<and> client_at k F holds idle At_recv dl' s else client_idle k host dl'"
proof (cases "dl_fd dl < 0")
  case True
  then show thesis using that [of "- ENOTCONN" dl] wait by (simp add: download_client_start_def ENOTCONN_def)
next
  case False
  let ?d = "dl\<lparr>dl_file := fname, dl_file_size := 0, dl_progress := 0, dl_offset := 0, dl_has_header := False\<rparr>"
  have d: "client_ok k host fname ?d" "running_ok F ?d" "dl_inflight ?d = []"
    using wait False size by (auto simp: client_idle_def client_ok_def running_ok_def)
  obtain rc b i where q: "request_send k net ?d = Some (rc, ?d\<lparr>dl_buf := b, dl_inflight := i\<rparr>)" "length b = BUF_SIZE k"
    "rc \<noteq> 0 \<Longrightarrow> i = []"
    "i = [] \<or> (\<exists>h m. range_header (length F) h \<and> i = h @ take m (drop (unat (dl_progress ?d)) F) \<and> m \<le> unat (frag_size k ?d))"
    by (rule request_ok [OF d peer]) blast
  let ?e = "?d\<lparr>dl_buf := b, dl_inflight := i\<rparr>"
  have e: "client_ok k host fname ?e" "running_ok F ?e" using d q(2) by (auto simp: client_ok_def running_ok_def)
  have fr: "frag_size k ?e = frag_size k ?d" by (simp add: frag_size_def)
  have "client_at k F holds idle At_recv ?e s" if "rc = 0"
    using e(2) q(4) s unfolding client_at.simps Let_def fr by (simp add: fr)
  moreover have "client_idle k host ?e" if "rc \<noteq> 0"
    using e(1) q(2,3) that by (simp add: client_idle_def client_ok_def)
  moreover have "download_client_start k net dl fname 0 = Some (rc, ?e)"
    using False q(1) by (simp add: download_client_start_def)
  ultimately show thesis using that e(1) by (metis (full_types))
qed

lemma suspended_idle: "\<lbrakk>client_ok k host fname dl; client_at k F holds idle Suspended dl s\<rbrakk> \<Longrightarrow> client_idle k host dl"
  by (auto simp: client_idle_def client_ok_def)

end

section \<open>A header in two pieces\<close>

text \<open>C40: 
  A header that comes in two pieces is not waited for: the buffer still has the request, whose own empty
  line is found behind the first piece, and the length of the payload wraps around.  The \<^verbatim>\<open>memcpy\<close> of
  almost four gigabytes leaves the buffer.
\<close>

theorem dl_split_header_overruns:
  assumes buf: "dl_buf dl = range_request h f p q @ 0 # r" "length (dl_buf dl) = BUF_SIZE k" "BUF_SIZE k < 2 ^ 16"
    and st: "dl_proto dl = IPPROTO_TCP" "\<not> dl_has_header dl" "dl_offset dl = 0" "dl_file_size dl \<noteq> 0"
    and names: "0 \<notin> set h" "0 \<notin> set f"
    and piece: "d = take n (dl_inflight dl)" "n \<le> length (dl_inflight dl)" "n + 4 \<le> length (range_request h f p q)"
    and head: "take 12 d = asc ''HTTP/1.1 206''" "0 \<notin> set d" "strstr_at d (CRLF @ CRLF) 0 = None"
  shows "thread_recv k cb net (Got n) dl s = None"
proof -
  let ?R = "range_request h f p q"
  have ld: "length d = n" using piece by simp
  have "12 \<le> n" using arg_cong [OF head(1), of length] ld by simp
  define b where "b = d @ drop n ?R @ 0 # r"
  define dl0 where "dl0 = dl\<lparr>dl_buf := b, dl_inflight := drop n (dl_inflight dl), dl_offset := of_nat n\<rparr>"
  obtain R0 where R0: "?R = R0 @ CRLF @ CRLF" using range_request_end by blast
  have R: "0 \<notin> set ?R" using names by (rule range_request_no_nul)
  have "0 \<notin> set (d @ drop n ?R)" using head(2) R by (auto dest: in_set_dropD)
  from cstr_append [OF this, of "r @ mem_store False 4 (dl_offset dl0)"]
  have bt: "buf_text dl0 = d @ drop n ?R" by (simp add: buf_text_def dl0_def b_def)
  have "take 4 (drop (length ?R - 4) ?R) = CRLF @ CRLF" unfolding R0 by (simp add: CRLF_def)
  then have "take 4 (drop (length ?R - 4) (d @ drop n ?R)) = CRLF @ CRLF" using ld piece(3) by (simp add: CRLF_def)
  moreover have l4: "length (CRLF @ CRLF) = 4" by (simp add: CRLF_def)
  moreover have ends: "length ?R - 4 < length (d @ drop n ?R)" using ld piece(3) by simp
  ultimately obtain j where j: "strstr_at (d @ drop n ?R) (CRLF @ CRLF) 0 = Some j"
    using strstr_at_found [OF ends, of "CRLF @ CRLF" 0] unfolding l4 by blast
  have "n < j + 4"
  proof (rule ccontr)
    assume "\<not> n < j + 4"
    then have "strstr_at d (CRLF @ CRLF) 0 = Some j"
      using strstr_at_restrict [OF j] ld \<open>12 \<le> n\<close> unfolding l4 by fastforce
    then show False using head(3) by simp
  qed
  have jR: "j + 4 \<le> length ?R" using strstr_at_length [OF j] ld piece(3) by (simp add: CRLF_def)
  define dl1 where "dl1 = dl0\<lparr>dl_buf := map tolower (take (j + 4) b) @ drop (j + 4) b\<rparr>"
  have lb: "length b = BUF_SIZE k" using buf(1,2) ld piece(3) by (simp add: b_def)
  have lR: "length ?R < BUF_SIZE k" using buf(1,2) by simp
  have t1: "strstr_from (buf_text dl1) 0 (asc ''http/1.1 206'') = Some 0"
  proof -
    have "take 12 b = asc ''HTTP/1.1 206''" using head(1) ld \<open>12 \<le> n\<close> by (simp add: b_def)
    then have "take 12 (dl_buf dl1) = asc ''http/1.1 206''"
      using \<open>n < j + 4\<close> \<open>12 \<le> n\<close> by (simp add: dl1_def take_map min_def tolower_def)
    then obtain r1 where "dl_buf dl1 = asc ''http/1.1 206'' @ r1" by (metis append_take_drop_id)
    then show ?thesis by (simp add: buf_text_def cstr_def strstr_from_def)
  qed
  have p1: "strstr_from (buf_text dl0) 0 (CRLF @ CRLF) = Some j" using j bt by (simp add: strstr_from_def)
  have rd: "rd_bytes (dl_buf dl0) 0 (j + 4) = Some (take (j + 4) b)"
    "wr_bytes (dl_buf dl0) 0 (map tolower (take (j + 4) b)) = Some (map tolower (take (j + 4) b) @ drop (j + 4) b)"
    using jR lR lb by (simp_all add: dl0_def wr_bytes_def min_def)
  obtain dl2 where hp: "http_header_parse k dl0 = Some (0, j + 4, dl2)" and d2: "dl_offset dl2 = of_nat n" "length (dl_buf dl2) = BUF_SIZE k"
  proof (rule that)
    show "http_header_parse k dl0 = Some (0, j + 4,
        (if strstr_from (buf_text dl1) 0 (asc ''connection: close'') \<noteq> None then dl1\<lparr>dl_connection_close := True\<rparr> else dl1)
        \<lparr>dl_has_header := True\<rparr>)"
    proof -
      have "dl1\<lparr>dl_file_size := dl_file_size dl1\<rparr> = dl1" by (cases dl1) simp
      moreover have "dl_file_size dl1 \<noteq> 0" using st(4) by (simp add: dl1_def dl0_def)
      ultimately show ?thesis
        unfolding http_header_parse_def p1 option.case Let_def rd Option.bind.simps dl1_def [symmetric] t1
        by (simp del: asc_Cons)
    qed
  qed (use jR lR lb in \<open>simp_all add: dl1_def dl0_def\<close>)
  have small: "n < 2 ^ LENGTH(32)" "j + 4 < 2 ^ LENGTH(32)" using jR lR buf(3) piece(3) by simp_all
  have un: "unat (of_nat n :: u32) = n" "unat (of_nat (j + 4) :: u32) = j + 4"
    by (rule unat_of_nat_id, rule small)+
  have ne: "(of_nat n :: u32) \<noteq> of_nat (j + 4)" using un \<open>n < j + 4\<close> by (metis less_irrefl)
  have "unat (of_nat n - of_nat (j + 4) :: u32) = 2 ^ 32 + n - (j + 4)"
    using un \<open>n < j + 4\<close> by (simp only: unat_sub_if_size word_size) simp
  then have "BUF_SIZE k < unat (of_nat n - of_nat (j + 4) :: u32)" using jR lR buf(3) by simp
  then have tp: "take_payload (j + 4) dl2 = None"
    using d2 ne unfolding take_payload_def d2(1) by (simp only: if_True if_False rd_bytes_def) simp
  have "wr_bytes (dl_buf dl) (unat (dl_offset dl)) d = Some b"
    using buf(1,2) st(3) ld lR piece(3) by (simp add: wr_bytes_def b_def)
  moreover have "unat (dl_offset dl) < BUF_SIZE k" using st(3) lR by simp
  ultimately show ?thesis using st piece(1) hp tp
    by (simp add: thread_recv_def thread_data_def http_parse_def Let_def flip: dl0_def)
qed

definition split_client :: download_client where
  "split_client = \<lparr>dl_fd = 3, dl_inflight = asc ''HTTP/1.1 206 Partial Content'' @ CRLF @ asc ''Content-Range: /8'' @ CRLF @ CRLF,
     dl_buf = range_request (asc ''h'') (asc ''f'') 0 119 @ 0 # replicate 40 0, dl_offset = 0, dl_file_size = 8, dl_progress = 0,
     dl_host = asc ''h'', dl_file = asc ''f'', dl_config = \<lparr>sec_tag = -1, apn = None, frag_size_override = 0\<rparr>,
     dl_proto = IPPROTO_TCP, dl_has_header = False, dl_connection_close = False\<rparr>"

definition split_kconfig :: dl_kconfig where
  "split_kconfig = \<lparr>BUF_SIZE = length (dl_buf split_client), HTTP_FRAG_SIZE = 64, RANGE_REQUESTS = True, CLIENT_IPV6 = False,
     MAX_HOSTNAME_SIZE = 8, MAX_FILENAME_SIZE = 8, IFNAMSIZ = 16\<rparr>"

theorem dl_split_header_overruns_witness:
  "\<forall>net. thread_recv split_kconfig (\<lambda>net evt dl s. Some (0, dl, s)) net (Got 28) split_client () = None"
proof (rule allI, rule dl_split_header_overruns)
  show "dl_buf split_client = range_request (asc ''h'') (asc ''f'') 0 119 @ 0 # replicate 40 0"
    by (simp add: split_client_def)
  show "length (dl_buf split_client) = BUF_SIZE split_kconfig" by (simp add: split_kconfig_def)
  have "length (dl_buf split_client) = 113" by code_simp
  then show "BUF_SIZE split_kconfig < 2 ^ 16" by (simp add: split_kconfig_def)
  show "dl_proto split_client = IPPROTO_TCP" "\<not> dl_has_header split_client" "dl_offset split_client = 0" "dl_file_size split_client \<noteq> 0"
    by (simp_all add: split_client_def)
  show "0 \<notin> set (asc ''h'')" "0 \<notin> set (asc ''f'')" by simp_all
  show "take 28 (dl_inflight split_client) = take 28 (dl_inflight split_client)" by (rule refl)
  show "28 \<le> length (dl_inflight split_client)" by code_simp
  show "28 + 4 \<le> length (range_request (asc ''h'') (asc ''f'') 0 119)" by code_simp
  show "take 12 (take 28 (dl_inflight split_client)) = asc ''HTTP/1.1 206''" by code_simp
  show "0 \<notin> set (take 28 (dl_inflight split_client))" by code_simp
  show "strstr_at (take 28 (dl_inflight split_client)) (CRLF @ CRLF) 0 = None" by code_simp
qed

end
