(* ===== verification/Fota.thy ===== *)
theory Fota
  imports Download
begin

text \<open>
  The download of an update (\<^verbatim>\<open>src/nrf/subsys/net/lib/fota_download/src/fota_download.c\<close>) into a target
  (\<^verbatim>\<open>src/nrf/subsys/dfu/src/dfu_target.c\<close>, \<^verbatim>\<open>dfu_target_mcuboot.c\<close>, built without saved progress).  The
  flash image writer of the operating system and the target of the modem are records of functions; the
  application is a callback over its state.  The theory gives the download client of \<open>Download\<close> the
  contract it needs.
\<close>

section \<open>Targets\<close>

definition DFU_TARGET_IMAGE_TYPE_MCUBOOT :: int where "DFU_TARGET_IMAGE_TYPE_MCUBOOT = 1"
definition DFU_TARGET_IMAGE_TYPE_MODEM_DELTA :: int where "DFU_TARGET_IMAGE_TYPE_MODEM_DELTA = 2"
definition MCUBOOT_HEADER_MAGIC :: u32 where "MCUBOOT_HEADER_MAGIC = 0x96f3b83d"
definition MODEM_MAGIC :: u32 where "MODEM_MAGIC = 0x7544656d"
definition MIN_SIZE_IDENTIFY_BUF :: nat where "MIN_SIZE_IDENTIFY_BUF = 32"

datatype dfu_target = Target_mcuboot | Target_modem
datatype dfu_target_evt_id = DFU_TARGET_EVT_TIMEOUT | DFU_TARGET_EVT_ERASE_DONE

text \<open>The image writer of the operating system; \<^verbatim>\<open>boot_request_upgrade\<close> marks the written slot for a test boot.\<close>

record 'i flash_ops =
  flash_img_init :: "'i \<Rightarrow> int \<times> 'i"
  flash_img_bytes_written :: "'i \<Rightarrow> u32"
  flash_img_buffered_write :: "'i \<Rightarrow> bytes \<Rightarrow> bool \<Rightarrow> int \<times> 'i"
  boot_request_upgrade :: "'i \<Rightarrow> int"

text \<open>The target of the modem; its initialisation can take long and reports events.\<close>

record 'm modem_ops =
  modem_init :: "u32 \<Rightarrow> 'm \<Rightarrow> int \<times> dfu_target_evt_id list \<times> 'm"
  modem_offset :: "'m \<Rightarrow> u32"
  modem_write :: "bytes \<Rightarrow> 'm \<Rightarrow> int \<times> 'm"
  modem_done :: "bool \<Rightarrow> 'm \<Rightarrow> int \<times> 'm"

record ('i, 'm) dfu_env =
  flash :: "'i flash_ops"
  modem :: "'m modem_ops"
  DFU_TARGET_MODEM :: bool
  PM_MCUBOOT_SECONDARY_SIZE :: u32

text \<open>The state of the targets; \<^verbatim>\<open>upgrades\<close> keeps what was in the slot at each requested upgrade.\<close>

record ('i, 'm) dfu =
  current_target :: "dfu_target option"
  flash_img :: 'i
  modem_state :: 'm
  upgrades :: "'i list"

definition le32_at :: "bytes \<Rightarrow> nat \<Rightarrow> u32 option" where
  "le32_at buf off = map_option (\<lambda>b. be_word (rev b)) (rd_bytes buf off 4)"

definition dfu_target_mcuboot_identify :: "bytes \<Rightarrow> bool option" where
  "dfu_target_mcuboot_identify buf = map_option (\<lambda>w. w = MCUBOOT_HEADER_MAGIC) (le32_at buf 0)"

definition dfu_target_modem_identify :: "bytes \<Rightarrow> bool option" where
  "dfu_target_modem_identify buf = map_option (\<lambda>w. w = MODEM_MAGIC) (le32_at buf 4)"

definition dfu_target_img_type :: "('i, 'm) dfu_env \<Rightarrow> bytes \<Rightarrow> nat \<Rightarrow> int option" where
  "dfu_target_img_type env buf len = do {
     mcu \<leftarrow> dfu_target_mcuboot_identify buf;
     mdm \<leftarrow> (if DFU_TARGET_MODEM env then dfu_target_modem_identify buf else Some False);
     Some (if mcu then DFU_TARGET_IMAGE_TYPE_MCUBOOT
           else if mdm then DFU_TARGET_IMAGE_TYPE_MODEM_DELTA
           else if len < MIN_SIZE_IDENTIFY_BUF then - EAGAIN else - ENOTSUP)
   }"

definition dfu_target_mcuboot_init :: "('i, 'm) dfu_env \<Rightarrow> u32 \<Rightarrow> ('i, 'm) dfu \<Rightarrow> int \<times> ('i, 'm) dfu" where
  "dfu_target_mcuboot_init env file_size d =
    (case flash_img_init (flash env) (flash_img d) of (err, i) \<Rightarrow>
       let d1 = d\<lparr>flash_img := i\<rparr>
       in if err \<noteq> 0 then (err, d1)
          else if file_size > PM_MCUBOOT_SECONDARY_SIZE env then (- EFBIG, d1) else (0, d1))"

definition dfu_target_mcuboot_offset_get :: "('i, 'm) dfu_env \<Rightarrow> ('i, 'm) dfu \<Rightarrow> u32" where
  "dfu_target_mcuboot_offset_get env d = flash_img_bytes_written (flash env) (flash_img d)"

definition dfu_target_mcuboot_write :: "('i, 'm) dfu_env \<Rightarrow> bytes \<Rightarrow> ('i, 'm) dfu \<Rightarrow> int \<times> ('i, 'm) dfu" where
  "dfu_target_mcuboot_write env b d =
    (case flash_img_buffered_write (flash env) (flash_img d) b False of (err, i) \<Rightarrow>
       if err \<noteq> 0 then (err, d\<lparr>flash_img := i\<rparr>) else (0, d\<lparr>flash_img := i\<rparr>))"

definition reset_flash_context :: "('i, 'm) dfu_env \<Rightarrow> ('i, 'm) dfu \<Rightarrow> ('i, 'm) dfu" where
  "reset_flash_context env d = d\<lparr>flash_img := snd (flash_img_init (flash env) (flash_img d))\<rparr>"

definition dfu_target_mcuboot_done :: "('i, 'm) dfu_env \<Rightarrow> bool \<Rightarrow> ('i, 'm) dfu \<Rightarrow> int \<times> ('i, 'm) dfu" where
  "dfu_target_mcuboot_done env successful d =
    (if successful then
       (case flash_img_buffered_write (flash env) (flash_img d) [] True of (err, i) \<Rightarrow>
          let d1 = d\<lparr>flash_img := i\<rparr>
          in if err \<noteq> 0 then (err, reset_flash_context env d1)
             else let err = boot_request_upgrade (flash env) i
                  in if err \<noteq> 0 then (err, reset_flash_context env d1)
                     else (err, reset_flash_context env (d1\<lparr>upgrades := upgrades d1 @ [i]\<rparr>)))
     else (0, reset_flash_context env d))"

definition dfu_target_init ::
  "('i, 'm) dfu_env \<Rightarrow> int \<Rightarrow> u32 \<Rightarrow> ('i, 'm) dfu \<Rightarrow> int \<times> dfu_target_evt_id list \<times> ('i, 'm) dfu" where
  "dfu_target_init env img_type file_size d =
    (let new_target =
       (if DFU_TARGET_MODEM env \<and> img_type = DFU_TARGET_IMAGE_TYPE_MODEM_DELTA then Some Target_modem
        else if img_type = DFU_TARGET_IMAGE_TYPE_MCUBOOT then Some Target_mcuboot else None)
     in case new_target of
       None \<Rightarrow> (- ENOTSUP, [], d)
     | Some t \<Rightarrow>
         if current_target d = Some t \<and> img_type \<noteq> DFU_TARGET_IMAGE_TYPE_MODEM_DELTA then (0, [], d)
         else let d1 = d\<lparr>current_target := Some t\<rparr>
              in (case t of
                Target_mcuboot \<Rightarrow> (case dfu_target_mcuboot_init env file_size d1 of (err, d2) \<Rightarrow> (err, [], d2))
              | Target_modem \<Rightarrow>
                  (case modem_init (modem env) file_size (modem_state d1) of (err, evts, m) \<Rightarrow>
                     (err, evts, d1\<lparr>modem_state := m\<rparr>))))"

text \<open>The offset, or the error.\<close>

definition dfu_target_offset_get :: "('i, 'm) dfu_env \<Rightarrow> ('i, 'm) dfu \<Rightarrow> int + u32" where
  "dfu_target_offset_get env d =
    (case current_target d of
       None \<Rightarrow> Inl (- EACCES)
     | Some Target_mcuboot \<Rightarrow> Inr (dfu_target_mcuboot_offset_get env d)
     | Some Target_modem \<Rightarrow> Inr (modem_offset (modem env) (modem_state d)))"

definition dfu_target_write :: "('i, 'm) dfu_env \<Rightarrow> bytes \<Rightarrow> ('i, 'm) dfu \<Rightarrow> int \<times> ('i, 'm) dfu" where
  "dfu_target_write env b d =
    (case current_target d of
       None \<Rightarrow> (- EACCES, d)
     | Some Target_mcuboot \<Rightarrow> dfu_target_mcuboot_write env b d
     | Some Target_modem \<Rightarrow> (case modem_write (modem env) b (modem_state d) of (err, m) \<Rightarrow> (err, d\<lparr>modem_state := m\<rparr>)))"

definition target_done :: "('i, 'm) dfu_env \<Rightarrow> dfu_target \<Rightarrow> bool \<Rightarrow> ('i, 'm) dfu \<Rightarrow> int \<times> ('i, 'm) dfu" where
  "target_done env t successful d =
    (case t of
       Target_mcuboot \<Rightarrow> dfu_target_mcuboot_done env successful d
     | Target_modem \<Rightarrow> (case modem_done (modem env) successful (modem_state d) of (err, m) \<Rightarrow> (err, d\<lparr>modem_state := m\<rparr>)))"

definition dfu_target_done :: "('i, 'm) dfu_env \<Rightarrow> bool \<Rightarrow> ('i, 'm) dfu \<Rightarrow> int \<times> ('i, 'm) dfu" where
  "dfu_target_done env successful d =
    (case current_target d of
       None \<Rightarrow> (- EACCES, d)
     | Some t \<Rightarrow>
         (case target_done env t successful d of (err, d1) \<Rightarrow>
            if err \<noteq> 0 then (err, d1)
            else if successful then (0, d1\<lparr>current_target := None\<rparr>) else (0, d1)))"

definition dfu_target_reset :: "('i, 'm) dfu_env \<Rightarrow> ('i, 'm) dfu \<Rightarrow> int \<times> ('i, 'm) dfu" where
  "dfu_target_reset env d =
    (case current_target d of
       None \<Rightarrow> (0, d\<lparr>current_target := None\<rparr>)
     | Some t \<Rightarrow>
         (case target_done env t False d of (err, d1) \<Rightarrow>
            if err \<noteq> 0 then (err, d1) else (0, d1\<lparr>current_target := None\<rparr>)))"

section \<open>The download\<close>

datatype fota_download_error_cause =
  FOTA_DOWNLOAD_ERROR_CAUSE_DOWNLOAD_FAILED | FOTA_DOWNLOAD_ERROR_CAUSE_INVALID_UPDATE

datatype fota_download_evt =
    FOTA_DOWNLOAD_EVT_PROGRESS u32
  | FOTA_DOWNLOAD_EVT_FINISHED
  | FOTA_DOWNLOAD_EVT_ERASE_PENDING
  | FOTA_DOWNLOAD_EVT_ERASE_DONE
  | FOTA_DOWNLOAD_EVT_ERROR fota_download_error_cause

type_synonym 'a fota_callback = "fota_download_evt \<Rightarrow> 'a \<Rightarrow> 'a"

text \<open>The static variables, the targets and the state of the application the callback belongs to.\<close>

record ('i, 'm, 'a) fota =
  first_fragment :: bool
  fota_file_size :: u32
  socket_retries_left :: nat
  offset_work :: bool
  dfu_state :: "('i, 'm) dfu"
  app :: 'a

definition send_evt :: "'a fota_callback \<Rightarrow> fota_download_evt \<Rightarrow> ('i, 'm, 'a) fota \<Rightarrow> ('i, 'm, 'a) fota" where
  "send_evt callback evt s = s\<lparr>app := callback evt (app s)\<rparr>"

definition send_error_evt :: "'a fota_callback \<Rightarrow> fota_download_error_cause \<Rightarrow> ('i, 'm, 'a) fota \<Rightarrow> ('i, 'm, 'a) fota" where
  "send_error_evt callback cause s = send_evt callback (FOTA_DOWNLOAD_EVT_ERROR cause) s"

definition dfu_target_callback_handler ::
  "'a fota_callback \<Rightarrow> dfu_target_evt_id \<Rightarrow> ('i, 'm, 'a) fota \<Rightarrow> ('i, 'm, 'a) fota" where
  "dfu_target_callback_handler callback evt s =
    (case evt of
       DFU_TARGET_EVT_TIMEOUT \<Rightarrow> send_evt callback FOTA_DOWNLOAD_EVT_ERASE_PENDING s
     | DFU_TARGET_EVT_ERASE_DONE \<Rightarrow> send_evt callback FOTA_DOWNLOAD_EVT_ERASE_DONE s)"

text \<open>The first fragment of a file: \<^verbatim>\<open>Inl err\<close> refuses it.\<close>

definition first_fragment_begin ::
  "('i, 'm) dfu_env \<Rightarrow> 'a fota_callback \<Rightarrow> sockets \<Rightarrow> bytes \<Rightarrow> nat \<Rightarrow> download_client \<Rightarrow> ('i, 'm, 'a) fota \<Rightarrow>
     ((int + unit) \<times> download_client \<times> ('i, 'm, 'a) fota) option" where
  "first_fragment_begin env callback net buf len dl s = do {
     let s1 = s\<lparr>fota_file_size := download_client_file_size_get dl, first_fragment := False\<rparr>;
     img_type \<leftarrow> dfu_target_img_type env buf len;
     let (err, evts, d) = dfu_target_init env img_type (fota_file_size s1) (dfu_state s1);
     let s2 = fold (dfu_target_callback_handler callback) evts (s1\<lparr>dfu_state := d\<rparr>);
     if err < 0 \<and> err \<noteq> - EBUSY then
       (let s3 = send_error_evt callback FOTA_DOWNLOAD_ERROR_CAUSE_DOWNLOAD_FAILED s2
        in Some (Inl err, dl, s3\<lparr>dfu_state := snd (dfu_target_reset env (dfu_state s3)), first_fragment := True\<rparr>))
     else (case dfu_target_offset_get env (dfu_state s2) of
       Inl e \<Rightarrow> None
     | Inr offset \<Rightarrow>
         if offset \<noteq> 0 then
           Some (Inl (-1), snd (download_client_disconnect net dl), s2\<lparr>offset_work := True\<rparr>)
         else Some (Inr (), dl, s2))
   }"

definition fragment_write ::
  "('i, 'm) dfu_env \<Rightarrow> 'a fota_callback \<Rightarrow> sockets \<Rightarrow> bytes \<Rightarrow> nat \<Rightarrow> download_client \<Rightarrow> ('i, 'm, 'a) fota \<Rightarrow>
     int \<times> download_client \<times> ('i, 'm, 'a) fota" where
  "fragment_write env callback net buf len dl s =
    (case dfu_target_write env (take len buf) (dfu_state s) of (err, d) \<Rightarrow>
       if err \<noteq> 0 then
         (err, snd (download_client_disconnect net dl),
          send_error_evt callback FOTA_DOWNLOAD_ERROR_CAUSE_INVALID_UPDATE
            (s\<lparr>dfu_state := snd (dfu_target_done env False d), first_fragment := True\<rparr>))
       else
         let s1 = s\<lparr>dfu_state := d\<rparr>
         in if first_fragment s1 then (0, dl, s1)
            else (case dfu_target_offset_get env d of
              Inl err \<Rightarrow> (err, dl, send_error_evt callback FOTA_DOWNLOAD_ERROR_CAUSE_DOWNLOAD_FAILED s1)
            | Inr offset \<Rightarrow>
                if fota_file_size s1 = 0
                then (0, dl, send_error_evt callback FOTA_DOWNLOAD_ERROR_CAUSE_DOWNLOAD_FAILED s1)
                else (0, dl, send_evt callback (FOTA_DOWNLOAD_EVT_PROGRESS ((offset * 100) div fota_file_size s1)) s1)))"

definition download_done ::
  "('i, 'm) dfu_env \<Rightarrow> 'a fota_callback \<Rightarrow> sockets \<Rightarrow> download_client \<Rightarrow> ('i, 'm, 'a) fota \<Rightarrow>
     int \<times> download_client \<times> ('i, 'm, 'a) fota" where
  "download_done env callback net dl s =
    (case dfu_target_done env True (dfu_state s) of (err, d) \<Rightarrow>
       let s1 = s\<lparr>dfu_state := d\<rparr>
       in if err \<noteq> 0 then (err, dl, send_error_evt callback FOTA_DOWNLOAD_ERROR_CAUSE_DOWNLOAD_FAILED s1)
          else (case download_client_disconnect net dl of (err, dl1) \<Rightarrow>
            if err \<noteq> 0 then (err, dl1, send_error_evt callback FOTA_DOWNLOAD_ERROR_CAUSE_DOWNLOAD_FAILED s1)
            else (0, dl1, send_evt callback FOTA_DOWNLOAD_EVT_FINISHED s1\<lparr>first_fragment := True\<rparr>)))"

definition download_error ::
  "('i, 'm) dfu_env \<Rightarrow> 'a fota_callback \<Rightarrow> sockets \<Rightarrow> int \<Rightarrow> download_client \<Rightarrow> ('i, 'm, 'a) fota \<Rightarrow>
     int \<times> download_client \<times> ('i, 'm, 'a) fota" where
  "download_error env callback net error dl s =
    (if socket_retries_left s > 0 \<and> (error = - ENOTCONN \<or> error = - ECONNRESET)
     then (0, dl, s\<lparr>socket_retries_left := socket_retries_left s - 1\<rparr>)
     else
       (error, snd (download_client_disconnect net dl),
        send_error_evt callback FOTA_DOWNLOAD_ERROR_CAUSE_DOWNLOAD_FAILED
          (s\<lparr>dfu_state := snd (dfu_target_done env False (dfu_state s)), first_fragment := True\<rparr>)))"

fun download_client_callback :: "('i, 'm) dfu_env \<Rightarrow> 'a fota_callback \<Rightarrow> ('i, 'm, 'a) fota callback" where
  "download_client_callback env callback net (DOWNLOAD_CLIENT_EVT_FRAGMENT buf len) dl s =
    (if first_fragment s then do {
       (r, dl1, s1) \<leftarrow> first_fragment_begin env callback net buf len dl s;
       (case r of
          Inl err \<Rightarrow> Some (err, dl1, s1)
        | Inr _ \<Rightarrow> Some (fragment_write env callback net buf len dl1 s1))
     }
     else Some (fragment_write env callback net buf len dl s))"
| "download_client_callback env callback net DOWNLOAD_CLIENT_EVT_DONE dl s = Some (download_done env callback net dl s)"
| "download_client_callback env callback net (DOWNLOAD_CLIENT_EVT_ERROR error) dl s =
    Some (download_error env callback net error dl s)"

text \<open>The delayed work that goes on from the offset the target has; it says whether the thread was resumed.\<close>

definition download_with_offset ::
  "('i, 'm) dfu_env \<Rightarrow> dl_kconfig \<Rightarrow> sockets \<Rightarrow> download_client \<Rightarrow> ('i, 'm, 'a) fota \<Rightarrow>
     (bool \<times> download_client \<times> ('i, 'm, 'a) fota) option" where
  "download_with_offset env k net dl s =
    (let s1 = s\<lparr>offset_work := False\<rparr>
     in case dfu_target_offset_get env (dfu_state s1) of
       Inl err \<Rightarrow> Some (False, dl, s1)
     | Inr offset \<Rightarrow> do {
         (err, dl1) \<leftarrow> download_client_connect k net dl (dl_host dl) (dl_config dl);
         if err \<noteq> 0 then Some (False, dl1, s1)
         else do {
           (err, dl2) \<leftarrow> download_client_start k net dl1 (dl_file dl1) offset;
           Some (err = 0, dl2, s1)
         }
       })"

definition fota_download_start ::
  "dl_kconfig \<Rightarrow> nat \<Rightarrow> sockets \<Rightarrow> bytes \<Rightarrow> bytes \<Rightarrow> int \<Rightarrow> bytes option \<Rightarrow> u32 \<Rightarrow> download_client \<Rightarrow>
     ('i, 'm, 'a) fota \<Rightarrow> (int \<times> download_client \<times> ('i, 'm, 'a) fota) option" where
  "fota_download_start k retries net host file tag ap fragment_size dl s =
    (let cfg = \<lparr>sec_tag = tag, apn = ap, frag_size_override = fragment_size\<rparr>;
         s1 = s\<lparr>socket_retries_left := retries\<rparr>
     in do {
       (err, dl1) \<leftarrow> download_client_connect k net dl host cfg;
       if err \<noteq> 0 then Some (err, dl1, s1)
       else do {
         (err, dl2) \<leftarrow> download_client_start k net dl1 file 0;
         if err \<noteq> 0 then Some (err, snd (download_client_disconnect net dl2), s1)
         else Some (0, dl2, s1)
       }
     })"

section \<open>The contract of the image writer\<close>

text \<open>
  What the operating system documents: initialising starts an empty image (the slot is in the partition
  map, so that it can be opened), a write appends, and a flushing write leaves all of it in the flash.
\<close>

locale flash_image =
  fixes ops :: "'i flash_ops" and img on_flash :: "'i \<Rightarrow> bytes"
  assumes init: "flash_img_init ops i = (r, i') \<Longrightarrow> r = 0 \<and> img i' = [] \<and> flash_img_bytes_written ops i' = 0"
    and written: "flash_img_buffered_write ops i b flush = (0, i') \<Longrightarrow>
      img i' = img i @ b \<and> (flush \<longrightarrow> on_flash i' = img i')"

text \<open>
  The targets between two downloads, and what they hold during one: all upgrades that were requested were
  of the file \<^verbatim>\<open>F\<close>, and an image that is begun has exactly the bytes accepted so far.  \<^verbatim>\<open>fine\<close> is what
  the application keeps during a download.
\<close>

definition target_ready :: "('i, 'm) dfu_env \<Rightarrow> ('i \<Rightarrow> bytes) \<Rightarrow> ('i, 'm) dfu \<Rightarrow> bool" where
  "target_ready env img d \<longleftrightarrow>
    (current_target d = Some Target_mcuboot \<longrightarrow> img (flash_img d) = [] \<and> flash_img_bytes_written (flash env) (flash_img d) = 0)"

definition target_holds :: "('i \<Rightarrow> bytes) \<Rightarrow> ('i, 'm) dfu \<Rightarrow> bytes \<Rightarrow> bool" where
  "target_holds img d L \<longleftrightarrow>
    (case current_target d of None \<Rightarrow> L = [] | Some Target_mcuboot \<Rightarrow> img (flash_img d) = L | Some Target_modem \<Rightarrow> True)"

definition no_modem :: "('i, 'm) dfu \<Rightarrow> bool" where
  "no_modem d \<longleftrightarrow> current_target d \<noteq> Some Target_modem"

definition fota_common ::
  "('i \<Rightarrow> bytes) \<Rightarrow> bytes \<Rightarrow> ('a \<Rightarrow> bool) \<Rightarrow> ('i, 'm, 'a) fota \<Rightarrow> bool" where
  "fota_common on_flash F fine s \<longleftrightarrow> (\<forall>u\<in>set (upgrades (dfu_state s)). on_flash u = F) \<and>
    fine (app s) \<and> no_modem (dfu_state s) \<and> \<not> offset_work s"

definition fota_holds ::
  "('i, 'm) dfu_env \<Rightarrow> ('i \<Rightarrow> bytes) \<Rightarrow> ('i \<Rightarrow> bytes) \<Rightarrow> bytes \<Rightarrow> ('a \<Rightarrow> bool) \<Rightarrow> ('i, 'm, 'a) fota \<Rightarrow> bytes \<Rightarrow> bool" where
  "fota_holds env img on_flash F fine s L \<longleftrightarrow> fota_common on_flash F fine s \<and>
    (if first_fragment s then L = [] \<and> target_ready env img (dfu_state s) else target_holds img (dfu_state s) L)"

text \<open>Between two downloads the application has been told of the end.\<close>

definition fota_idle ::
  "('i, 'm) dfu_env \<Rightarrow> ('i \<Rightarrow> bytes) \<Rightarrow> ('i \<Rightarrow> bytes) \<Rightarrow> bytes \<Rightarrow> ('a \<Rightarrow> bool) \<Rightarrow> ('a \<Rightarrow> bool) \<Rightarrow> ('i, 'm, 'a) fota \<Rightarrow> bool" where
  "fota_idle env img on_flash F fine told s \<longleftrightarrow> fota_holds env img on_flash F fine s [] \<and> told (app s)"

locale fota_user = flash_image "flash env" img on_flash
  for env :: "('i, 'm) dfu_env" and img on_flash :: "'i \<Rightarrow> bytes" +
  fixes k :: dl_kconfig and F host fname :: bytes and callback :: "'a fota_callback" and fine told :: "'a \<Rightarrow> bool"
  assumes build: "client_config k host fname"
    and image_size: "F \<noteq> []" "length F < 2 ^ 31"
    and image: "dfu_target_mcuboot_identify F = Some True"
    and fine: "fine a \<Longrightarrow> fine (callback e a)"
    and told: "told (callback FOTA_DOWNLOAD_EVT_FINISHED a)" "told (callback (FOTA_DOWNLOAD_EVT_ERROR c) a)"
begin

text \<open>An image of the application is never taken for one of the modem.\<close>

lemma image_type:
  assumes "length b = BUF_SIZE k" "n \<le> BUF_SIZE k" "take n b = take m F" "header_left b n"
  obtains t where "dfu_target_img_type env b n = Some t" "t \<noteq> DFU_TARGET_IMAGE_TYPE_MODEM_DELTA"
proof -
  have l: "8 \<le> length b" using assms(1) build by (simp add: client_config_def)
  then obtain mcu mdm where i: "dfu_target_mcuboot_identify b = Some mcu" "dfu_target_modem_identify b = Some mdm"
    by (simp add: dfu_target_mcuboot_identify_def dfu_target_modem_identify_def le32_at_def)
  have "mcu \<or> \<not> mdm"
  proof (cases "n < 4")
    case False
    have lf: "4 \<le> length F" using image by (auto simp: dfu_target_mcuboot_identify_def le32_at_def rd_bytes_def split: if_splits)
    have "length (take n b) = n" using assms(1,2) by simp
    then have "4 \<le> m" using False assms(3) by (metis length_take min.boundedE not_le)
    then have "take 4 b = take 4 F" using arg_cong [OF assms(3), of "take 4"] False by (simp add: min_def)
    then have "dfu_target_mcuboot_identify b = dfu_target_mcuboot_identify F"
      using l lf by (simp add: dfu_target_mcuboot_identify_def le32_at_def rd_bytes_def)
    then show ?thesis using image i(1) by simp
  next
    case True
    let ?q = "take 4 (drop 4 b)"
    have "b ! 6 = ch CHR ''D''" if "be_word (rev ?q) = (0x7544656d :: u32)"
    proof -
      have "be_bytes 4 (be_word (rev ?q) :: u32) = rev ?q" using be_bytes_be_word [of "rev ?q", where 'a=32] l by simp
      then have "rev ?q = be_bytes 4 (0x7544656d :: u32)" using that by simp
      then have "?q = rev (be_bytes 4 (0x7544656d :: u32))" by (metis rev_rev_ident)
      also have "\<dots> = [0x6d, 0x65, 0x44, 0x75]" by code_simp
      finally have "?q ! 2 = 0x44" by simp
      then show ?thesis using l by simp
    qed
    moreover have "tolower (ch CHR ''D'') \<noteq> ch CHR ''D''" by code_simp
    ultimately show ?thesis using True assms(4) i(2) l
      by (auto simp: header_left_def dfu_target_modem_identify_def le32_at_def rd_bytes_def MODEM_MAGIC_def)
  qed
  then show thesis using that i
    by (auto simp: dfu_target_img_type_def DFU_TARGET_IMAGE_TYPE_MCUBOOT_def DFU_TARGET_IMAGE_TYPE_MODEM_DELTA_def
        EAGAIN_def ENOTSUP_def)
qed

lemma disconnect_cases: "snd (download_client_disconnect net dl) = dl \<or> snd (download_client_disconnect net dl) = hung_up dl"
  by (auto simp: download_client_disconnect_def hung_up_def)

lemma reset_context:
  "img (flash_img (reset_flash_context env d)) = []"
  "flash_img_bytes_written (flash env) (flash_img (reset_flash_context env d)) = 0"
  "current_target (reset_flash_context env d) = current_target d" "upgrades (reset_flash_context env d) = upgrades d"
  by (cases "flash_img_init (flash env) (flash_img d)"; auto simp: reset_flash_context_def dest: init)+

lemma mcuboot_done_ready:
  assumes "dfu_target_mcuboot_done env successful d = (r, d')"
  shows "target_ready env img d'" "current_target d' = current_target d" "img (flash_img d') = []"
    "\<not> successful \<Longrightarrow> r = 0 \<and> upgrades d' = upgrades d"
  using assms by (auto simp: dfu_target_mcuboot_done_def target_ready_def reset_context Let_def split: if_splits prod.splits)

lemma target_done_abort:
  assumes "target_done env t False d = (r, d')" "current_target d = Some t"
  shows "target_ready env img d'" "upgrades d' = upgrades d" "current_target d' = Some t"
proof -
  have "target_ready env img d' \<and> upgrades d' = upgrades d \<and> current_target d' = Some t"
  proof (cases t)
    case Target_mcuboot
    then have "dfu_target_mcuboot_done env False d = (r, d')" using assms(1) by (simp add: target_done_def)
    from mcuboot_done_ready [OF this] show ?thesis using assms(2) by simp
  next
    case Target_modem
    then show ?thesis using assms by (auto simp: target_done_def target_ready_def split: prod.splits)
  qed
  then show "target_ready env img d'" "upgrades d' = upgrades d" "current_target d' = Some t" by auto
qed

lemma done_abort:
  assumes "dfu_target_done env False d = (r, d')"
  shows "target_ready env img d'" "upgrades d' = upgrades d" "current_target d' = current_target d"
proof -
  have "target_ready env img d' \<and> upgrades d' = upgrades d \<and> current_target d' = current_target d"
  proof (cases "current_target d")
    case None
    then show ?thesis using assms by (auto simp: dfu_target_done_def target_ready_def)
  next
    case (Some t)
    obtain e d1 where "target_done env t False d = (e, d1)" by fastforce
    with target_done_abort [OF this Some] show ?thesis using assms Some by (auto simp: dfu_target_done_def split: if_splits)
  qed
  then show "target_ready env img d'" "upgrades d' = upgrades d" "current_target d' = current_target d" by auto
qed

lemma reset_ready:
  assumes "dfu_target_reset env d = (r, d')"
  shows "target_ready env img d'" "upgrades d' = upgrades d" "no_modem d \<Longrightarrow> no_modem d'"
proof -
  have "target_ready env img d' \<and> upgrades d' = upgrades d \<and> (no_modem d \<longrightarrow> no_modem d')"
  proof (cases "current_target d")
    case None
    then show ?thesis using assms by (auto simp: dfu_target_reset_def target_ready_def no_modem_def)
  next
    case (Some t)
    obtain e d1 where "target_done env t False d = (e, d1)" by fastforce
    with target_done_abort [OF this Some] show ?thesis using assms Some
      by (auto simp: dfu_target_reset_def target_ready_def no_modem_def split: if_splits)
  qed
  then show "target_ready env img d'" "upgrades d' = upgrades d" "no_modem d \<Longrightarrow> no_modem d'" by auto
qed

lemma init_holds:
  assumes "dfu_target_init env t n d = (r, evts, d')" "target_ready env img d" "t \<noteq> DFU_TARGET_IMAGE_TYPE_MODEM_DELTA"
  shows "upgrades d' = upgrades d" "no_modem d \<Longrightarrow> no_modem d'"
    "\<not> (r < 0 \<and> r \<noteq> - EBUSY) \<Longrightarrow> current_target d' \<noteq> None \<and> target_ready env img d'"
proof -
  have i: "r' = 0 \<and> img i = [] \<and> flash_img_bytes_written (flash env) i = 0"
    if "flash_img_init (flash env) (flash_img d) = (r', i)" for r' i using init [OF that] .
  show "upgrades d' = upgrades d" "no_modem d \<Longrightarrow> no_modem d'"
    using assms(1,3) by (auto simp: dfu_target_init_def dfu_target_mcuboot_init_def no_modem_def Let_def
        split: if_splits option.splits dfu_target.splits prod.splits)
  assume "\<not> (r < 0 \<and> r \<noteq> - EBUSY)"
  then show "current_target d' \<noteq> None \<and> target_ready env img d'"
    using assms i by (auto simp: dfu_target_init_def dfu_target_mcuboot_init_def target_ready_def Let_def ENOTSUP_def EBUSY_def
        split: if_splits option.splits dfu_target.splits prod.splits)
qed

lemma write_holds:
  assumes "dfu_target_write env b d = (r, d')" "target_holds img d L"
  shows "upgrades d' = upgrades d" "current_target d' = current_target d"
    "r = 0 \<Longrightarrow> current_target d \<noteq> None \<and> target_holds img d' (L @ b)"
proof -
  have w: "img i = img (flash_img d) @ b" if "flash_img_buffered_write (flash env) (flash_img d) b False = (0, i)" for i
    using written [OF that] by simp
  show "upgrades d' = upgrades d" "current_target d' = current_target d"
    using assms(1) by (auto simp: dfu_target_write_def dfu_target_mcuboot_write_def
        split: option.splits dfu_target.splits prod.splits if_splits)
  assume "r = 0"
  then show "current_target d \<noteq> None \<and> target_holds img d' (L @ b)"
    using assms w by (auto simp: dfu_target_write_def dfu_target_mcuboot_write_def target_holds_def EACCES_def
        split: option.splits dfu_target.splits prod.splits if_splits)
qed

text \<open>The end of a download: an upgrade is requested for what was held, and nothing is held any more.\<close>

lemma done_holds:
  assumes "dfu_target_done env True d = (r, d')" "target_holds img d L" "L \<noteq> []"
  shows "set (upgrades d') \<subseteq> set (upgrades d) \<union> {u. on_flash u = L}" "target_holds img d' []"
    "r = 0 \<Longrightarrow> current_target d' = None" "no_modem d \<Longrightarrow> no_modem d'"
proof -
  have w: "img i = img (flash_img d) \<and> on_flash i = img i"
    if "flash_img_buffered_write (flash env) (flash_img d) [] True = (0, i)" for i using written [OF that] by simp
  have up: "set (upgrades d1) \<subseteq> set (upgrades d) \<union> {u. on_flash u = img (flash_img d)}"
    if "dfu_target_mcuboot_done env True d = (r', d1)" for r' d1
    using that w by (auto simp: dfu_target_mcuboot_done_def Let_def reset_context split: if_splits prod.splits)
  show "set (upgrades d') \<subseteq> set (upgrades d) \<union> {u. on_flash u = L}"
    using assms up by (auto simp: dfu_target_done_def target_done_def target_holds_def
        split: option.splits dfu_target.splits prod.splits if_splits)
  show "target_holds img d' []"
    using assms mcuboot_done_ready [of True d] by (auto simp: dfu_target_done_def target_done_def target_holds_def
        split: option.splits dfu_target.splits prod.splits if_splits)
  show "no_modem d'" if "no_modem d"
    using that assms(1) mcuboot_done_ready(2) [of True d] by (auto simp: dfu_target_done_def target_done_def no_modem_def
        split: option.splits dfu_target.splits prod.splits if_splits)
  assume "r = 0"
  then show "current_target d' = None"
    using assms by (auto simp: dfu_target_done_def EACCES_def split: option.splits prod.splits if_splits)
qed

lemma handler_keeps [simp]:
  "dfu_state (fold (dfu_target_callback_handler c) evts s) = dfu_state s"
  "first_fragment (fold (dfu_target_callback_handler c) evts s) = first_fragment s"
  "offset_work (fold (dfu_target_callback_handler c) evts s) = offset_work s"
  by (induction evts arbitrary: s) (auto simp: dfu_target_callback_handler_def send_evt_def split: dfu_target_evt_id.splits)

lemma fine_events: "fine (app s) \<Longrightarrow> fine (app (fold (dfu_target_callback_handler callback) evts s))"
  by (induction evts arbitrary: s) (auto simp: dfu_target_callback_handler_def send_evt_def fine split: dfu_target_evt_id.splits)

lemma send_keeps [simp]:
  "offset_work (send_evt c e s) = offset_work s" "offset_work (send_error_evt c x s) = offset_work s"
  "fine (app s) \<Longrightarrow> fine (app (send_evt callback e s))" "fine (app s) \<Longrightarrow> fine (app (send_error_evt callback x s))"
  "dfu_state (send_evt c e s) = dfu_state s" "first_fragment (send_evt c e s) = first_fragment s"
  "dfu_state (send_error_evt c x s) = dfu_state s" "first_fragment (send_error_evt c x s) = first_fragment s"
  "told (app (send_error_evt callback x s))" "told (app (send_evt callback FOTA_DOWNLOAD_EVT_FINISHED s))"
  by (simp_all add: send_evt_def send_error_evt_def told fine)

abbreviation common where "common \<equiv> fota_common on_flash F fine"
abbreviation kept where "kept \<equiv> fota_holds env img on_flash F fine"
abbreviation waiting where "waiting \<equiv> fota_idle env img on_flash F fine told"

lemma offset_known: "current_target d \<noteq> None \<Longrightarrow> \<exists>off. dfu_target_offset_get env d = Inr off"
  by (auto simp: dfu_target_offset_get_def split: dfu_target.splits)

lemma fragment_write_ok:
  assumes s: "common s" "\<not> first_fragment s" "target_holds img (dfu_state s) L"
    and f: "fragment_write env callback net b n dl s = (rc, dl', s')"
  shows "if rc = 0 then dl' = dl \<and> kept s' (L @ take n b) else waiting s' \<and> (dl' = dl \<or> dl' = hung_up dl)"
proof -
  obtain err d where w: "dfu_target_write env (take n b) (dfu_state s) = (err, d)" by fastforce
  note h = write_holds [OF w s(3)]
  show ?thesis
  proof (cases "err = 0")
    case False
    obtain q d2 where a: "dfu_target_done env False d = (q, d2)" by fastforce
    have "rc = err" "dl' = snd (download_client_disconnect net dl)"
      "s' = send_error_evt callback FOTA_DOWNLOAD_ERROR_CAUSE_INVALID_UPDATE (s\<lparr>dfu_state := d2, first_fragment := True\<rparr>)"
      using f False by (auto simp: fragment_write_def w a)
    then show ?thesis using False disconnect_cases [of net dl] done_abort [OF a] h(1,2) s(1)
      by (auto simp: fota_idle_def fota_holds_def fota_common_def no_modem_def)
  next
    case True
    then have hold: "current_target d \<noteq> None" "target_holds img d (L @ take n b)" using h(2,3) by auto
    then obtain off where "dfu_target_offset_get env d = Inr off" using offset_known by blast
    then have "rc = 0" "dl' = dl" "dfu_state s' = d" "\<not> first_fragment s'" "common s'"
      using f True s(1,2) h(1,2) by (auto simp: fragment_write_def w Let_def fota_common_def no_modem_def split: if_splits)
    then show ?thesis using hold by (simp add: fota_holds_def)
  qed
qed

lemma first_fragment_ok:
  assumes s: "kept s L" "first_fragment s" and b: "length b = BUF_SIZE k" "n \<le> BUF_SIZE k" "L @ take n b = take m F" "header_left b n"
  obtains r dl1 s1 where "first_fragment_begin env callback net b n dl s = Some (r, dl1, s1)"
    "case r of Inl err \<Rightarrow> err \<noteq> 0 \<and> waiting s1 \<and> (dl1 = dl \<or> dl1 = hung_up dl)
      | Inr _ \<Rightarrow> dl1 = dl \<and> \<not> first_fragment s1 \<and> target_holds img (dfu_state s1) L \<and> common s1"
proof -
  have l: "L = []" "target_ready env img (dfu_state s)" "common s"
    using s by (auto simp: fota_holds_def)
  have "take n b = take m F" using b(3) l(1) by simp
  from image_type [OF b(1,2) this b(4)] obtain t where t: "dfu_target_img_type env b n = Some t"
    and app_image: "t \<noteq> DFU_TARGET_IMAGE_TYPE_MODEM_DELTA" .
  obtain err evts d where i: "dfu_target_init env t (download_client_file_size_get dl) (dfu_state s) = (err, evts, d)"
    by (metis prod_cases3)
  note h = init_holds [OF i l(2) app_image]
  define s2 where "s2 = fold (dfu_target_callback_handler callback) evts
    (s\<lparr>fota_file_size := download_client_file_size_get dl, first_fragment := False, dfu_state := d\<rparr>)"
  have s2: "dfu_state s2 = d" "\<not> first_fragment s2" by (simp_all add: s2_def)
  have com: "common s2" using l(3) h(1,2) by (simp add: fota_common_def s2_def fine_events)
  let ?bad = "err < 0 \<and> err \<noteq> - EBUSY"
  have step: "first_fragment_begin env callback net b n dl s =
    (if ?bad then
       (let s3 = send_error_evt callback FOTA_DOWNLOAD_ERROR_CAUSE_DOWNLOAD_FAILED s2
        in Some (Inl err, dl, s3\<lparr>dfu_state := snd (dfu_target_reset env (dfu_state s3)), first_fragment := True\<rparr>))
     else (case dfu_target_offset_get env d of
       Inl e \<Rightarrow> None
     | Inr offset \<Rightarrow>
         if offset \<noteq> 0 then Some (Inl (-1), snd (download_client_disconnect net dl), s2\<lparr>offset_work := True\<rparr>)
         else Some (Inr (), dl, s2)))"
    unfolding first_fragment_begin_def Let_def using t i s2 by (simp add: s2_def split: sum.split)
  show thesis
  proof (cases ?bad)
    case True
    obtain q d3 where a: "dfu_target_reset env d = (q, d3)" by fastforce
    show thesis
      by (rule that) (use step True a reset_ready [OF a] com s2 in \<open>auto simp: Let_def fota_idle_def fota_holds_def fota_common_def\<close>)
  next
    case False
    then have r: "current_target d \<noteq> None" "target_ready env img d" using h(3) by auto
    then obtain off where off: "dfu_target_offset_get env d = Inr off" using offset_known by blast
    show thesis
    proof (cases "off = 0")
      case True
      have "target_holds img d []" using r by (auto simp: target_holds_def target_ready_def split: option.splits dfu_target.splits)
      then show thesis using that [of "Inr ()" dl s2] step False off True s2 com l(1) by simp
    next
      case no: False
      have "no_modem d" using com s2 by (simp add: fota_common_def)
      then have "off = 0" using off r
        by (auto simp: dfu_target_offset_get_def dfu_target_mcuboot_offset_get_def target_ready_def no_modem_def
            split: option.splits dfu_target.splits)
      then show thesis using no by simp
    qed
  qed
qed

end

sublocale fota_user \<subseteq> download_user k F host fname "download_client_callback env callback" kept waiting
proof
  show "client_config k host fname" by (rule build)
  show "F \<noteq> []" "length F < 2 ^ 31" by (rule image_size)+
  fix s :: "('i, 'm, 'a) fota" and L n m net dl and b :: bytes
  assume s: "kept s L" "length b = BUF_SIZE k" "n \<le> BUF_SIZE k" "L @ take n b = take m F" "header_left b n"
  show "\<exists>rc dl' s'. download_client_callback env callback net (DOWNLOAD_CLIENT_EVT_FRAGMENT b n) dl s = Some (rc, dl', s') \<and>
    (if rc = 0 then dl' = dl \<and> kept s' (L @ take n b) else waiting s' \<and> (dl' = dl \<or> dl' = hung_up dl))"
  proof (cases "first_fragment s")
    case True
    obtain r dl1 s1 where f: "first_fragment_begin env callback net b n dl s = Some (r, dl1, s1)"
      "case r of Inl err \<Rightarrow> err \<noteq> 0 \<and> waiting s1 \<and> (dl1 = dl \<or> dl1 = hung_up dl)
        | Inr _ \<Rightarrow> dl1 = dl \<and> \<not> first_fragment s1 \<and> target_holds img (dfu_state s1) L \<and> common s1"
      by (rule first_fragment_ok [OF s(1) True s(2-5)])
    show ?thesis
    proof (cases r)
      case (Inl err)
      then show ?thesis using f True by simp
    next
      case (Inr u)
      obtain rc dl2 s2 where w: "fragment_write env callback net b n dl1 s1 = (rc, dl2, s2)" by (metis prod_cases3)
      show ?thesis using fragment_write_ok [OF _ _ _ w, of L] f Inr True w by auto
    qed
  next
    case False
    obtain rc dl2 s2 where w: "fragment_write env callback net b n dl s = (rc, dl2, s2)" by (metis prod_cases3)
    show ?thesis using fragment_write_ok [OF _ False _ w, of L] s(1) False w by (auto simp: fota_holds_def)
  qed
next
  fix s :: "('i, 'm, 'a) fota" and L net dl and e :: int
  assume s: "kept s L" "e \<noteq> 0"
  obtain q d where a: "dfu_target_done env False (dfu_state s) = (q, d)" by fastforce
  show "\<exists>rc dl' s'. download_client_callback env callback net (DOWNLOAD_CLIENT_EVT_ERROR e) dl s = Some (rc, dl', s') \<and>
    (if rc = 0 then (e = - ECONNRESET \<or> e = - ENOTCONN) \<and> dl' = dl \<and> kept s' L
     else waiting s' \<and> (dl' = dl \<or> dl' = hung_up dl))"
    using s done_abort [OF a] disconnect_cases [of net dl]
    by (auto simp: download_error_def a fota_idle_def fota_holds_def fota_common_def no_modem_def)
next
  fix s :: "('i, 'm, 'a) fota" and net dl
  assume s: "kept s F"
  then have f: "\<not> first_fragment s" "target_holds img (dfu_state s) F" "common s"
    using image_size(1) by (auto simp: fota_holds_def split: if_splits)
  obtain err d where a: "dfu_target_done env True (dfu_state s) = (err, d)" by fastforce
  note h = done_holds [OF a f(2) image_size(1)]
  have com: "common (s\<lparr>dfu_state := d\<rparr>)" using h(1,4) f(3) by (auto simp: fota_common_def)
  obtain e dl1 where c: "download_client_disconnect net dl = (e, dl1)" by fastforce
  have dl1: "dl1 = dl \<or> dl1 = hung_up dl" using disconnect_cases [of net dl] c by simp
  show "\<exists>rc dl' s'. download_client_callback env callback net DOWNLOAD_CLIENT_EVT_DONE dl s = Some (rc, dl', s') \<and>
    waiting s' \<and> (dl' = dl \<or> dl' = hung_up dl)"
    using a c dl1 h(2,3) com f(1)
    by (auto simp: download_done_def fota_idle_def fota_holds_def fota_common_def target_ready_def Let_def)
qed

end
