(* ===== verification/Ota.thy ===== *)
theory Ota
  imports Fota
begin

text \<open>
  \<^verbatim>\<open>ota/http_update.c\<close>: the update of the firmware on a press of the button.  The start, the button, the
  works and the handler of the download's events are definitions; a device with the thread of the download
  client beside them is a step relation.  The button, the LED driver and the modem are events and results.
\<close>

section \<open>The application\<close>

definition LED_ON :: nat where "LED_ON = 0"
definition LED_OFF :: nat where "LED_OFF = 1"
definition TLS_SEC_TAG :: int where "TLS_SEC_TAG = 42"

text \<open>The levels of the red, green and blue LED, the interrupt of the button, the works, and a restart.\<close>

record ota =
  leds :: "nat \<times> nat \<times> nat"
  sw0_irq :: bool
  fota_work :: bool
  fota_status_check :: "nat option"
  aliveCnt :: nat
  rebooted :: bool

definition show_led :: "nat \<Rightarrow> nat \<Rightarrow> nat \<Rightarrow> ota \<Rightarrow> ota" where
  "show_led r g b a = a\<lparr>leds := (r, g, b)\<rparr>"

definition fota_dl_handler :: "ota fota_callback" where
  "fota_dl_handler evt a =
    (case evt of
       FOTA_DOWNLOAD_EVT_ERROR _ \<Rightarrow> show_led LED_ON LED_OFF LED_OFF (a\<lparr>sw0_irq := True\<rparr>)
     | FOTA_DOWNLOAD_EVT_ERASE_PENDING \<Rightarrow> show_led LED_ON LED_OFF LED_OFF (a\<lparr>sw0_irq := True\<rparr>)
     | FOTA_DOWNLOAD_EVT_FINISHED \<Rightarrow>
         show_led LED_ON LED_ON LED_ON (a\<lparr>fota_status_check := None, sw0_irq := True\<rparr>)
     | FOTA_DOWNLOAD_EVT_PROGRESS _ \<Rightarrow> a\<lparr>aliveCnt := 0\<rparr>
     | FOTA_DOWNLOAD_EVT_ERASE_DONE \<Rightarrow> a)"

definition dfu_button_pressed :: "ota \<Rightarrow> ota" where
  "dfu_button_pressed a = a\<lparr>fota_work := True, fota_status_check := Some 2000, sw0_irq := False\<rparr>"

definition fota_status :: "ota \<Rightarrow> ota" where
  "fota_status a =
    (let a1 = a\<lparr>aliveCnt := aliveCnt a + 1, fota_status_check := None\<rparr>
     in if aliveCnt a1 > 12
        then show_led LED_ON LED_OFF LED_OFF (a1\<lparr>aliveCnt := 0, sw0_irq := True\<rparr>)
        else a1\<lparr>fota_status_check := Some 10000\<rparr>)"

text \<open>The build: where the image is, and whether it is fetched with TLS.\<close>

record ota_build =
  DOWNLOAD_HOST :: bytes
  DOWNLOAD_FILE :: bytes
  USE_HTTPS :: bool
  FOTA_SOCKET_RETRIES :: nat

definition app_dfu_transfer_start ::
  "dl_kconfig \<Rightarrow> ota_build \<Rightarrow> sockets \<Rightarrow> download_client \<Rightarrow> ('i, 'm, ota) fota \<Rightarrow>
     (int \<times> download_client \<times> ('i, 'm, ota) fota) option" where
  "app_dfu_transfer_start k bld net dl s =
    (let tag = (if USE_HTTPS bld then TLS_SEC_TAG else -1);
         s1 = s\<lparr>app := show_led LED_OFF LED_ON LED_OFF (app s\<lparr>fota_work := False\<rparr>)\<rparr>
     in do {
       (retval, dl1, s2) \<leftarrow>
         fota_download_start k (FOTA_SOCKET_RETRIES bld) net (DOWNLOAD_HOST bld) (DOWNLOAD_FILE bld) tag None 0 dl s1;
       if retval \<noteq> 0 then
         Some (retval, dl1, s2\<lparr>app := (show_led LED_ON LED_OFF LED_OFF (app s2\<lparr>sw0_irq := True\<rparr>))\<lparr>rebooted := True\<rparr>\<rparr>)
       else Some (0, dl1, s2)
     })"

section \<open>The start\<close>

text \<open>What the drivers and libraries answer.\<close>

record ota_results =
  sw0_bound :: bool
  sw0_configure :: int
  add_callback :: int
  sw0_interrupt :: int
  led_port_bound :: bool
  ota_bsdlib_ret :: int
  ota_lte_connect :: int

definition MODEM_DFU_RESULT_OK :: int where
  "MODEM_DFU_RESULT_OK = 0x5500001"

definition initSw0 :: "ota_results \<Rightarrow> int" where
  "initSw0 r = (if \<not> sw0_bound r then 1 else if sw0_configure r \<noteq> 0 then -1 else 0)"

definition readSw0 :: int where
  "readSw0 = 0"

definition dfu_button_init :: "ota_results \<Rightarrow> ota \<Rightarrow> int \<times> ota" where
  "dfu_button_init r a =
    (if add_callback r \<noteq> 0 then (1, a)
     else if sw0_interrupt r \<noteq> 0 then (1, a) else (0, a\<lparr>sw0_irq := True\<rparr>))"

definition led_app_version :: "ota_results \<Rightarrow> ota \<Rightarrow> int \<times> ota" where
  "led_app_version r a = (if \<not> led_port_bound r then (1, a) else (0, show_led LED_ON LED_ON LED_OFF a))"

definition application_init :: "ota_results \<Rightarrow> download_client \<Rightarrow> ota \<Rightarrow> int \<times> download_client \<times> ota" where
  "application_init r dl a =
    (let a1 = a\<lparr>fota_work := False, fota_status_check := None\<rparr>
     in case dfu_button_init r a1 of (err, a2) \<Rightarrow>
       if err \<noteq> 0 then (err, dl, a2)
       else (case led_app_version r a2 of (err, a3) \<Rightarrow>
         if err \<noteq> 0 then (err, dl, a3) else (0, download_client_init dl, a3)))"

datatype ota_start = Ota_returned | Ota_suspended | Ota_waiting

text \<open>\<^term>\<open>None\<close>: the assertion that the link comes up has failed.\<close>

definition ota_update :: "ota_results \<Rightarrow> download_client \<Rightarrow> ota \<Rightarrow> (ota_start \<times> download_client \<times> ota) option" where
  "ota_update r dl a =
    (if initSw0 r \<noteq> 0 \<or> readSw0 \<noteq> 0 then Some (Ota_returned, dl, a)
     else if ota_bsdlib_ret r = MODEM_DFU_RESULT_OK then Some (Ota_suspended, dl, a)
     else if ota_bsdlib_ret r = -1 then Some (Ota_returned, dl, a)
     else do {
       guard (ota_lte_connect r = 0);
       (case application_init r dl a of (err, dl1, a1) \<Rightarrow>
          if err \<noteq> 0 then Some (Ota_returned, dl1, a1)
          else Some (Ota_waiting, dl1, show_led LED_OFF LED_OFF LED_ON a1))
     })"

section \<open>The device\<close>

text \<open>The application, the download and the thread of the client.\<close>

record ('i, 'm) ota_sys =
  client :: download_client
  thread :: thread_pc
  fota_state :: "('i, 'm, ota) fota"

definition zero_client :: "dl_kconfig \<Rightarrow> download_client" where
  "zero_client k = \<lparr>dl_fd = 0, dl_inflight = [], dl_buf = replicate (BUF_SIZE k) 0, dl_offset = 0, dl_file_size = 0,
     dl_progress = 0, dl_host = [], dl_file = [], dl_config = \<lparr>sec_tag = 0, apn = None, frag_size_override = 0\<rparr>,
     dl_proto = IPPROTO_TCP, dl_has_header = False, dl_connection_close = False\<rparr>"

definition zero_ota :: ota where
  "zero_ota = \<lparr>leds = (LED_ON, LED_ON, LED_ON), sw0_irq = False, fota_work = False, fota_status_check = None,
     aliveCnt = 0, rebooted = False\<rparr>"

text \<open>
  The device after a start that waits for the button, with an image writer \<^verbatim>\<open>i\<close> and a modem \<^verbatim>\<open>m\<close> in any
  state, and the steps from there: the button (while it has its interrupt and no download runs), the
  work that starts the download, the thread of the client, the delayed status work, and the delayed work
  that resumes at an offset.  The peer of every step serves the file.
\<close>

inductive ota_reach ::
  "('i, 'm) dfu_env \<Rightarrow> dl_kconfig \<Rightarrow> ota_build \<Rightarrow> bytes \<Rightarrow> ('i, 'm) ota_sys \<Rightarrow> bool"
  for env k bld F where
  start: "ota_update r (zero_client k) zero_ota = Some (Ota_waiting, dl, a) \<Longrightarrow>
    ota_reach env k bld F \<lparr>client = dl, thread = Suspended, fota_state =
      \<lparr>first_fragment = True, fota_file_size = 0, socket_retries_left = 0, offset_work = False,
       dfu_state = \<lparr>current_target = None, flash_img = i, modem_state = m, upgrades = []\<rparr>, app = a\<rparr>\<rparr>"
| button: "\<lbrakk>ota_reach env k bld F y; sw0_irq (app (fota_state y)); thread y = Suspended; \<not> rebooted (app (fota_state y))\<rbrakk> \<Longrightarrow>
    ota_reach env k bld F (y\<lparr>fota_state := (fota_state y)\<lparr>app := dfu_button_pressed (app (fota_state y))\<rparr>\<rparr>)"
| work: "\<lbrakk>ota_reach env k bld F y; fota_work (app (fota_state y));
    peer_ok k F (DOWNLOAD_HOST bld) (DOWNLOAD_FILE bld) net;
    app_dfu_transfer_start k bld net (client y) (fota_state y) = Some (ret, dl, s)\<rbrakk> \<Longrightarrow>
    ota_reach env k bld F \<lparr>client = dl, thread = (if ret = 0 then At_recv else thread y), fota_state = s\<rparr>"
| recv: "\<lbrakk>ota_reach env k bld F y; thread y = At_recv; recv_ok k (client y) r;
    thread_recv k (download_client_callback env fota_dl_handler) net r (client y) (fota_state y) = Some (pc, dl, s)\<rbrakk> \<Longrightarrow>
    ota_reach env k bld F \<lparr>client = dl, thread = pc, fota_state = s\<rparr>"
| send: "\<lbrakk>ota_reach env k bld F y; thread y = At_send len;
    peer_ok k F (DOWNLOAD_HOST bld) (DOWNLOAD_FILE bld) net;
    thread_send k (download_client_callback env fota_dl_handler) net len (client y) (fota_state y) = Some (pc, dl, s)\<rbrakk> \<Longrightarrow>
    ota_reach env k bld F \<lparr>client = dl, thread = pc, fota_state = s\<rparr>"
| status: "\<lbrakk>ota_reach env k bld F y; fota_status_check (app (fota_state y)) \<noteq> None\<rbrakk> \<Longrightarrow>
    ota_reach env k bld F (y\<lparr>fota_state := (fota_state y)\<lparr>app := fota_status (app (fota_state y))\<rparr>\<rparr>)"
| resume: "\<lbrakk>ota_reach env k bld F y; offset_work (fota_state y); thread y = Suspended;
    peer_ok k F (DOWNLOAD_HOST bld) (DOWNLOAD_FILE bld) net;
    download_with_offset env k net (client y) (fota_state y) = Some (resumed, dl, s)\<rbrakk> \<Longrightarrow>
    ota_reach env k bld F \<lparr>client = dl, thread = (if resumed then At_recv else Suspended), fota_state = s\<rparr>"

section \<open>The update is complete or it does not happen\<close>

locale ota_device = fota_user env img on_flash k F "DOWNLOAD_HOST bld" "DOWNLOAD_FILE bld" fota_dl_handler
    "\<lambda>a. \<not> fota_work a" sw0_irq
  for env :: "('i, 'm) dfu_env" and img on_flash k F and bld :: ota_build
begin

text \<open>The work that starts a download clears its flag; until it runs nothing else happens to the download.\<close>

definition quiet :: "('i, 'm, ota) fota \<Rightarrow> ('i, 'm, ota) fota" where
  "quiet s = s\<lparr>app := (app s)\<lparr>fota_work := False\<rparr>\<rparr>"

definition ota_inv :: "('i, 'm) ota_sys \<Rightarrow> bool" where
  "ota_inv y \<longleftrightarrow>
    (if thread y = Suspended
     then client_idle k (DOWNLOAD_HOST bld) (client y) \<and> kept (quiet (fota_state y)) [] \<and>
       (sw0_irq (app (fota_state y)) \<or> fota_work (app (fota_state y)))
     else client_ok k (DOWNLOAD_HOST bld) (DOWNLOAD_FILE bld) (client y) \<and>
       client_at k F kept waiting (thread y) (client y) (fota_state y))"

text \<open>Changes of the application do not touch what the download holds.\<close>

lemma kept_app: "kept s L \<Longrightarrow> \<not> fota_work a \<Longrightarrow> kept (s\<lparr>app := a\<rparr>) L"
  by (simp add: fota_holds_def fota_common_def)

lemma client_at_app:
  assumes "client_at k F kept waiting pc dl s" "pc \<noteq> Suspended" "\<not> fota_work a"
  shows "client_at k F kept waiting pc dl (s\<lparr>app := a\<rparr>)"
  using assms by (cases pc) (auto simp: Let_def intro: kept_app split: if_splits)

lemma client_at_fine: "client_at k F kept waiting pc dl s \<Longrightarrow> \<not> fota_work (app s)"
  by (cases pc) (auto simp: Let_def fota_idle_def fota_holds_def fota_common_def split: if_splits)

lemma quiet_id: "\<not> fota_work (app s) \<Longrightarrow> quiet s = s"
  by (cases s; cases "app s") (simp add: quiet_def)

lemma waiting_quiet: "waiting s \<Longrightarrow> kept (quiet s) [] \<and> sw0_irq (app s)"
  by (auto simp: fota_idle_def quiet_id fota_holds_def fota_common_def no_modem_def)

lemma thread_inv:
  assumes "client_ok k (DOWNLOAD_HOST bld) (DOWNLOAD_FILE bld) dl" "client_at k F kept waiting pc dl s"
  shows "ota_inv \<lparr>client = dl, thread = pc, fota_state = s\<rparr>"
proof (cases "pc = Suspended")
  case True
  then have "waiting s" "client_idle k (DOWNLOAD_HOST bld) dl" using assms suspended_idle by auto
  then show ?thesis using True waiting_quiet by (simp add: ota_inv_def)
next
  case False
  then show ?thesis using assms by (simp add: ota_inv_def)
qed

lemma disconnect_idle: "client_idle k h dl \<Longrightarrow> client_idle k h (snd (download_client_disconnect net dl))"
  by (auto simp: download_client_disconnect_def client_idle_def client_ok_def)

lemma status_fine [simp]: "fota_work (fota_status a) = fota_work a" "sw0_irq a \<Longrightarrow> sw0_irq (fota_status a)"
  by (simp_all add: fota_status_def show_led_def Let_def)

lemma status_inv:
  assumes "ota_inv y"
  shows "ota_inv (y\<lparr>fota_state := (fota_state y)\<lparr>app := fota_status (app (fota_state y))\<rparr>\<rparr>)"
proof (cases "thread y = Suspended")
  case True
  then show ?thesis using assms by (auto simp: ota_inv_def quiet_def fota_holds_def fota_common_def)
next
  case False
  then show ?thesis using assms client_at_fine [of "thread y" "client y" "fota_state y"]
    by (auto simp: ota_inv_def intro: client_at_app)
qed

lemma work_inv:
  assumes inv: "ota_inv y" and w: "fota_work (app (fota_state y))"
    and peer: "peer_ok k F (DOWNLOAD_HOST bld) (DOWNLOAD_FILE bld) net"
  obtains ret dl s where "app_dfu_transfer_start k bld net (client y) (fota_state y) = Some (ret, dl, s)"
    "ota_inv \<lparr>client = dl, thread = (if ret = 0 then At_recv else thread y), fota_state = s\<rparr>"
proof -
  have sus: "thread y = Suspended" using inv w client_at_fine by (auto simp: ota_inv_def split: if_splits)
  then have idle: "client_idle k (DOWNLOAD_HOST bld) (client y)" and kp: "kept (quiet (fota_state y)) []"
    using inv by (auto simp: ota_inv_def)
  define cfg where "cfg = \<lparr>sec_tag = (if USE_HTTPS bld then TLS_SEC_TAG else -1), apn = None, frag_size_override = (0 :: u32)\<rparr>"
  define s1 where "s1 = (fota_state y)\<lparr>app := show_led LED_OFF LED_ON LED_OFF (app (fota_state y)\<lparr>fota_work := False\<rparr>),
    socket_retries_left := FOTA_SOCKET_RETRIES bld\<rparr>"
  have k1: "kept s1 []" using kp by (auto simp: s1_def quiet_def fota_holds_def fota_common_def show_led_def split: if_splits)
  have "unat (frag_size_override cfg) \<le> BUF_SIZE k" by (simp add: cfg_def)
  from connect_idle [OF idle this] obtain rc dl1 where
    c: "download_client_connect k net (client y) (DOWNLOAD_HOST bld) cfg = Some (rc, dl1)" "client_idle k (DOWNLOAD_HOST bld) dl1" .
  obtain rc2 dl2 where st: "download_client_start k net dl1 (DOWNLOAD_FILE bld) 0 = Some (rc2, dl2)"
    "if rc2 = 0 then client_ok k (DOWNLOAD_HOST bld) (DOWNLOAD_FILE bld) dl2 \<and> client_at k F kept waiting At_recv dl2 s1
     else client_idle k (DOWNLOAD_HOST bld) dl2" by (rule start_ok [OF c(2) k1 peer])
  define s2 where "s2 = s1\<lparr>app := (show_led LED_ON LED_OFF LED_OFF (app s1\<lparr>sw0_irq := True\<rparr>))\<lparr>rebooted := True\<rparr>\<rparr>"
  have k2: "kept (quiet s2) []" "sw0_irq (app s2)"
    using k1 by (auto simp: s2_def s1_def quiet_def fota_holds_def fota_common_def show_led_def)
  have step: "app_dfu_transfer_start k bld net (client y) (fota_state y) =
      (if rc \<noteq> 0 then Some (rc, dl1, s2)
       else if rc2 \<noteq> 0 then Some (rc2, snd (download_client_disconnect net dl2), s2) else Some (0, dl2, s1))"
    using c(1) st(1) by (simp add: app_dfu_transfer_start_def fota_download_start_def Let_def cfg_def s1_def s2_def)
  show thesis
  proof (cases "rc = 0 \<and> rc2 = 0")
    case True
    then show thesis using that [of 0 dl2 s1] step thread_inv st(2) by simp
  next
    case False
    define dl3 where "dl3 = (if rc \<noteq> 0 then dl1 else snd (download_client_disconnect net dl2))"
    have "client_idle k (DOWNLOAD_HOST bld) dl3" using False c(2) st(2) disconnect_idle by (auto simp: dl3_def)
    then have "ota_inv \<lparr>client = dl3, thread = Suspended, fota_state = s2\<rparr>" using k2 by (simp add: ota_inv_def)
    then show thesis using that [of "if rc \<noteq> 0 then rc else rc2" dl3 s2] step False sus by (auto simp: dl3_def)
  qed
qed

lemma ota_reach_inv: "ota_reach env k bld F y \<Longrightarrow> ota_inv y"
proof (induction rule: ota_reach.induct)
  case (start r dl a i m)
  have "dl = (zero_client k)\<lparr>dl_fd := -1\<rparr>" "sw0_irq a" "\<not> fota_work a"
    using start by (auto simp: ota_update_def application_init_def dfu_button_init_def led_app_version_def
        download_client_init_def zero_ota_def show_led_def Let_def guard_def split: if_splits prod.splits)
  then show ?case
    by (simp add: ota_inv_def quiet_def client_idle_def zero_client_def fota_holds_def fota_common_def no_modem_def target_ready_def)
next
  case (button y)
  then show ?case by (auto simp: ota_inv_def quiet_def dfu_button_pressed_def fota_holds_def fota_common_def)
next
  case (work y net ret dl s)
  then show ?case using work_inv [of y net] by (metis option.inject prod.inject)
next
  case (recv y r net pc dl s)
  have at: "client_ok k (DOWNLOAD_HOST bld) (DOWNLOAD_FILE bld) (client y)" "client_at k F kept waiting At_recv (client y) (fota_state y)"
    using recv.IH recv.hyps(2) by (auto simp: ota_inv_def)
  obtain pc' dl' s' where "thread_recv k (download_client_callback env fota_dl_handler) net r (client y) (fota_state y) = Some (pc', dl', s')"
    "client_ok k (DOWNLOAD_HOST bld) (DOWNLOAD_FILE bld) dl'" "client_at k F kept waiting pc' dl' s'"
    by (rule thread_recv_ok [OF at recv.hyps(3)])
  then show ?case using thread_inv recv.hyps(4) by auto
next
  case (send y len net pc dl s)
  have at: "client_ok k (DOWNLOAD_HOST bld) (DOWNLOAD_FILE bld) (client y)" "client_at k F kept waiting (At_send len) (client y) (fota_state y)"
    using send.IH send.hyps(2) by (auto simp: ota_inv_def)
  obtain pc' dl' s' where "thread_send k (download_client_callback env fota_dl_handler) net len (client y) (fota_state y) = Some (pc', dl', s')"
    "client_ok k (DOWNLOAD_HOST bld) (DOWNLOAD_FILE bld) dl'" "client_at k F kept waiting pc' dl' s'"
    by (rule thread_send_ok [OF at send.hyps(3)])
  then show ?case using thread_inv send.hyps(4) by auto
next
  case (status y)
  then show ?case using status_inv by blast
next
  case (resume y net resumed dl s)
  then have "\<not> offset_work (fota_state y)"
    by (simp add: ota_inv_def quiet_def fota_holds_def fota_common_def)
  then show ?case using resume.hyps by blast
qed

lemma inv_upgrades: "ota_inv y \<Longrightarrow> \<forall>u\<in>set (upgrades (dfu_state (fota_state y))). on_flash u = F"
  by (cases "thread y") (auto simp: ota_inv_def quiet_def fota_holds_def fota_common_def Let_def split: if_splits)

lemma upgrades_complete: "\<lbrakk>ota_reach env k bld F y; u \<in> set (upgrades (dfu_state (fota_state y)))\<rbrakk> \<Longrightarrow> on_flash u = F"
  using ota_reach_inv inv_upgrades by blast

lemma recv_defined:
  "\<lbrakk>ota_reach env k bld F y; thread y = At_recv; recv_ok k (client y) r\<rbrakk> \<Longrightarrow>
    thread_recv k (download_client_callback env fota_dl_handler) net r (client y) (fota_state y) \<noteq> None"
  using ota_reach_inv [of y] thread_recv_ok [of "client y" "fota_state y" r net]
  unfolding ota_inv_def by (metis option.distinct(1) thread_pc.distinct(3))

lemma send_defined:
  "\<lbrakk>ota_reach env k bld F y; thread y = At_send len; peer_ok k F (DOWNLOAD_HOST bld) (DOWNLOAD_FILE bld) net\<rbrakk> \<Longrightarrow>
    thread_send k (download_client_callback env fota_dl_handler) net len (client y) (fota_state y) \<noteq> None"
  using ota_reach_inv [of y] thread_send_ok [of "client y" len "fota_state y" net]
  unfolding ota_inv_def by (metis option.distinct(1) thread_pc.distinct(5))

lemma work_defined:
  "\<lbrakk>ota_reach env k bld F y; fota_work (app (fota_state y)); peer_ok k F (DOWNLOAD_HOST bld) (DOWNLOAD_FILE bld) net\<rbrakk> \<Longrightarrow>
    app_dfu_transfer_start k bld net (client y) (fota_state y) \<noteq> None"
  using ota_reach_inv [of y] work_inv [of y net] by (metis option.distinct(1))

lemma button_back:
  "\<lbrakk>ota_reach env k bld F y; thread y = Suspended\<rbrakk> \<Longrightarrow> sw0_irq (app (fota_state y)) \<or> fota_work (app (fota_state y))"
  using ota_reach_inv [of y] by (simp add: ota_inv_def)

end

lemma ota_device_intro:
  assumes "\<forall>i r i'. flash_img_init (flash env) i = (r, i') \<longrightarrow>
      r = 0 \<and> img i' = [] \<and> flash_img_bytes_written (flash env) i' = 0"
    and "\<forall>i b fl i'. flash_img_buffered_write (flash env) i b fl = (0, i') \<longrightarrow>
      img i' = img i @ b \<and> (fl \<longrightarrow> on_flash i' = img i')"
    and "client_config k (DOWNLOAD_HOST bld) (DOWNLOAD_FILE bld)" "length F < 2 ^ 31" "dfu_target_mcuboot_identify F = Some True"
  shows "ota_device env img on_flash k F bld"
proof -
  have "F \<noteq> []" using assms(5) by (auto simp: dfu_target_mcuboot_identify_def le32_at_def)
  then show ?thesis using assms by unfold_locales (auto simp: fota_dl_handler_def show_led_def split: fota_download_evt.splits)
qed

section \<open>What an update leaves\<close>



section \<open>An update\<close>

text \<open>
  An image writer over the bytes it has taken, a server with a small image and the steps of an update: a
  start, a press of the button, the request, and the answer with the whole file.
\<close>


definition byte_flash :: "bytes flash_ops" where
  "byte_flash = \<lparr>flash_img_init = \<lambda>_. (0, []), flash_img_bytes_written = \<lambda>i. of_nat (length i),
     flash_img_buffered_write = \<lambda>i b _. (0, i @ b), boot_request_upgrade = \<lambda>_. 0\<rparr>"

definition demo_env :: "(bytes, unit) dfu_env" where
  "demo_env = \<lparr>flash = byte_flash, modem = \<lparr>modem_init = \<lambda>_ m. (0, [], m), modem_offset = \<lambda>_. 0,
     modem_write = \<lambda>_ m. (0, m), modem_done = \<lambda>_ m. (0, m)\<rparr>, DFU_TARGET_MODEM = True, PM_MCUBOOT_SECONDARY_SIZE = 0x70000\<rparr>"

definition demo_k :: dl_kconfig where
  "demo_k = \<lparr>BUF_SIZE = 120, HTTP_FRAG_SIZE = 120, RANGE_REQUESTS = True, CLIENT_IPV6 = False,
     MAX_HOSTNAME_SIZE = 8, MAX_FILENAME_SIZE = 8, IFNAMSIZ = 16\<rparr>"

definition demo_build :: ota_build where
  "demo_build = \<lparr>DOWNLOAD_HOST = asc ''h'', DOWNLOAD_FILE = asc ''f'', USE_HTTPS = False, FOTA_SOCKET_RETRIES = 2\<rparr>"

definition demo_file :: bytes where
  "demo_file = [0x3d, 0xb8, 0xf3, 0x96, 1, 2, 3, 4]"

definition demo_header :: bytes where
  "demo_header = asc ''HTTP/1.1 206'' @ CRLF @ asc ''Content-Range: /8'' @ CRLF @ CRLF"

definition demo_net :: sockets where
  "demo_net = \<lparr>getaddrinfo = \<lambda>_ _. Some AF_INET, socket_fd = 3, socket_errno = 0, bind_errno = 0, verify_errno = 0,
     sec_tag_errno = 0, connect_errno = 0, close_errno = 0, send_results = \<lambda>_. 50, send_errno = 0,
     answer = \<lambda>q. if q = range_request (asc ''h'') (asc ''f'') 0 119 then demo_header @ demo_file else []\<rparr>"

definition demo_results :: ota_results where
  "demo_results = \<lparr>sw0_bound = True, sw0_configure = 0, add_callback = 0, sw0_interrupt = 0,
     led_port_bound = True, ota_bsdlib_ret = 0, ota_lte_connect = 0\<rparr>"

definition demo_start :: "ota_start \<times> download_client \<times> ota" where
  "demo_start = the (ota_update demo_results (zero_client demo_k) zero_ota)"

definition demo_fota :: "ota \<Rightarrow> (bytes, unit, ota) fota" where
  "demo_fota a = \<lparr>first_fragment = True, fota_file_size = 0, socket_retries_left = 0, offset_work = False,
     dfu_state = \<lparr>current_target = None, flash_img = [], modem_state = (), upgrades = []\<rparr>, app = a\<rparr>"

definition demo_work :: "int \<times> download_client \<times> (bytes, unit, ota) fota" where
  "demo_work = the (app_dfu_transfer_start demo_k demo_build demo_net (fst (snd demo_start))
     (demo_fota (dfu_button_pressed (snd (snd demo_start)))))"

definition demo_recv :: "thread_pc \<times> download_client \<times> (bytes, unit, ota) fota" where
  "demo_recv = the (thread_recv demo_k (download_client_callback demo_env fota_dl_handler) demo_net (Got 43)
     (fst (snd demo_work)) (snd (snd demo_work)))"

text \<open>What the steps come to, by evaluation.\<close>

lemma demo_started:
  "ota_update demo_results (zero_client demo_k) zero_ota \<noteq> None" "fst demo_start = Ota_waiting"
  "sw0_irq (snd (snd demo_start))" "rebooted (snd (snd demo_start)) = False"
  by code_simp+

lemma demo_worked:
  "app_dfu_transfer_start demo_k demo_build demo_net (fst (snd demo_start))
     (demo_fota (dfu_button_pressed (snd (snd demo_start)))) \<noteq> None"
  "fst demo_work = 0" "recv_ok demo_k (fst (snd demo_work)) (Got 43)"
  by code_simp+

lemma demo_received:
  "thread_recv demo_k (download_client_callback demo_env fota_dl_handler) demo_net (Got 43)
     (fst (snd demo_work)) (snd (snd demo_work)) \<noteq> None"
  "fst demo_recv = Suspended" "upgrades (dfu_state (snd (snd demo_recv))) = [demo_file]"
  by code_simp+


lemma demo_laws:
  "\<forall>i r i'. flash_img_init (flash demo_env) i = (r, i') \<longrightarrow> r = 0 \<and> id i' = [] \<and> flash_img_bytes_written (flash demo_env) i' = 0"
  "\<forall>i b fl i'. flash_img_buffered_write (flash demo_env) i b fl = (0, i') \<longrightarrow> id i' = id i @ b \<and> (fl \<longrightarrow> id i' = id i')"
  "client_config demo_k (DOWNLOAD_HOST demo_build) (DOWNLOAD_FILE demo_build)" "length demo_file < 2 ^ 31"
  "dfu_target_mcuboot_identify demo_file = Some True"
proof -
  show "\<forall>i r i'. flash_img_init (flash demo_env) i = (r, i') \<longrightarrow> r = 0 \<and> id i' = [] \<and> flash_img_bytes_written (flash demo_env) i' = 0"
    "\<forall>i b fl i'. flash_img_buffered_write (flash demo_env) i b fl = (0, i') \<longrightarrow> id i' = id i @ b \<and> (fl \<longrightarrow> id i' = id i')"
    by (simp_all add: demo_env_def byte_flash_def)
  have "url_parse_proto (DOWNLOAD_HOST demo_build) = None" "url_parse_port (DOWNLOAD_HOST demo_build) = Some (- EINVAL, 0)"
    by code_simp+
  then show "client_config demo_k (DOWNLOAD_HOST demo_build) (DOWNLOAD_FILE demo_build)"
    by (simp add: client_config_def demo_k_def demo_build_def)
  show "length demo_file < 2 ^ 31" by (simp add: demo_file_def)
  show "dfu_target_mcuboot_identify demo_file = Some True" by code_simp
qed

interpretation demo: ota_device demo_env id id demo_k demo_file demo_build
  by (rule ota_device_intro [OF demo_laws])

lemma demo_peer: "peer_ok demo_k demo_file (DOWNLOAD_HOST demo_build) (DOWNLOAD_FILE demo_build) demo_net"
proof -
  have h: "url_parse_host (DOWNLOAD_HOST demo_build) (MAX_HOSTNAME_SIZE demo_k) = (0, asc ''h'')"
    "url_parse_file (DOWNLOAD_FILE demo_build) (MAX_FILENAME_SIZE demo_k) = (0, asc ''f'')"
    by code_simp+
  have n: "length demo_file = 8" by (simp add: demo_file_def)
  have r: "range_header 8 demo_header" by code_simp
  have "take 120 demo_file = demo_file" by (simp add: demo_file_def)
  then show ?thesis unfolding peer_ok_def serves_def h snd_conv
    using r n by (auto simp: demo_net_def range_request_inj)
qed

lemma demo_reach: "ota_reach demo_env demo_k demo_build demo_file
  \<lparr>client = fst (snd demo_recv), thread = Suspended, fota_state = snd (snd demo_recv)\<rparr>"
proof -
  let ?reach = "ota_reach demo_env demo_k demo_build demo_file"
  let ?a = "snd (snd demo_start)" and ?dl = "fst (snd demo_start)"
  have "ota_update demo_results (zero_client demo_k) zero_ota = Some (Ota_waiting, ?dl, ?a)"
    using demo_started(1,2) by (auto simp: demo_start_def prod_eq_iff)
  from ota_reach.start [OF this] have "?reach \<lparr>client = ?dl, thread = Suspended, fota_state = demo_fota ?a\<rparr>"
    by (simp add: demo_fota_def)
  from ota_reach.button [OF this] have
    b: "?reach \<lparr>client = ?dl, thread = Suspended, fota_state = demo_fota (dfu_button_pressed ?a)\<rparr>"
    using demo_started(3,4) by (simp add: demo_fota_def)
  have w: "app_dfu_transfer_start demo_k demo_build demo_net ?dl (demo_fota (dfu_button_pressed ?a)) =
      Some (0, fst (snd demo_work), snd (snd demo_work))"
    using demo_worked(1,2) by (auto simp: demo_work_def prod_eq_iff)
  have "?reach \<lparr>client = fst (snd demo_work), thread = At_recv, fota_state = snd (snd demo_work)\<rparr>"
    using ota_reach.work [OF b _ demo_peer, of 0] w by (simp add: demo_fota_def dfu_button_pressed_def)
  from ota_reach.recv [OF this, of "Got 43" demo_net Suspended "fst (snd demo_recv)" "snd (snd demo_recv)"]
  show ?thesis using demo_worked(3) demo_received(1,2) by (auto simp: demo_recv_def prod_eq_iff)
qed



end
