(* ===== verification/Spec2Isabelle.thy ===== *)
theory Spec2Isabelle
  imports Prelude Errno U128 Endian AbiRead AbiPack Utils Signer PbPack PbProto Jsmn JsonParse CFormat Request EmbApi LocalStorage
    SecureServices Ecdsa MqttConfig Payload BulkUpload Modem Ui Gps Mqtt CloudCodec Watchdog MainLoop Download Fota Ota
begin

text \<open>
  A model of the firmware of the Pebble tracker: the application
  \<^verbatim>\<open>src/nrf/applications/asset_tracker\<close> with the client library of the IoTeX chain it carries
  (\<^verbatim>\<open>antenna_sdk\<close>), and the part of the secure image that keeps its key.  Paths below are relative to
  \<^verbatim>\<open>src/nrf/applications/asset_tracker/src\<close> unless they start with \<^verbatim>\<open>src/\<close>.

  \<^bold>\<open>The program.\<close>  The device samples its sensors, signs each reading with a key that never leaves the
  secure image, and publishes it over MQTT.  It has a download of its own firmware, started with a button.  Its server can change, over the same connection, which
  sensors are read and how often, and can ask for a batch: the device then samples into a ring of the
  non-volatile storage and uploads the batch later.  The client library talks HTTP to a gateway of the
  chain: it composes URLs, parses JSON answers into the structures of its caller, and builds signed
  protocol buffer actions and contract calls.

  \<^bold>\<open>Theories and code.\<close>  Each theory holds one component: its data as records and datatypes, one
  definition per C function in the order of the source, the loops of a function as definitions of their
  own, then its lemmas.
    \<^item> \<open>Prelude\<close>: 32-bit machine types, buffers as lists of bytes with checked reads and writes (a read
      or write outside its buffer is \<open>None\<close>), C strings, decimal digits.  \<open>Errno\<close>: the error numbers.
      \<open>CFormat\<close>: the conversions of \<^verbatim>\<open>printf\<close> the code uses.
    \<^item> The client library: \<open>U128\<close> (\<^verbatim>\<open>u128.c\<close>, both builds), \<open>Endian\<close> (\<^verbatim>\<open>endian_conv.c\<close>), \<open>AbiRead\<close> and
      \<open>AbiPack\<close> (\<^verbatim>\<open>abi_read_contract.c\<close>, \<^verbatim>\<open>abi_pack.c\<close>), \<open>Utils\<close> (\<^verbatim>\<open>utils.c\<close>), \<open>Signer\<close> (\<^verbatim>\<open>signer.c\<close>),
      \<open>PbPack\<close> and \<open>PbProto\<close> (\<^verbatim>\<open>pb_pack.c\<close>, \<^verbatim>\<open>pb_proto.c\<close>), \<open>Jsmn\<close> (\<^verbatim>\<open>jsmn.h\<close>), \<open>JsonParse\<close> (\<^verbatim>\<open>parse.c\<close>,
      \<^verbatim>\<open>rule.c\<close>), \<open>Request\<close> (\<^verbatim>\<open>request.c\<close>), \<open>EmbApi\<close> (\<^verbatim>\<open>response.c\<close>, \<^verbatim>\<open>iotex_emb.c\<close>).
    \<^item> The storage and the key: \<open>LocalStorage\<close> (\<^verbatim>\<open>nvs/local_storage.c\<close>), \<open>SecureServices\<close>
      (\<^verbatim>\<open>src/nrf/samples/spm/src/CryptoCell.c\<close>, \<^verbatim>\<open>src/nrf/subsys/spm/secure_services.c\<close>), \<open>Ecdsa\<close>
      (\<^verbatim>\<open>sign/ecdsa.c\<close>).
    \<^item> The data channel: \<open>MqttConfig\<close> (\<^verbatim>\<open>mqtt/config.c\<close>), \<open>Payload\<close> (\<^verbatim>\<open>mqtt/payload.c\<close>), \<open>Mqtt\<close>
      (\<^verbatim>\<open>mqtt/mqtt.c\<close>), \<open>BulkUpload\<close> (the periodic work of \<^verbatim>\<open>main.c\<close>), \<open>CloudCodec\<close>
      (\<^verbatim>\<open>cloud_codec/cloud_codec.c\<close>, \<^verbatim>\<open>service_info.c\<close>).
    \<^item> The board: \<open>Modem\<close> (\<^verbatim>\<open>modem/modem_helper.c\<close>), \<open>Gps\<close> (\<^verbatim>\<open>gps_controller/gps_controller.c\<close>), \<open>Ui\<close>
      (\<^verbatim>\<open>ui/led_pwm.c\<close>, \<^verbatim>\<open>ui/ui.c\<close>, \<^verbatim>\<open>hal/hal_gpio.c\<close>), \<open>Watchdog\<close> (\<^verbatim>\<open>watchdog/watchdog.c\<close>), \<open>MainLoop\<close>
      (the start and the loop of \<^verbatim>\<open>main.c\<close>).
    \<^item> The firmware update: \<open>Download\<close> (\<^verbatim>\<open>src/nrf/subsys/net/lib/download_client/src\<close>: \<^verbatim>\<open>parse.c\<close>, \<^verbatim>\<open>http.c\<close>,
      \<^verbatim>\<open>download_client.c\<close>), \<open>Fota\<close> (\<^verbatim>\<open>src/nrf/subsys/net/lib/fota_download/src/fota_download.c\<close> and
      \<^verbatim>\<open>dfu_target.c\<close>, \<^verbatim>\<open>dfu_target_mcuboot.c\<close> of \<^verbatim>\<open>src/nrf/subsys/dfu/src\<close>), \<open>Ota\<close> (\<^verbatim>\<open>ota/http_update.c\<close>).

  \<^bold>\<open>How the parts interact.\<close>  \<open>MainLoop\<close> owns the LED of \<open>Ui\<close> and the client of \<open>Mqtt\<close>; a pass of
  the loop polls the battery (\<open>Modem\<close>), hands the events of the connection to the client and the button
  changes to \<open>Ui\<close>.  A received message goes through \<open>Mqtt\<close> into \<open>MqttConfig\<close>, which saves what changed
  with \<open>LocalStorage\<close>.  \<open>BulkUpload\<close> is the work that runs beside the loop: it asks \<open>MqttConfig\<close> what to
  do, and calls \<open>Payload\<close>, which reads \<open>Modem\<close>, \<open>Gps\<close> and the sensors, stores blocks with \<open>LocalStorage\<close>
  and signs with the services of \<open>SecureServices\<close> through \<open>Ecdsa\<close>.  In the client library \<open>EmbApi\<close>
  composes \<open>Request\<close>, \<open>JsonParse\<close> over \<open>Jsmn\<close>, \<open>PbProto\<close> over \<open>PbPack\<close> and \<open>Signer\<close>, and \<open>AbiRead\<close>.
  The update is three layers of callbacks: the thread of \<open>Download\<close> hands fragments to \<open>Fota\<close>, which
  writes them into a target and reports to the handler of \<open>Ota\<close>; \<open>download_user\<close> states what the thread
  needs of the layer above it, \<open>fota_user\<close> what the download needs of the application, and \<open>flash_image\<close>
  what the image writer of the operating system promises.

  \<^bold>\<open>How state and effects correspond.\<close>  A C structure is a record with the same fields; the static
  variables of a file are a record passed through its functions.  A buffer is a list of bytes of its
  size; a pointer into it is an offset.  Undefined behaviour (an access outside a buffer, a missing NUL)
  is \<open>None\<close>, so that a theorem with \<open>Some\<close> also says that it does not happen.  Integers are words of their
  C width where they can wrap.  Time and the other threads are explicit: events, delayed works with their
  remaining time, and step relations with reachable states in \<open>BulkUpload\<close>, \<open>Watchdog\<close>, \<open>MainLoop\<close> and
  \<open>Ota\<close>.  The thread of the download client is a step function from one blocking call to the next; an
  assertion that fails is \<open>None\<close> too, because this build compiles assertions in.

  \<^bold>\<open>What the lemmas show.\<close>
    \<^item> Encoders and decoders are exact on their whole domain, against a definition of the format that does
      not mention the code: the wire format of protocol buffers with an independent decoder, ABI call data,
      the JSON tokens, decimal and hexadecimal text, calendar time from days, the effects of the LED.
    \<^item> Memory safety: with the sizes the callers pass, no access leaves its buffer; where the code does
      leave it, a theorem gives the input.
    \<^item> Storage: \<open>nvs_spec\<close> states what the documentation of the file system promises; \<open>storage\<close>, what the
      wrappers promise to their clients, follows from it by \<^verbatim>\<open>sublocale\<close>; configuration, key and sampled
      blocks are proved to survive restarts inside that interface.
    \<^item> Whole runs: every sampled block is accounted for over failures and restarts; the configuration of
      the running client is what a restart loads; the LED shows the last reported state; the device stops
      only for a named cause; the watchdog resets exactly the device whose queues are stuck; the rule
      that decides whether a value may be sent is the one the received messages describe; a firmware image is activated only when the flash has
      exactly the file of the server.

  \<^bold>\<open>Parameters.\<close>  What is not in the sources is an argument of the definitions that use it: the
  allocator, the modem's answers, the sockets (scripts of results), the MQTT library (its events), the
  curve operations, hash and block cipher, the flash file system and image writer,
  the update target of the modem, the JSON parser and printer, \<^verbatim>\<open>atof\<close> and
  the formatting of doubles, the sensor drivers.  Their laws, where a theorem needs them, are named
  hypotheses of the theorem or assumptions of a locale, with an instance that satisfies them.

  \<^bold>\<open>Bounds and fuel.\<close>  Loops are structural or have a measure.  Fuel appears where the C loop is bounded
  by the width of what it consumes, with the theorem that the fuel is enough: the handler of the buttons
  (one round for each of the 32 bits of the changed mask).
'''

  \<^bold>\<open>Not modelled.\<close>  The sensor, ADC and I2C drivers (their readings are inputs); the motion, environment
  and light pollers of the SDK sample, which the firmware does not start; buzzer and MOS outputs; the
  vendored curve, hash, JSON, protocol buffer, TLS and LVGL libraries, the bootloader, the modem libraries
  and the rest of the SDK as delivered by their authors; certificate provisioning and TLS options; CoAP, saved
  progress and the choice between two images in the firmware download, and a press of the update button
  while a download still runs (the steps of \<open>Ota\<close> exclude it); the
  branches the build does not select (internal GPS, assisted GPS, host build of the HTTP client).
\<close>

end
